(* ===== verification/Prelude.thy ===== *)
theory Prelude
  imports Main "HOL-Library.Word"
begin

text \<open>
  Shared vocabulary of the development: Rust's integer types as words, the outcome of a
  computation that can panic or spin forever, the overflow-checked arithmetic of the
  \<^verbatim>\<open>dev\<close> profile (the profile \<^verbatim>\<open>cargo run\<close> builds), little-endian encodings, slice copies,
  and the lemmas on them that the component theories share.
\<close>

unbundle bit_operations_syntax

section \<open>Machine types and outcomes\<close>

type_synonym u8 = "8 word"
type_synonym u16 = "16 word"
type_synonym u32 = "32 word"
type_synonym u64 = "64 word"

text \<open>
  Why a Rust computation stopped abnormally. The kernel is built with \<^verbatim>\<open>panic = "abort"\<close>, and its
  panic handler halts the machine, so a panic is final.
\<close>

datatype panic =
    Overflow
  | Div_By_Zero
  | Out_Of_Bounds
  | Slice_Order
  | Char_Boundary
  | Panic_Msg string

text \<open>
  \<open>Ret\<close> is a normal return, \<open>Panic\<close> a panic, \<open>Hang\<close> a loop that has not ended within the
  rounds the model grants it (each use states how many are enough).
\<close>

datatype 'a outcome = Ret 'a | Panic panic | Hang

definition obind :: "'a outcome \<Rightarrow> ('a \<Rightarrow> 'b outcome) \<Rightarrow> 'b outcome" where
  "obind m f = (case m of Ret x \<Rightarrow> f x | Panic p \<Rightarrow> Panic p | Hang \<Rightarrow> Hang)"

definition checked_add :: "'a::len word \<Rightarrow> 'a word \<Rightarrow> 'a word outcome" where
  "checked_add a b = (if unat a + unat b < 2 ^ LENGTH('a) then Ret (a + b) else Panic Overflow)"

definition checked_sub :: "'a::len word \<Rightarrow> 'a word \<Rightarrow> 'a word outcome" where
  "checked_sub a b = (if unat b \<le> unat a then Ret (a - b) else Panic Overflow)"

definition checked_mul :: "'a::len word \<Rightarrow> 'a word \<Rightarrow> 'a word outcome" where
  "checked_mul a b = (if unat a * unat b < 2 ^ LENGTH('a) then Ret (a * b) else Panic Overflow)"

definition checked_div :: "'a::len word \<Rightarrow> 'a word \<Rightarrow> 'a word outcome" where
  "checked_div a b = (if b = 0 then Panic Div_By_Zero else Ret (a div b))"

text \<open>A \<^verbatim>\<open>for\<close> loop whose body can panic.\<close>

primrec for_each :: "('a \<Rightarrow> 's \<Rightarrow> 's outcome) \<Rightarrow> 'a list \<Rightarrow> 's \<Rightarrow> 's outcome" where
  "for_each f [] s = Ret s"
| "for_each f (x # xs) s = obind (f x s) (for_each f xs)"

section \<open>Little-endian encodings and slices\<close>

definition from_le16 :: "u8 \<Rightarrow> u8 \<Rightarrow> u16" where
  "from_le16 lo hi = ucast lo OR push_bit 8 (ucast hi)"

definition to_le16 :: "u16 \<Rightarrow> u8 list" where
  "to_le16 v = [ucast v, ucast (drop_bit 8 v)]"

definition from_le32 :: "u8 \<Rightarrow> u8 \<Rightarrow> u8 \<Rightarrow> u8 \<Rightarrow> u32" where
  "from_le32 a b c d =
     ucast a OR push_bit 8 (ucast b) OR push_bit 16 (ucast c) OR push_bit 24 (ucast d)"

definition to_le32 :: "u32 \<Rightarrow> u8 list" where
  "to_le32 v = [ucast v, ucast (drop_bit 8 v), ucast (drop_bit 16 v), ucast (drop_bit 24 v)]"

text \<open>\<open>le16_at buf i\<close> is \<^verbatim>\<open>u16::from_le_bytes([buf[i], buf[i + 1]])\<close>.\<close>

definition le16_at :: "u8 list \<Rightarrow> nat \<Rightarrow> u16" where
  "le16_at buf i = from_le16 (buf ! i) (buf ! (i + 1))"

definition le32_at :: "u8 list \<Rightarrow> nat \<Rightarrow> u32" where
  "le32_at buf i = from_le32 (buf ! i) (buf ! (i + 1)) (buf ! (i + 2)) (buf ! (i + 3))"

text \<open>\<open>copy_at buf i src\<close> is \<^verbatim>\<open>buf[i..i + src.len()].copy_from_slice(src)\<close> within bounds.\<close>

definition copy_at :: "'a list \<Rightarrow> nat \<Rightarrow> 'a list \<Rightarrow> 'a list" where
  "copy_at buf i src = take i buf @ src @ drop (i + length src) buf"

definition subslice :: "'a list \<Rightarrow> nat \<Rightarrow> nat \<Rightarrow> 'a list" where
  "subslice buf i n = take n (drop i buf)"

text \<open>Decimal digits of a natural number, as \<^verbatim>\<open>Display\<close> prints an unsigned integer.\<close>

fun nat_str :: "nat \<Rightarrow> string" where
  "nat_str n =
    (if n < 10 then [char_of (48 + n)] else nat_str (n div 10) @ [char_of (48 + n mod 10)])"

declare nat_str.simps [simp del]

section \<open>Lemmas\<close>

named_theorems outcome_simps \<open>evaluation of outcomes and checked arithmetic\<close>

lemma obind_simps [simp]:
  "obind (Ret x) f = f x"
  "obind (Panic p) f = Panic p"
  "obind Hang f = Hang"
  by (simp_all add: obind_def)

lemma obind_ext: "(\<And>x. f x = g x) \<Longrightarrow> obind m f = obind m g"
  by (cases m) simp_all

lemma obind_Ret_iff: "obind m f = Ret y \<longleftrightarrow> (\<exists>x. m = Ret x \<and> f x = Ret y)"
  by (cases m) simp_all

lemma obind_RetE [elim]:
  assumes "obind m f = Ret y"
  obtains x where "m = Ret x" "f x = Ret y"
  using assms by (auto simp: obind_Ret_iff)

lemma obind_Hang_iff: "obind m f = Hang \<longleftrightarrow> m = Hang \<or> (\<exists>x. m = Ret x \<and> f x = Hang)"
  by (cases m) simp_all

lemma obind_assoc: "obind (obind m f) g = obind m (\<lambda>x. obind (f x) g)"
  by (cases m) simp_all

lemma checked_add_Ret [outcome_simps]:
  "unat a + unat b < 2 ^ LENGTH('a) \<Longrightarrow> checked_add a (b :: 'a::len word) = Ret (a + b)"
  by (simp add: checked_add_def)

lemma checked_sub_Ret [outcome_simps]:
  "unat b \<le> unat a \<Longrightarrow> checked_sub a (b :: 'a::len word) = Ret (a - b)"
  by (simp add: checked_sub_def)

lemma checked_mul_Ret [outcome_simps]:
  "unat a * unat b < 2 ^ LENGTH('a) \<Longrightarrow> checked_mul a (b :: 'a::len word) = Ret (a * b)"
  by (simp add: checked_mul_def)

lemma checked_add_not_Hang [simp]: "checked_add a b \<noteq> Hang"
  by (simp add: checked_add_def)

lemma checked_sub_not_Hang [simp]: "checked_sub a b \<noteq> Hang"
  by (simp add: checked_sub_def)

lemma checked_mul_not_Hang [simp]: "checked_mul a b \<noteq> Hang"
  by (simp add: checked_mul_def)

lemma checked_div_not_Hang [simp]: "checked_div a b \<noteq> Hang"
  by (simp add: checked_div_def)

lemma unat_add_small:
  "unat a + unat b < 2 ^ LENGTH('a) \<Longrightarrow> unat (a + b :: 'a::len word) = unat a + unat b"
  by (simp add: unat_word_ariths)

lemma unat_mult_small:
  "unat a * unat b < 2 ^ LENGTH('a) \<Longrightarrow> unat (a * b :: 'a::len word) = unat a * unat b"
  by (simp add: unat_word_ariths)

lemma unat_sub_small: "unat b \<le> unat a \<Longrightarrow> unat (a - b :: 'a::len word) = unat a - unat b"
  by (simp add: unat_sub word_le_nat_alt)

lemma unat_of_nat_small: "n < 2 ^ LENGTH('a) \<Longrightarrow> unat (of_nat n :: 'a::len word) = n"
  by (simp add: unat_of_nat take_bit_nat_eq_self)

lemma unat_u16_less: "unat (w :: u16) < 65536"
  using unsigned_less [of w, where ?'a = nat] by simp

lemma unat_u8_less: "unat (w :: u8) < 256"
  using unsigned_less [of w, where ?'a = nat] by simp

lemma unat_u32_less: "unat (w :: u32) < 4294967296"
  using unsigned_less [of w, where ?'a = nat] by simp

lemma unat_ucast_u16_u32 [simp]: "unat (ucast (w :: u16) :: u32) = unat w"
  by (simp add: unsigned_ucast_eq take_bit_nat_eq_self less_trans [OF unat_u16_less])

lemma unat_ucast_u8_u32 [simp]: "unat (ucast (w :: u8) :: u32) = unat w"
  by (simp add: unsigned_ucast_eq take_bit_nat_eq_self less_trans [OF unat_u8_less])

lemma le16_round_trip [simp]: "from_le16 (to_le16 v ! 0) (to_le16 v ! 1) = v"
  unfolding from_le16_def to_le16_def
  by (rule bit_word_eqI) (auto simp: bit_simps not_less)

lemma to_le16_from_le16 [simp]: "to_le16 (from_le16 lo hi) = [lo, hi]"
  unfolding from_le16_def to_le16_def
  by (simp, intro conjI; rule bit_word_eqI; auto simp: bit_simps dest: bit_imp_le_length)

lemma le32_round_trip [simp]:
  "from_le32 (to_le32 v ! 0) (to_le32 v ! 1) (to_le32 v ! 2) (to_le32 v ! 3) = v"
proof (rule bit_word_eqI)
  fix n assume n: "n < LENGTH(32)"
  then consider "n < 8" | "8 \<le> n" "n < 16" | "16 \<le> n" "n < 24" | "24 \<le> n" "n < 32"
    by fastforce
  then show "bit (from_le32 (to_le32 v ! 0) (to_le32 v ! 1) (to_le32 v ! 2) (to_le32 v ! 3)) n = bit v n"
    by cases (auto simp: from_le32_def to_le32_def bit_simps)
qed

lemma le16_bytes [simp]: "from_le16 (ucast v) (ucast (drop_bit 8 v)) = v"
  using le16_round_trip [of v] by (simp add: to_le16_def)

lemma le32_bytes [simp]:
  "from_le32 (ucast v) (ucast (drop_bit 8 v)) (ucast (drop_bit 16 v)) (ucast (drop_bit 24 v)) = v"
  using le32_round_trip [of v] by (simp add: to_le32_def eval_nat_numeral)

lemma length_to_le [simp]: "length (to_le16 v) = 2" "length (to_le32 u) = 4"
  by (simp_all add: to_le16_def to_le32_def)

lemma length_copy_at [simp]: "i + length src \<le> length buf \<Longrightarrow> length (copy_at buf i src) = length buf"
  by (simp add: copy_at_def)

lemma copy_at_Nil [simp]: "copy_at buf i [] = buf"
  by (simp add: copy_at_def)

lemma nth_copy_at:
  assumes "i + length src \<le> length buf" and "j < length buf"
  shows "copy_at buf i src ! j = (if i \<le> j \<and> j < i + length src then src ! (j - i) else buf ! j)"
  using assms by (auto simp: copy_at_def nth_append)

lemma length_subslice [simp]: "i + n \<le> length buf \<Longrightarrow> length (subslice buf i n) = n"
  by (simp add: subslice_def)

lemma nth_subslice: "i + n \<le> length buf \<Longrightarrow> j < n \<Longrightarrow> subslice buf i n ! j = buf ! (i + j)"
  by (simp add: subslice_def)

lemma subslice_copy_at_same [simp]:
  "i + length src \<le> length buf \<Longrightarrow> n = length src \<Longrightarrow> subslice (copy_at buf i src) i n = src"
  by (rule nth_equalityI) (auto simp: nth_subslice nth_copy_at)

lemma subslice_copy_at_other:
  assumes "i + length src \<le> length buf" and "j + n \<le> length buf"
    and "j + n \<le> i \<or> i + length src \<le> j"
  shows "subslice (copy_at buf i src) j n = subslice buf j n"
  using assms by (intro nth_equalityI) (auto simp: nth_subslice nth_copy_at)

lemma find_append_list:
  "find P (xs @ ys) = (case find P xs of None \<Rightarrow> find P ys | Some x \<Rightarrow> Some x)"
  by (induction xs) auto

lemma find_map: "find P (map f xs) = map_option f (find (P \<circ> f) xs)"
  by (induction xs) auto

lemma find_SomeD: "find P xs = Some x \<Longrightarrow> P x \<and> x \<in> set xs"
  by (induction xs) (auto split: if_splits)

lemma upt_shift: "[k..<k + n] = map (\<lambda>i. k + i) [0..<n]"
  by (induction n) auto

lemma upt_add_eq_append': "i \<le> j \<Longrightarrow> j \<le> k \<Longrightarrow> [i..<k] = [i..<j] @ [j..<k]"
  using upt_add_eq_append [of i j "k - j"] by simp

lemma nth_concat_equal:
  "\<forall>xs\<in>set xss. length xs = k \<Longrightarrow> p < length xss * k \<Longrightarrow> concat xss ! p = xss ! (p div k) ! (p mod k)"
proof (induction xss arbitrary: p)
  case (Cons xs xss)
  show ?case
  proof (cases "p < k")
    case False
    moreover from Cons.prems(2) have "0 < k" by (cases k) auto
    ultimately show ?thesis
      using Cons by (simp add: nth_append le_div_geq le_mod_geq)
  qed (use Cons in \<open>simp add: nth_append\<close>)
qed simp

lemma length_concat_equal: "\<forall>xs\<in>set xss. length xs = k \<Longrightarrow> length (concat xss) = length xss * k"
  by (induction xss) auto

text \<open>A scan over blocks of \<open>k\<close> items, sector by sector, is one scan over all items.\<close>

lemma nested_find:
  assumes step: "\<And>s ss. s < m \<Longrightarrow>
      F (s # ss) = (case find (\<lambda>i. P (s * k + i)) [0..<k] of None \<Rightarrow> F ss | Some i \<Rightarrow> G (s * k + i))"
    and "s \<le> m"
  shows "F [s..<m] = (case find P [s * k..<m * k] of None \<Rightarrow> F [] | Some j \<Rightarrow> G j)"
  using assms(2)
proof (induction "m - s" arbitrary: s)
  case (Suc d)
  then have s: "s < m" by simp
  have "s * k + k \<le> m * k" using mult_le_mono1 [of "Suc s" m k] s by simp
  then have split: "[s * k..<m * k] = map (\<lambda>i. s * k + i) [0..<k] @ [Suc s * k..<m * k]"
    using upt_add_eq_append' [of "s * k" "s * k + k" "m * k"] upt_shift [of "s * k" k]
    by (simp add: add.commute)
  have "F [s..<m] = (case find (\<lambda>i. P (s * k + i)) [0..<k] of None \<Rightarrow> F [Suc s..<m] | Some i \<Rightarrow> G (s * k + i))"
    unfolding upt_conv_Cons [OF s] by (rule step [OF s])
  moreover have "F [Suc s..<m] = (case find P [Suc s * k..<m * k] of None \<Rightarrow> F [] | Some j \<Rightarrow> G j)"
    using Suc by (intro Suc.hyps(1)) simp_all
  ultimately show ?case
    unfolding split find_append_list find_map comp_def
    by (cases "find (\<lambda>i. P (s * k + i)) [0..<k]") simp_all
qed simp

lemma subslice_copy_at_within:
  assumes "i + length src \<le> length buf" "j + n \<le> length src"
  shows "subslice (copy_at buf i src) (i + j) n = subslice src j n"
  using assms by (intro nth_equalityI) (auto simp: nth_subslice nth_copy_at)

lemma subslice_cong:
  assumes "i + n \<le> length buf" "i + n \<le> length buf'" "\<And>k. k < n \<Longrightarrow> buf ! (i + k) = buf' ! (i + k)"
  shows "subslice buf i n = subslice buf' i n"
  using assms by (intro nth_equalityI) (auto simp: nth_subslice)

text \<open>Loops\<close>

lemma for_each_append: "for_each f (xs @ ys) s = obind (for_each f xs s) (for_each f ys)"
proof (induction xs arbitrary: s)
  case (Cons x xs)
  show ?case by (cases "f x s") (simp_all add: Cons.IH)
qed simp

text \<open>A loop with an invariant: the body returns at each step and establishes it at the next.\<close>

lemma for_each_upt:
  assumes "m \<le> n" "S m = s" "\<And>i. m \<le> i \<Longrightarrow> i < n \<Longrightarrow> f i (S i) = Ret (S (Suc i))"
  shows "for_each f [m..<n] s = Ret (S n)"
  using assms
proof (induction n)
  case (Suc n)
  show ?case
  proof (cases "m \<le> n")
    case True
    then show ?thesis using Suc by (simp add: for_each_append)
  next
    case False
    then have "m = Suc n" using Suc.prems(1) by simp
    then show ?thesis using Suc.prems(2) by simp
  qed
qed auto

lemma for_each_inv:
  assumes "\<And>x s. x \<in> set xs \<Longrightarrow> P s \<Longrightarrow> \<exists>s'. f x s = Ret s' \<and> P s'" "P s"
  shows "\<exists>s'. for_each f xs s = Ret s' \<and> P s'"
  using assms
proof (induction xs arbitrary: s)
  case (Cons x xs)
  then obtain s' where "f x s = Ret s'" "P s'" by (meson list.set_intros(1))
  then show ?case using Cons by simp
qed simp

end
