(* ===== verification/Ide.thy ===== *)
theory Ide
  imports Prelude
begin

text \<open>
  The ATA PIO driver of \<^verbatim>\<open>src/src/ide.rs\<close>, at two levels. The driver itself is modelled port
  access by port access over an arbitrary device (\<open>port_io\<close>, the \<^verbatim>\<open>x86_64\<close> crate's
  \<^verbatim>\<open>Port\<close> and the hardware behind it); \<open>ata_conforms\<close> names the ATA behaviour it relies on. The file
  system above sees a store of 512-byte sectors (\<open>sector_read\<close>, \<open>sector_write\<close>), and the lemmas here
  show that the driver implements that store on every conforming device.
\<close>

section \<open>Port input and output\<close>

record 'd port_io =
  in8 :: "u16 \<Rightarrow> 'd \<Rightarrow> u8 \<times> 'd"
  in16 :: "u16 \<Rightarrow> 'd \<Rightarrow> u16 \<times> 'd"
  out8 :: "u16 \<Rightarrow> u8 \<Rightarrow> 'd \<Rightarrow> 'd"
  out16 :: "u16 \<Rightarrow> u16 \<Rightarrow> 'd \<Rightarrow> 'd"

section \<open>The driver\<close>

record ata_drive =
  ata_data :: u16
  ata_error :: u16
  ata_sector_count :: u16
  ata_lba_low :: u16
  ata_lba_mid :: u16
  ata_lba_high :: u16
  ata_device :: u16
  ata_command :: u16
  ata_status :: u16

definition ata_new :: ata_drive where
  "ata_new =
     \<lparr>ata_data = 0x1F0, ata_error = 0x1F1, ata_sector_count = 0x1F2, ata_lba_low = 0x1F3,
      ata_lba_mid = 0x1F4, ata_lba_high = 0x1F5, ata_device = 0x1F6, ata_command = 0x1F7,
      ata_status = 0x1F7\<rparr>"

text \<open>\<^verbatim>\<open>while (self.status.read() & m) ... {}\<close>: polls until the status leaves \<open>busy\<close>.\<close>

partial_function (option) spin :: "('d \<Rightarrow> u8 \<times> 'd) \<Rightarrow> (u8 \<Rightarrow> bool) \<Rightarrow> 'd \<Rightarrow> 'd option" where
  "spin rd busy d = (case rd d of (v, d') \<Rightarrow> if busy v then spin rd busy d' else Some d')"

abbreviation bsy :: "u8 \<Rightarrow> bool" where
  "bsy v \<equiv> v AND 0x80 \<noteq> 0"

abbreviation no_drq :: "u8 \<Rightarrow> bool" where
  "no_drq v \<equiv> v AND 0x08 = 0"

text \<open>The five task-file writes and the command write that start a transfer of one sector.\<close>

definition start_transfer :: "'d port_io \<Rightarrow> ata_drive \<Rightarrow> u32 \<Rightarrow> u8 \<Rightarrow> 'd \<Rightarrow> 'd" where
  "start_transfer io drv lba cmd d =
    (let d1 = out8 io (ata_device drv) (0xF0 OR ucast (drop_bit 24 lba AND 0x0F)) d;
         d2 = out8 io (ata_sector_count drv) 1 d1;
         d3 = out8 io (ata_lba_low drv) (ucast lba) d2;
         d4 = out8 io (ata_lba_mid drv) (ucast (drop_bit 8 lba)) d3;
         d5 = out8 io (ata_lba_high drv) (ucast (drop_bit 16 lba)) d4
     in out8 io (ata_command drv) cmd d5)"

fun read_words :: "'d port_io \<Rightarrow> ata_drive \<Rightarrow> nat list \<Rightarrow> u8 list \<Rightarrow> 'd \<Rightarrow> u8 list \<times> 'd" where
  "read_words io drv [] buffer d = (buffer, d)"
| "read_words io drv (i # is) buffer d =
    (case in16 io (ata_data drv) d of
       (w, d') \<Rightarrow> read_words io drv is
                   (buffer[i * 2 := ucast w, i * 2 + 1 := ucast (drop_bit 8 w)]) d')"

definition read_sector :: "'d port_io \<Rightarrow> ata_drive \<Rightarrow> u32 \<Rightarrow> 'd \<Rightarrow> (u8 list \<times> 'd) option" where
  "read_sector io drv lba d =
    Option.bind (spin (in8 io (ata_status drv)) bsy (start_transfer io drv lba 0x20 d)) (\<lambda>d1.
    Option.bind (spin (in8 io (ata_status drv)) no_drq d1) (\<lambda>d2.
    Some (read_words io drv [0..<256] (replicate 512 0) d2)))"

fun write_words :: "'d port_io \<Rightarrow> ata_drive \<Rightarrow> nat list \<Rightarrow> u8 list \<Rightarrow> 'd \<Rightarrow> 'd" where
  "write_words io drv [] bytes d = d"
| "write_words io drv (i # is) bytes d =
    write_words io drv is bytes
      (out16 io (ata_data drv) (push_bit 8 (ucast (bytes ! (i + 1))) OR ucast (bytes ! i)) d)"

definition flush_cache :: "'d port_io \<Rightarrow> ata_drive \<Rightarrow> 'd \<Rightarrow> 'd option" where
  "flush_cache io drv d = spin (in8 io (ata_status drv)) bsy (out8 io (ata_command drv) 0xE7 d)"

definition write_sector_bytes ::
  "'d port_io \<Rightarrow> ata_drive \<Rightarrow> u32 \<Rightarrow> u8 list \<Rightarrow> 'd \<Rightarrow> 'd option" where
  "write_sector_bytes io drv lba bytes d =
    Option.bind (spin (in8 io (ata_status drv)) bsy (start_transfer io drv lba 0x30 d)) (\<lambda>d1.
    Option.bind (spin (in8 io (ata_status drv)) no_drq d1) (\<lambda>d2.
    let d3 = write_words io drv (map (\<lambda>k. 2 * k) [0..<256]) bytes d2;
        d4 = out8 io (ata_command drv) 0xE7 d3
    in spin (in8 io (ata_status drv)) bsy d4))"

text \<open>\<^verbatim>\<open>get_max_lba\<close>: the busy wait with a timeout, then IDENTIFY words 60 and 61.\<close>

function wait_timeout :: "('d \<Rightarrow> u8 \<times> 'd) \<Rightarrow> nat \<Rightarrow> 'd \<Rightarrow> 'd option \<times> 'd" where
  "wait_timeout rd t d =
    (case rd d of (v, d') \<Rightarrow>
       if bsy v then (if t + 1 > 1000000 then (None, d') else wait_timeout rd (t + 1) d')
       else (Some d', d'))"
  by pat_completeness auto
termination
  by (relation "measure (\<lambda>(rd, t, d). 1000001 - t)") auto

fun read_info :: "'d port_io \<Rightarrow> ata_drive \<Rightarrow> nat list \<Rightarrow> u16 list \<Rightarrow> 'd \<Rightarrow> u16 list \<times> 'd" where
  "read_info io drv [] info d = (info, d)"
| "read_info io drv (i # is) info d =
    (case in16 io (ata_data drv) d of (w, d') \<Rightarrow> read_info io drv is (info[i := w]) d')"

definition get_max_lba :: "'d port_io \<Rightarrow> ata_drive \<Rightarrow> 'd \<Rightarrow> (u32 \<times> 'd) option" where
  "get_max_lba io drv d =
    (let d2 = out8 io (ata_command drv) 0xEC (out8 io (ata_device drv) 0xA0 d) in
     case in8 io (ata_status drv) d2 of (status, d3) \<Rightarrow>
     if status = 0 then Some (0, d3)
     else case wait_timeout (in8 io (ata_status drv)) 0 d3 of
       (None, d4) \<Rightarrow> Some (0, d4)
     | (Some d4, _) \<Rightarrow>
         (case in8 io (ata_status drv) d4 of (v, d5) \<Rightarrow>
          if v AND 0x01 \<noteq> 0 then Some (0, d5)
          else Option.bind (spin (in8 io (ata_status drv)) no_drq d5) (\<lambda>d6.
            case read_info io drv [0..<256] (replicate 256 0) d6 of (info, d7) \<Rightarrow>
              Some (push_bit 16 (ucast (info ! 61)) OR ucast (info ! 60), d7))))"

section \<open>What the driver relies on\<close>

text \<open>
  The view of an ATA bus with two drives (\<open>media False\<close> is drive 0, \<open>media True\<close> drive 1): the task
  file, the data phase the drive is in, and the contents of both drives. \<open>wait d\<close> is the number of
  status polls that still report BSY; a command may leave it at any value.
\<close>

datatype phase = Idle | Data_In "u16 list" | Data_Out "bool \<times> nat" "u16 list"

record ata_view =
  r_device :: u8
  r_count :: u8
  r_low :: u8
  r_mid :: u8
  r_high :: u8
  data_phase :: phase
  media :: "bool \<Rightarrow> nat \<Rightarrow> u8 list"

definition lba28 :: "ata_view \<Rightarrow> nat" where
  "lba28 v = unat ((ucast (r_low v) OR push_bit 8 (ucast (r_mid v)) OR push_bit 16 (ucast (r_high v))
                    OR push_bit 24 (ucast (r_device v AND 0x0F))) :: u32)"

definition target :: "ata_view \<Rightarrow> bool \<times> nat" where
  "target v = (bit (r_device v) 4, lba28 v)"

definition sector_words :: "u8 list \<Rightarrow> u16 list" where
  "sector_words bs = map (\<lambda>i. from_le16 (bs ! (2 * i)) (bs ! (2 * i + 1))) [0..<256]"

definition words_sector :: "u16 list \<Rightarrow> u8 list" where
  "words_sector ws = concat (map to_le16 ws)"

definition selects :: "ata_view \<Rightarrow> bool" where
  "selects v \<longleftrightarrow> data_phase v = Idle \<and> r_count v = 1 \<and> bit (r_device v) 6"

definition task_file_ok :: "'d port_io \<Rightarrow> ('d \<Rightarrow> ata_view) \<Rightarrow> bool" where
  "task_file_ok io view \<longleftrightarrow> (\<forall>d v. data_phase (view d) = Idle \<longrightarrow>
      view (out8 io 0x1F6 v d) = (view d)\<lparr>r_device := v\<rparr>
    \<and> view (out8 io 0x1F2 v d) = (view d)\<lparr>r_count := v\<rparr>
    \<and> view (out8 io 0x1F3 v d) = (view d)\<lparr>r_low := v\<rparr>
    \<and> view (out8 io 0x1F4 v d) = (view d)\<lparr>r_mid := v\<rparr>
    \<and> view (out8 io 0x1F5 v d) = (view d)\<lparr>r_high := v\<rparr>)"

definition commands_ok :: "'d port_io \<Rightarrow> ('d \<Rightarrow> ata_view) \<Rightarrow> bool" where
  "commands_ok io view \<longleftrightarrow> (\<forall>d.
      (selects (view d) \<longrightarrow>
         view (out8 io 0x1F7 0x20 d) =
           (view d)\<lparr>data_phase := Data_In (sector_words (case_prod (media (view d)) (target (view d))))\<rparr>
       \<and> view (out8 io 0x1F7 0x30 d) = (view d)\<lparr>data_phase := Data_Out (target (view d)) []\<rparr>)
    \<and> (data_phase (view d) = Idle \<longrightarrow> view (out8 io 0x1F7 0xE7 d) = view d))"

definition status_ok :: "'d port_io \<Rightarrow> ('d \<Rightarrow> ata_view) \<Rightarrow> ('d \<Rightarrow> nat) \<Rightarrow> bool" where
  "status_ok io view wait \<longleftrightarrow> (\<forall>d. case in8 io 0x1F7 d of (v, d') \<Rightarrow>
      view d' = view d \<and> wait d' = wait d - 1 \<and> (bsy v \<longleftrightarrow> 0 < wait d)
    \<and> (wait d = 0 \<longrightarrow> (no_drq v \<longleftrightarrow> data_phase (view d) = Idle)))"

definition data_ok :: "'d port_io \<Rightarrow> ('d \<Rightarrow> ata_view) \<Rightarrow> bool" where
  "data_ok io view \<longleftrightarrow> (\<forall>d.
      (\<forall>w ws. data_phase (view d) = Data_In (w # ws) \<longrightarrow> (case in16 io 0x1F0 d of (x, d') \<Rightarrow>
         x = w \<and> view d' = (view d)\<lparr>data_phase := if ws = [] then Idle else Data_In ws\<rparr>))
    \<and> (\<forall>drv n ws w. data_phase (view d) = Data_Out (drv, n) ws \<longrightarrow>
         view (out16 io 0x1F0 w d) =
           (if length ws = 255
            then (view d)\<lparr>data_phase := Idle,
                   media := (media (view d))(drv := (media (view d) drv)(n := words_sector (ws @ [w])))\<rparr>
            else (view d)\<lparr>data_phase := Data_Out (drv, n) (ws @ [w])\<rparr>)))"

definition ata_conforms :: "'d port_io \<Rightarrow> ('d \<Rightarrow> ata_view) \<Rightarrow> ('d \<Rightarrow> nat) \<Rightarrow> bool" where
  "ata_conforms io view wait \<longleftrightarrow>
     task_file_ok io view \<and> commands_ok io view \<and> status_ok io view wait \<and> data_ok io view"

section \<open>The sector store the file system sees\<close>

type_synonym disk = "nat \<Rightarrow> u8 list"

definition lba_index :: "u32 \<Rightarrow> nat" where
  "lba_index lba = unat lba mod 2 ^ 28"

definition sector_read :: "disk \<Rightarrow> u32 \<Rightarrow> u8 list" where
  "sector_read dk lba = dk (lba_index lba)"

definition sector_write :: "disk \<Rightarrow> u32 \<Rightarrow> u8 list \<Rightarrow> disk" where
  "sector_write dk lba bytes = dk(lba_index lba := bytes)"

definition disk_ok :: "disk \<Rightarrow> bool" where
  "disk_ok dk \<longleftrightarrow> (\<forall>n. length (dk n) = 512)"

section \<open>A device that conforms\<close>

text \<open>
  A drive pair that reports BSY for two polls after every command, with its task file, phase and
  media kept as an \<open>ata_view\<close>: the instance on which the hypotheses are seen to hold.
\<close>

definition ref_out8 :: "u16 \<Rightarrow> u8 \<Rightarrow> ata_view \<times> nat \<Rightarrow> ata_view \<times> nat" where
  "ref_out8 p x s = (case s of (v, n) \<Rightarrow>
     if p = 0x1F6 then (v\<lparr>r_device := x\<rparr>, n)
     else if p = 0x1F2 then (v\<lparr>r_count := x\<rparr>, n)
     else if p = 0x1F3 then (v\<lparr>r_low := x\<rparr>, n)
     else if p = 0x1F4 then (v\<lparr>r_mid := x\<rparr>, n)
     else if p = 0x1F5 then (v\<lparr>r_high := x\<rparr>, n)
     else if p = 0x1F7 \<and> x = 0x20
       then (v\<lparr>data_phase := Data_In (sector_words (case_prod (media v) (target v)))\<rparr>, 2)
     else if p = 0x1F7 \<and> x = 0x30 then (v\<lparr>data_phase := Data_Out (target v) []\<rparr>, 2)
     else (v, 2))"

definition ref_in8 :: "u16 \<Rightarrow> ata_view \<times> nat \<Rightarrow> u8 \<times> (ata_view \<times> nat)" where
  "ref_in8 p s = (case s of (v, n) \<Rightarrow>
     (if 0 < n then 0x80 else if data_phase v = Idle then 0x40 else 0x48, (v, n - 1)))"

definition ref_in16 :: "u16 \<Rightarrow> ata_view \<times> nat \<Rightarrow> u16 \<times> (ata_view \<times> nat)" where
  "ref_in16 p s = (case s of (v, n) \<Rightarrow>
     case data_phase v of
       Data_In (w # ws) \<Rightarrow> (w, (v\<lparr>data_phase := if ws = [] then Idle else Data_In ws\<rparr>, n))
     | _ \<Rightarrow> (0xFFFF, s))"

definition ref_out16 :: "u16 \<Rightarrow> u16 \<Rightarrow> ata_view \<times> nat \<Rightarrow> ata_view \<times> nat" where
  "ref_out16 p w s = (case s of (v, n) \<Rightarrow>
     case data_phase v of
       Data_Out (drv, l) ws \<Rightarrow>
         (if length ws = 255
          then (v\<lparr>data_phase := Idle, media := (media v)(drv := (media v drv)(l := words_sector (ws @ [w])))\<rparr>, n)
          else (v\<lparr>data_phase := Data_Out (drv, l) (ws @ [w])\<rparr>, n))
     | _ \<Rightarrow> s)"

definition ref_io :: "(ata_view \<times> nat) port_io" where
  "ref_io = \<lparr>in8 = ref_in8, in16 = ref_in16, out8 = ref_out8, out16 = ref_out16\<rparr>"

definition ref_start :: "ata_view \<times> nat" where
  "ref_start =
    (\<lparr>r_device = 0, r_count = 0, r_low = 0, r_mid = 0, r_high = 0, data_phase = Idle,
      media = (\<lambda>_ _. replicate 512 0)\<rparr>, 1)"

section \<open>Lemmas\<close>

lemma spin_stops:
  assumes st: "status_ok io view wait"
  shows "\<exists>d'. spin (in8 io 0x1F7) bsy d = Some d' \<and> view d' = view d \<and> wait d' = 0"
proof (induction "wait d" arbitrary: d)
  case 0
  obtain v d' where rd: "in8 io 0x1F7 d = (v, d')" by (cases "in8 io 0x1F7 d")
  have "view d' = view d" "wait d' = wait d - 1" "bsy v \<longleftrightarrow> 0 < wait d"
    using st [unfolded status_ok_def, rule_format, of d] rd by simp_all
  then show ?case using 0 rd by (simp add: spin.simps [of _ _ d])
next
  case (Suc n)
  obtain v d' where rd: "in8 io 0x1F7 d = (v, d')" by (cases "in8 io 0x1F7 d")
  have *: "view d' = view d" "wait d' = wait d - 1" "bsy v \<longleftrightarrow> 0 < wait d"
    using st [unfolded status_ok_def, rule_format, of d] rd by simp_all
  with Suc.hyps(2) have "n = wait d'" by simp
  from Suc.hyps(1) [OF this] * show ?case using Suc.hyps(2) rd
    by (simp add: spin.simps [of _ _ d])
qed

lemma spin_drq:
  assumes st: "status_ok io view wait" and "wait d = 0" and "data_phase (view d) \<noteq> Idle"
  shows "\<exists>d'. spin (in8 io 0x1F7) no_drq d = Some d' \<and> view d' = view d"
proof -
  obtain v d' where rd: "in8 io 0x1F7 d = (v, d')" by (cases "in8 io 0x1F7 d")
  have "view d' = view d" "no_drq v \<longleftrightarrow> data_phase (view d) = Idle"
    using st [unfolded status_ok_def, rule_format, of d] rd assms(2) by simp_all
  then show ?thesis using assms(3) rd by (simp add: spin.simps [of _ _ d])
qed

lemma low_nibble_bits: "((0xF0 :: u8) OR ucast (y AND 0x0F)) AND 0x0F = ucast (take_bit 4 (y :: u32))"
proof -
  have a: "(0x0F :: u8) = mask 4" "(0x0F :: u32) = mask 4" by (simp_all add: mask_eq_exp_minus_1)
  have b: "(0xF0 :: u8) = push_bit 4 (mask 4)" by (simp add: mask_eq_exp_minus_1 push_bit_eq_mult)
  show ?thesis
    unfolding a b by (rule bit_word_eqI) (auto simp: bit_simps)
qed

lemma lba_assemble: "(ucast (ucast lba :: u8) OR push_bit 8 (ucast (ucast (drop_bit 8 lba) :: u8))
     OR push_bit 16 (ucast (ucast (drop_bit 16 lba) :: u8))
     OR push_bit 24 (ucast (ucast (take_bit 4 (drop_bit 24 lba)) :: u8)))
     = take_bit 28 (lba :: u32)" (is "?l = _")
proof (rule bit_word_eqI)
  fix n assume n: "n < LENGTH(32)"
  then consider "n < 8" | "8 \<le> n" "n < 16" | "16 \<le> n" "n < 24" | "24 \<le> n" "n < 28"
      | "28 \<le> n" "n < 32"
      by fastforce
  then show "bit ?l n = bit (take_bit 28 lba) n"
      by cases (simp_all add: bit_simps, auto)
qed

lemma device_bits: "bit ((0xF0 :: u8) OR x) 4" "bit ((0xF0 :: u8) OR x) 6"
  by (simp_all add: bit_simps bit_numeral_rec)

lemma lba28_of_writes:
  assumes "r_device v = 0xF0 OR ucast (drop_bit 24 lba AND 0x0F)" "r_low v = ucast lba"
    "r_mid v = ucast (drop_bit 8 lba)" "r_high v = ucast (drop_bit 16 lba)"
  shows "lba28 v = lba_index lba"
  unfolding lba28_def assms low_nibble_bits lba_assemble
  by (simp add: lba_index_def unsigned_take_bit_eq take_bit_nat_def)

lemma start_transfer_view:
  fixes lba :: u32
  assumes "ata_conforms io view wait" and "data_phase (view d) = Idle"
  obtains d5 where "start_transfer io ata_new lba cmd d = out8 io 0x1F7 cmd d5"
    "media (view d5) = media (view d)" "selects (view d5)"
    "target (view d5) = (True, lba_index lba)"
proof -
  let ?d5 = "out8 io 0x1F5 (ucast (drop_bit 16 lba)) (out8 io 0x1F4 (ucast (drop_bit 8 lba))
     (out8 io 0x1F3 (ucast lba) (out8 io 0x1F2 1 (out8 io 0x1F6
        (0xF0 OR ucast (drop_bit 24 lba AND 0x0F)) d))))"
  have v: "view ?d5 = (view d)\<lparr>r_device := 0xF0 OR ucast (drop_bit 24 lba AND 0x0F), r_count := 1,
     r_low := ucast lba, r_mid := ucast (drop_bit 8 lba), r_high := ucast (drop_bit 16 lba)\<rparr>"
    using assms by (simp add: ata_conforms_def task_file_ok_def)
  have "selects (view ?d5)"
    unfolding v using assms(2) device_bits by (simp add: selects_def)
  moreover have "target (view ?d5) = (True, lba_index lba)"
    using lba28_of_writes [of "view ?d5" lba] device_bits by (simp add: target_def v)
  moreover have "start_transfer io ata_new lba cmd d = out8 io 0x1F7 cmd ?d5"
    by (simp add: start_transfer_def ata_new_def Let_def)
  ultimately show thesis using that [of ?d5] v by simp
qed

lemma length_words_sector [simp]: "length (words_sector ws) = 2 * length ws"
  by (induction ws) (simp_all add: words_sector_def)

lemma words_sector_Nil [simp]: "words_sector [] = []"
  by (simp add: words_sector_def)

lemma words_sector_Cons: "words_sector (w # ws) = ucast w # ucast (drop_bit 8 w) # words_sector ws"
  by (simp add: words_sector_def to_le16_def)

lemma concat_pairs: "concat (map (\<lambda>i. [f (2 * i), f (2 * i + 1)]) [0..<n]) = map f [0..<2 * n]"
  by (induction n) simp_all

lemma words_sector_sector_words [simp]:
  assumes "length bs = 512"
  shows "words_sector (sector_words bs) = bs"
proof -
  have "words_sector (sector_words bs) = concat (map (\<lambda>i. [bs ! (2 * i), bs ! (2 * i + 1)]) [0..<256])"
    by (simp add: words_sector_def sector_words_def comp_def)
  also have "\<dots> = map ((!) bs) [0..<512]"
    using concat_pairs [of "(!) bs" 256] by simp
  finally show ?thesis using assms by (metis map_nth)
qed

lemma length_sector_words [simp]: "length (sector_words bs) = 256"
  by (simp add: sector_words_def)

lemma copy_at_two:
  assumes "i + 1 < length buf"
  shows "copy_at (buf[i := a, i + 1 := b]) (i + 2) src = copy_at buf i (a # b # src)"
proof -
  have "take (i + 2) (buf[i := a, i + 1 := b]) = take i buf @ [a, b]"
    using assms by (auto intro!: nth_equalityI simp: nth_append nth_list_update)
  then show ?thesis by (simp add: copy_at_def)
qed

lemma read_words_view:
  assumes "data_ok io view"
  shows "data_phase (view d) = Data_In ws \<Longrightarrow> ws \<noteq> [] \<Longrightarrow> 2 * (k + length ws) \<le> length buffer \<Longrightarrow>
    \<exists>d'. read_words io ata_new [k..<k + length ws] buffer d =
           (copy_at buffer (2 * k) (words_sector ws), d') \<and> view d' = (view d)\<lparr>data_phase := Idle\<rparr>"
proof (induction ws arbitrary: k buffer d)
  case (Cons w ws)
  obtain x d1 where rd: "in16 io 0x1F0 d = (x, d1)" by (cases "in16 io 0x1F0 d")
  have x: "x = w" and v1: "view d1 = (view d)\<lparr>data_phase := if ws = [] then Idle else Data_In ws\<rparr>"
    using assms [unfolded data_ok_def, rule_format, of d] Cons.prems(1) rd by auto
  let ?buf = "buffer[k * 2 := ucast w, k * 2 + 1 := ucast (drop_bit 8 w)]"
  have step: "read_words io ata_new [k..<k + length (w # ws)] buffer d =
      read_words io ata_new [Suc k..<Suc k + length ws] ?buf d1"
    using rd x by (simp add: upt_conv_Cons ata_new_def del: upt_Suc)
  have copy: "copy_at ?buf (2 * Suc k) (words_sector ws) = copy_at buffer (2 * k) (words_sector (w # ws))"
    using copy_at_two [of "2 * k" buffer "ucast w" "ucast (drop_bit 8 w)"] Cons.prems(3)
    by (simp add: words_sector_Cons mult.commute)
  show ?case
  proof (cases "ws = []")
    case True
    then show ?thesis unfolding step copy [symmetric] using v1 by simp
  next
    case False
    then obtain d' where "read_words io ata_new [Suc k..<Suc k + length ws] ?buf d1 =
        (copy_at ?buf (2 * Suc k) (words_sector ws), d')" "view d' = (view d1)\<lparr>data_phase := Idle\<rparr>"
      using Cons.IH [of d1 "Suc k" ?buf] v1 Cons.prems(3) by auto
    then show ?thesis unfolding step copy [symmetric] using v1 by simp
  qed
qed simp

lemma write_words_view:
  assumes "data_ok io view" and "length bytes = 512"
  shows "data_phase (view d) = Data_Out (drv, n) (take k (sector_words bytes)) \<Longrightarrow> k < 256 \<Longrightarrow>
    view (write_words io ata_new (map (\<lambda>k. 2 * k) [k..<256]) bytes d) =
      (view d)\<lparr>data_phase := Idle, media := (media (view d))(drv := (media (view d) drv)(n := bytes))\<rparr>"
proof (induction "255 - k" arbitrary: k d)
  case 0
  then have k: "k = 255" by simp
  then have "take k (sector_words bytes) @ [sector_words bytes ! 255] = sector_words bytes"
    by (simp flip: take_Suc_conv_app_nth)
  moreover have "sector_words bytes ! 255 = from_le16 (bytes ! 510) (bytes ! 511)"
    by (simp add: sector_words_def)
  ultimately show ?case
    using assms 0 k by (simp add: data_ok_def ata_new_def from_le16_def or.commute fun_upd_def)
next
  case (Suc j)
  let ?w = "from_le16 (bytes ! (2 * k)) (bytes ! (2 * k + 1))"
  let ?d1 = "out16 io 0x1F0 ?w d"
  have "sector_words bytes ! k = ?w"
    using Suc.prems(2) by (simp add: sector_words_def)
  then have "take k (sector_words bytes) @ [?w] = take (Suc k) (sector_words bytes)"
    using Suc.prems(2) by (simp add: take_Suc_conv_app_nth)
  moreover have "k \<noteq> 255" using Suc.hyps(2) by simp
  ultimately have v1: "view ?d1 = (view d)\<lparr>data_phase := Data_Out (drv, n) (take (Suc k) (sector_words bytes))\<rparr>"
    using assms(1) Suc.prems by (simp add: data_ok_def)
  have "view (write_words io ata_new (map (\<lambda>k. 2 * k) [Suc k..<256]) bytes ?d1) =
      (view ?d1)\<lparr>data_phase := Idle, media := (media (view ?d1))(drv := (media (view ?d1) drv)(n := bytes))\<rparr>"
    using Suc.hyps v1 by (intro Suc.hyps(1)) simp_all
  then show ?case
    using v1 Suc.prems(2)
    by (simp add: upt_conv_Cons ata_new_def from_le16_def or.commute)
qed

lemma read_sector_refines:
  assumes "ata_conforms io view wait" and "data_phase (view d) = Idle" and "disk_ok (media (view d) True)"
  obtains d' where "read_sector io ata_new lba d = Some (sector_read (media (view d) True) lba, d')"
    "media (view d') = media (view d)" "data_phase (view d') = Idle"
proof -
  let ?sec = "sector_read (media (view d) True) lba"
  have st: "status_ok io view wait" and dt: "data_ok io view" and cm: "commands_ok io view"
    using assms(1) by (simp_all add: ata_conforms_def)
  obtain d5 where d5: "start_transfer io ata_new lba 0x20 d = out8 io 0x1F7 0x20 d5"
    "media (view d5) = media (view d)" "selects (view d5)" "target (view d5) = (True, lba_index lba)"
    by (rule start_transfer_view [OF assms(1,2)])
  let ?d0 = "out8 io 0x1F7 0x20 d5"
  have v0: "view ?d0 = (view d5)\<lparr>data_phase := Data_In (sector_words ?sec)\<rparr>"
    using cm d5 by (simp add: commands_ok_def sector_read_def)
  obtain d1 where d1: "spin (in8 io 0x1F7) bsy ?d0 = Some d1" "view d1 = view ?d0" "wait d1 = 0"
    using spin_stops [OF st] by blast
  then obtain d2 where d2: "spin (in8 io 0x1F7) no_drq d1 = Some d2" "view d2 = view ?d0"
    using spin_drq [OF st, of d1] v0 by auto
  have sec: "length ?sec = 512" using assms(3) by (simp add: disk_ok_def sector_read_def)
  moreover have "sector_words ?sec \<noteq> []"
    by (metis length_sector_words list.size(3) zero_neq_numeral)
  ultimately obtain d' where "read_words io ata_new [0..<256] (replicate 512 0) d2 =
      (copy_at (replicate 512 0) 0 ?sec, d')" "view d' = (view d2)\<lparr>data_phase := Idle\<rparr>"
    using read_words_view [OF dt, of d2 "sector_words ?sec" 0 "replicate 512 0"] v0 d2(2) by auto
  moreover have "copy_at (replicate 512 0) 0 ?sec = ?sec"
    using sec by (simp add: copy_at_def)
  ultimately show thesis
    using that [of d'] d5 d1 d2 v0 by (simp add: read_sector_def ata_new_def)
qed

lemma write_sector_refines:
  assumes "ata_conforms io view wait" and "data_phase (view d) = Idle" and "length bytes = 512"
  obtains d' where "write_sector_bytes io ata_new lba bytes d = Some d'"
    "media (view d') = (media (view d))(True := sector_write (media (view d) True) lba bytes)"
    "data_phase (view d') = Idle"
proof -
  have st: "status_ok io view wait" and dt: "data_ok io view" and cm: "commands_ok io view"
    using assms(1) by (simp_all add: ata_conforms_def)
  obtain d5 where d5: "start_transfer io ata_new lba 0x30 d = out8 io 0x1F7 0x30 d5"
    "media (view d5) = media (view d)" "selects (view d5)" "target (view d5) = (True, lba_index lba)"
    by (rule start_transfer_view [OF assms(1,2)])
  let ?d0 = "out8 io 0x1F7 0x30 d5"
  have v0: "view ?d0 = (view d5)\<lparr>data_phase := Data_Out (True, lba_index lba) []\<rparr>"
    using cm d5 by (simp add: commands_ok_def)
  obtain d1 where d1: "spin (in8 io 0x1F7) bsy ?d0 = Some d1" "view d1 = view ?d0" "wait d1 = 0"
    using spin_stops [OF st] by blast
  then obtain d2 where d2: "spin (in8 io 0x1F7) no_drq d1 = Some d2" "view d2 = view ?d0"
    using spin_drq [OF st, of d1] v0 by auto
  let ?d3 = "write_words io ata_new (map (\<lambda>k. 2 * k) [0..<256]) bytes d2"
  have v3: "view ?d3 = (view d2)\<lparr>data_phase := Idle, media := (media (view d2))(True :=
      (media (view d2) True)(lba_index lba := bytes))\<rparr>"
    using write_words_view [OF dt assms(3), of d2 True "lba_index lba" 0] v0 d2(2) by simp
  let ?d4 = "out8 io 0x1F7 0xE7 ?d3"
  have v4: "view ?d4 = view ?d3" using cm v3 by (simp add: commands_ok_def)
  obtain d' where d': "spin (in8 io 0x1F7) bsy ?d4 = Some d'" "view d' = view ?d4"
    using spin_stops [OF st, of ?d4] by blast
  then have "write_sector_bytes io ata_new lba bytes d = Some d'"
    using d5 d1 d2 by (simp add: write_sector_bytes_def ata_new_def Let_def)
  then show thesis
    using that [of d'] d' v4 v3 v0 d2 d5 by (simp add: sector_write_def)
qed

lemma ref_conforms: "ata_conforms ref_io fst snd"
proof -
  have "task_file_ok ref_io fst"
    by (auto simp: task_file_ok_def ref_io_def ref_out8_def)
  moreover have "commands_ok ref_io fst"
    by (auto simp: commands_ok_def ref_io_def ref_out8_def)
  moreover have "status_ok ref_io fst snd"
    by (auto simp: status_ok_def ref_io_def ref_in8_def)
  moreover have "data_ok ref_io fst"
    by (auto simp: data_ok_def ref_io_def ref_in16_def ref_out16_def)
  ultimately show ?thesis by (simp add: ata_conforms_def)
qed

section \<open>Properties\<close>

text \<open>
  C8: on every conforming drive that is idle, writing a sector returns, and a later read of any
  sector of drive 1 returns what a store of sectors returns: the written bytes where the two LBAs
  agree on their low 28 bits, the old contents elsewhere; drive 0 is never touched.
\<close>

theorem ata_round_trip:
  assumes "ata_conforms io view wait" and "data_phase (view d) = Idle"
    and "disk_ok (media (view d) True)" and "length bytes = 512"
  shows "\<exists>d1 d2. write_sector_bytes io ata_new lba bytes d = Some d1
    \<and> read_sector io ata_new lba' d1 =
        Some (if lba_index lba' = lba_index lba then bytes else sector_read (media (view d) True) lba', d2)
    \<and> media (view d2) False = media (view d) False"
proof -
  obtain d1 where d1: "write_sector_bytes io ata_new lba bytes d = Some d1"
    "media (view d1) = (media (view d))(True := sector_write (media (view d) True) lba bytes)"
    "data_phase (view d1) = Idle"
    by (rule write_sector_refines [OF assms(1,2,4)])
  have "disk_ok (media (view d1) True)"
    using assms(3,4) d1(2) by (simp add: disk_ok_def sector_write_def)
  then obtain d2 where "read_sector io ata_new lba' d1 = Some (sector_read (media (view d1) True) lba', d2)"
    "media (view d2) = media (view d1)" "data_phase (view d2) = Idle"
    by (rule read_sector_refines [OF assms(1) d1(3)])
  then show ?thesis using d1 by (auto simp: sector_read_def sector_write_def)
qed

theorem ata_round_trip_witness:
  "\<exists>d1 d2. write_sector_bytes ref_io ata_new 5 (replicate 512 7) ref_start = Some d1
    \<and> read_sector ref_io ata_new 5 d1 = Some (replicate 512 7, d2)"
proof -
  have "data_phase (fst ref_start) = Idle" "disk_ok (media (fst ref_start) True)"
    by (simp_all add: ref_start_def disk_ok_def)
  then show ?thesis
    using ata_round_trip [OF ref_conforms, of ref_start "replicate 512 7" 5 5] by auto
qed

end
