(* ===== verification/Fat16.thy ===== *)
theory Fat16
  imports Ide
begin

text \<open>
  The FAT16 file system of \<^verbatim>\<open>src/src/fat16.rs\<close>: every function of the file, in its order. The BPB and
  the directory entries are the packed structs, read from and written to sector buffers byte by
  byte; the drive is the sector store of \<open>Ide\<close> (the \<^verbatim>\<open>IDE\<close> mutex is uncontended: the
  kernel runs its tasks cooperatively on one core, and no file system function awaits).
  Arithmetic that can overflow for some field values is checked, as in the \<^verbatim>\<open>dev\<close> profile; 32-bit sums
  that cannot overflow for any field values are plain.
\<close>

section \<open>On-disk structures\<close>

record bpb =
  jump :: "u8 list"
  oem_name :: "u8 list"
  bytes_per_sector :: u16
  sectors_per_cluster :: u8
  reserved_sectors :: u16
  fat_count :: u8
  root_entries :: u16
  total_sectors_16 :: u16
  media_type :: u8
  sectors_per_fat :: u16

record directory_entry =
  filename :: "u8 list"
  extension :: "u8 list"
  attributes :: u8
  reserved :: u8
  creation_time_ms :: u8
  creation_time :: u16
  creation_date :: u16
  last_access_date :: u16
  cluster_high :: u16
  modified_time :: u16
  modified_date :: u16
  cluster_low :: u16
  file_size :: u32

text \<open>\<^verbatim>\<open>core::ptr::read(buffer.as_ptr() as *const Bpb)\<close> on the packed struct.\<close>

definition read_bpb :: "u8 list \<Rightarrow> bpb" where
  "read_bpb buf =
    \<lparr>jump = subslice buf 0 3, oem_name = subslice buf 3 8, bytes_per_sector = le16_at buf 11,
     sectors_per_cluster = buf ! 13, reserved_sectors = le16_at buf 14, fat_count = buf ! 16,
     root_entries = le16_at buf 17, total_sectors_16 = le16_at buf 19, media_type = buf ! 21,
     sectors_per_fat = le16_at buf 22\<rparr>"

text \<open>\<^verbatim>\<open>core::ptr::read(buffer[offset..].as_ptr() as *const DirectoryEntry)\<close>.\<close>

definition read_entry :: "u8 list \<Rightarrow> nat \<Rightarrow> directory_entry" where
  "read_entry buf off =
    \<lparr>filename = subslice buf off 8, extension = subslice buf (off + 8) 3,
     attributes = buf ! (off + 11), reserved = buf ! (off + 12), creation_time_ms = buf ! (off + 13),
     creation_time = le16_at buf (off + 14), creation_date = le16_at buf (off + 16),
     last_access_date = le16_at buf (off + 18), cluster_high = le16_at buf (off + 20),
     modified_time = le16_at buf (off + 22), modified_date = le16_at buf (off + 24),
     cluster_low = le16_at buf (off + 26), file_size = le32_at buf (off + 28)\<rparr>"

text \<open>The 32 bytes of a \<^verbatim>\<open>DirectoryEntry\<close>, as \<^verbatim>\<open>transmute\<close> and \<^verbatim>\<open>ptr::write\<close> lay them out.\<close>

definition entry_bytes :: "directory_entry \<Rightarrow> u8 list" where
  "entry_bytes e =
     filename e @ extension e @ [attributes e, reserved e, creation_time_ms e]
     @ to_le16 (creation_time e) @ to_le16 (creation_date e) @ to_le16 (last_access_date e)
     @ to_le16 (cluster_high e) @ to_le16 (modified_time e) @ to_le16 (modified_date e)
     @ to_le16 (cluster_low e) @ to_le32 (file_size e)"

section \<open>Mounting\<close>

text \<open>\<^verbatim>\<open>fat16::init\<close>: the new value of \<^verbatim>\<open>FS\<close> and the line it prints.\<close>

definition fat16_init :: "disk \<Rightarrow> bpb option \<Rightarrow> bpb option \<times> string" where
  "fat16_init dk fs =
    (let b = read_bpb (sector_read dk 0) in
     if bytes_per_sector b \<noteq> 512
     then (fs, ''[FS] Error: Invalid BPB found. Disk might not be FAT16 or has an MBR.'')
     else (Some b, ''[FS] FAT16 Initialized. Sectors per cluster: ''
                     @ nat_str (unat (sectors_per_cluster b))))"

section \<open>The file allocation table\<close>

definition cluster_to_lba :: "bpb \<Rightarrow> u16 \<Rightarrow> u32 outcome" where
  "cluster_to_lba b cluster =
    obind (checked_mul (root_entries b) 32) (\<lambda>x.
    obind (checked_sub (bytes_per_sector b) 1) (\<lambda>y.
    obind (checked_add x y) (\<lambda>z.
    obind (checked_div z (bytes_per_sector b)) (\<lambda>root_dir_sectors.
    let first_data_sector = ucast (reserved_sectors b)
          + ucast (fat_count b) * ucast (sectors_per_fat b) + ucast root_dir_sectors
    in obind (checked_sub (ucast cluster) 2) (\<lambda>k.
         Ret (first_data_sector + k * ucast (sectors_per_cluster b)))))))"

definition get_fat_entry :: "bpb \<Rightarrow> disk \<Rightarrow> u16 \<Rightarrow> u16" where
  "get_fat_entry b dk cluster =
    (let fat_offset = ucast cluster * 2 :: u32;
         fat_sector = ucast (reserved_sectors b) + fat_offset div 512;
         ent_offset = unat (fat_offset mod 512);
         buffer = sector_read dk fat_sector
     in from_le16 (buffer ! ent_offset) (buffer ! (ent_offset + 1)))"

fun find_free_from :: "bpb \<Rightarrow> disk \<Rightarrow> nat list \<Rightarrow> u16 option outcome" where
  "find_free_from b dk [] = Ret None"
| "find_free_from b dk (s # ss) =
    (let buffer = sector_read dk (ucast (reserved_sectors b) + of_nat s) in
     case find (\<lambda>i. from_le16 (buffer ! i) (buffer ! (i + 1)) = 0) (map (\<lambda>k. 2 * k) [0..<256]) of
       Some i \<Rightarrow> obind (checked_mul (of_nat s) 256) (\<lambda>x.
                 obind (checked_add x (of_nat i div 2)) (\<lambda>c. Ret (Some c)))
     | None \<Rightarrow> find_free_from b dk ss)"

definition find_free_cluster :: "bpb \<Rightarrow> disk \<Rightarrow> u16 option outcome" where
  "find_free_cluster b dk = find_free_from b dk [0..<unat (sectors_per_fat b)]"

definition set_fat_entry :: "bpb \<Rightarrow> u16 \<Rightarrow> u16 \<Rightarrow> disk \<Rightarrow> disk" where
  "set_fat_entry b cluster next_cluster dk =
    (let fat_offset = ucast cluster * 2 :: u32;
         fat_sector_lba = ucast (reserved_sectors b) + fat_offset div 512;
         byte_offset = unat (fat_offset mod 512);
         buffer = sector_read dk fat_sector_lba;
         next_bytes = to_le16 next_cluster
     in sector_write dk fat_sector_lba
          (buffer[byte_offset := next_bytes ! 0, byte_offset + 1 := next_bytes ! 1]))"

section \<open>Reading files\<close>

fun read_sectors :: "disk \<Rightarrow> u32 \<Rightarrow> nat list \<Rightarrow> u8 list \<Rightarrow> u32 \<Rightarrow> (u8 list \<times> u32) outcome" where
  "read_sectors dk lba [] file_data bytes_remaining = Ret (file_data, bytes_remaining)"
| "read_sectors dk lba (i # is) file_data bytes_remaining =
    (let sector_data = sector_read dk (lba + of_nat i);
         to_copy = min (unat bytes_remaining) 512;
         file_data' = file_data @ take to_copy sector_data
     in obind (checked_sub bytes_remaining (of_nat to_copy)) (\<lambda>rem.
          if rem = 0 then Ret (file_data', rem) else read_sectors dk lba is file_data' rem))"

fun read_clusters :: "nat \<Rightarrow> bpb \<Rightarrow> disk \<Rightarrow> u16 \<Rightarrow> u8 list \<Rightarrow> u32 \<Rightarrow> u8 list outcome" where
  "read_clusters 0 b dk current_cluster file_data bytes_remaining = Hang"
| "read_clusters (Suc n) b dk current_cluster file_data bytes_remaining =
    (if current_cluster < 0xFFF8 then
       obind (cluster_to_lba b current_cluster) (\<lambda>lba.
       obind (read_sectors dk lba [0..<unat (sectors_per_cluster b)] file_data bytes_remaining)
         (\<lambda>(file_data', rem).
            if rem = 0 then Ret file_data'
            else read_clusters n b dk (get_fat_entry b dk current_cluster) file_data' rem))
     else Ret file_data)"

text \<open>
  Each round that copies anything copies at least one sector or finishes; a round that copies nothing
  (no sectors per cluster) only follows the chain, which repeats after 65536 rounds if it has not ended.
\<close>

definition read_file :: "bpb \<Rightarrow> disk \<Rightarrow> directory_entry \<Rightarrow> u8 list outcome" where
  "read_file b dk entry =
     read_clusters (65538 + unat (file_size entry) div 512) b dk (cluster_low entry) [] (file_size entry)"

section \<open>The root directory\<close>

definition root_dir_start :: "bpb \<Rightarrow> u32" where
  "root_dir_start b = ucast (reserved_sectors b) + ucast (fat_count b) * ucast (sectors_per_fat b)"

definition root_dir_sectors :: "bpb \<Rightarrow> u16 outcome" where
  "root_dir_sectors b =
    obind (checked_mul (root_entries b) 32) (\<lambda>x. obind (checked_add x 511) (\<lambda>y. Ret (y div 512)))"

fun find_slot_from :: "disk \<Rightarrow> u32 \<Rightarrow> nat list \<Rightarrow> (u32 \<times> nat) option" where
  "find_slot_from dk start [] = None"
| "find_slot_from dk start (sector_offset # ss) =
    (let lba = start + of_nat sector_offset; buffer = sector_read dk lba in
     case find (\<lambda>offset. buffer ! offset = 0x00 \<or> buffer ! offset = 0xE5) (map (\<lambda>i. i * 32) [0..<16]) of
       Some offset \<Rightarrow> Some (lba, offset)
     | None \<Rightarrow> find_slot_from dk start ss)"

definition find_empty_root_slot :: "bpb \<Rightarrow> disk \<Rightarrow> (u32 \<times> nat) option outcome" where
  "find_empty_root_slot b dk =
     obind (root_dir_sectors b) (\<lambda>n. Ret (find_slot_from dk (root_dir_start b) [0..<unat n]))"

text \<open>The scan of one directory sector: it ends the search, finds a slot, or moves on.\<close>

datatype scan = Stop | Found nat | Next

fun scan_sector :: "u8 list \<Rightarrow> u8 list \<Rightarrow> u8 list \<Rightarrow> nat list \<Rightarrow> scan" where
  "scan_sector buffer name ext [] = Next"
| "scan_sector buffer name ext (i # is) =
    (let offset = i * 32; first_byte = buffer ! offset in
     if first_byte = 0x00 then Stop
     else if first_byte = 0xE5 then scan_sector buffer name ext is
     else if subslice buffer offset 8 = name \<and> subslice buffer (offset + 8) 3 = ext then Found offset
     else scan_sector buffer name ext is)"

fun find_location_from ::
  "disk \<Rightarrow> u32 \<Rightarrow> u8 list \<Rightarrow> u8 list \<Rightarrow> nat list \<Rightarrow> (u32 \<times> nat \<times> directory_entry) option" where
  "find_location_from dk start name ext [] = None"
| "find_location_from dk start name ext (sector_offset # ss) =
    (let lba = start + of_nat sector_offset; buffer = sector_read dk lba in
     case scan_sector buffer name ext [0..<16] of
       Stop \<Rightarrow> None
     | Found offset \<Rightarrow> Some (lba, offset, read_entry buffer offset)
     | Next \<Rightarrow> find_location_from dk start name ext ss)"

definition find_file_location ::
  "bpb \<Rightarrow> disk \<Rightarrow> u8 list \<Rightarrow> u8 list \<Rightarrow> (u32 \<times> nat \<times> directory_entry) option outcome" where
  "find_file_location b dk name ext =
     obind (root_dir_sectors b) (\<lambda>n. Ret (find_location_from dk (root_dir_start b) name ext [0..<unat n]))"

fun find_file_from :: "disk \<Rightarrow> u32 \<Rightarrow> u8 list \<Rightarrow> u8 list \<Rightarrow> nat list \<Rightarrow> directory_entry option" where
  "find_file_from dk start name ext [] = None"
| "find_file_from dk start name ext (sector_offset # ss) =
    (let buffer = sector_read dk (start + of_nat sector_offset) in
     case scan_sector buffer name ext [0..<16] of
       Stop \<Rightarrow> None
     | Found offset \<Rightarrow> Some (read_entry buffer offset)
     | Next \<Rightarrow> find_file_from dk start name ext ss)"

definition find_file :: "bpb \<Rightarrow> disk \<Rightarrow> u8 list \<Rightarrow> u8 list \<Rightarrow> directory_entry option outcome" where
  "find_file b dk name ext =
     obind (root_dir_sectors b) (\<lambda>n. Ret (find_file_from dk (root_dir_start b) name ext [0..<unat n]))"

section \<open>Writing files\<close>

fun write_sectors :: "u32 \<Rightarrow> u8 list \<Rightarrow> nat list \<Rightarrow> disk \<Rightarrow> disk" where
  "write_sectors cluster_lba chunk [] dk = dk"
| "write_sectors cluster_lba chunk (sector_idx # is) dk =
    (let sector_start = sector_idx * 512 in
     if sector_start \<ge> length chunk then dk
     else let copy_len = min 512 (length chunk - sector_start);
              buffer = copy_at (replicate 512 0) 0 (subslice chunk sector_start copy_len)
          in write_sectors cluster_lba chunk is
               (sector_write dk (cluster_lba + of_nat sector_idx) buffer))"

text \<open>
  The allocation loop of \<^verbatim>\<open>write_new_file\<close> and \<^verbatim>\<open>overwrite_file\<close> (the two copies are the same text).
  Every round but the last takes one of at most 65536 free FAT entries, so 65537 rounds are enough.
\<close>

fun write_chain ::
  "nat \<Rightarrow> bpb \<Rightarrow> u8 list \<Rightarrow> nat \<Rightarrow> u16 option \<Rightarrow> u16 \<Rightarrow> disk \<Rightarrow> ((string + u16) \<times> disk) outcome" where
  "write_chain 0 b data bytes_written previous_cluster first_cluster dk = Hang"
| "write_chain (Suc n) b data bytes_written previous_cluster first_cluster dk =
    (if bytes_written < length data \<or> data = [] then
       obind (find_free_cluster b dk) (\<lambda>free.
       case free of
         None \<Rightarrow> Ret (Inl ''Disk full'', dk)
       | Some current_cluster \<Rightarrow>
           let dk1 = set_fat_entry b current_cluster 0xFFFF dk;
               (first_cluster', dk2) =
                 (case previous_cluster of
                    None \<Rightarrow> (current_cluster, dk1)
                  | Some p \<Rightarrow> (first_cluster, set_fat_entry b p current_cluster dk1))
           in obind (cluster_to_lba b current_cluster) (\<lambda>cluster_lba.
              let chunk_size = min (length data - bytes_written) (unat (sectors_per_cluster b) * 512);
                  chunk = subslice data bytes_written chunk_size;
                  dk3 = write_sectors cluster_lba chunk [0..<unat (sectors_per_cluster b)] dk2
              in if data = [] then Ret (Inr first_cluster', dk3)
                 else write_chain n b data (bytes_written + chunk_size) (Some current_cluster)
                        first_cluster' dk3))
     else Ret (Inr first_cluster, dk))"

definition new_entry :: "u8 list \<Rightarrow> u8 list \<Rightarrow> u16 \<Rightarrow> nat \<Rightarrow> directory_entry" where
  "new_entry name ext first_cluster len =
    \<lparr>filename = name, extension = ext, attributes = 0x20, reserved = 0, creation_time_ms = 0,
     creation_time = 0, creation_date = 0, last_access_date = 0, cluster_high = 0,
     modified_time = 0, modified_date = 0, cluster_low = first_cluster, file_size = of_nat len\<rparr>"

definition put_entry :: "u32 \<Rightarrow> nat \<Rightarrow> directory_entry \<Rightarrow> disk \<Rightarrow> disk" where
  "put_entry dir_lba dir_offset entry dk =
     sector_write dk dir_lba (copy_at (sector_read dk dir_lba) dir_offset (entry_bytes entry))"

definition write_new_file ::
  "bpb \<Rightarrow> u8 list \<Rightarrow> u8 list \<Rightarrow> u8 list \<Rightarrow> disk \<Rightarrow> ((string + unit) \<times> disk) outcome" where
  "write_new_file b name ext data dk =
    obind (find_empty_root_slot b dk) (\<lambda>slot.
    case slot of
      None \<Rightarrow> Ret (Inl ''Root directory full'', dk)
    | Some (dir_lba, dir_offset) \<Rightarrow>
        obind (write_chain 65537 b data 0 None 0 dk) (\<lambda>(r, dk1).
        case r of
          Inl e \<Rightarrow> Ret (Inl e, dk1)
        | Inr first_cluster \<Rightarrow>
            Ret (Inr (), put_entry dir_lba dir_offset (new_entry name ext first_cluster (length data)) dk1)))"

section \<open>Formatting\<close>

definition boot_sector :: "u8 list" where
  "boot_sector =
    (let s0 = copy_at (replicate 512 0) 0 [0xEB, 0x3C, 0x90];
         s1 = copy_at s0 3 (map of_char ''myOS    '');
         s2 = copy_at s1 11 (to_le16 512);
         s3 = s2[13 := 4];
         s4 = copy_at s3 14 (to_le16 1);
         s5 = s4[16 := 2];
         s6 = copy_at s5 17 (to_le16 512);
         s7 = copy_at s6 19 (to_le16 65535);
         s8 = s7[21 := 0xF8];
         s9 = copy_at s8 22 (to_le16 64)
     in s9[510 := 0x55, 511 := 0xAA])"

definition fat_sector :: "nat \<Rightarrow> u8 list" where
  "fat_sector offset =
    (if offset = 0 then (replicate 512 0)[0 := 0xF8, 1 := 0xFF, 2 := 0xFF, 3 := 0xFF]
     else replicate 512 0)"

definition format_fats :: "disk \<Rightarrow> disk" where
  "format_fats dk =
     fold (\<lambda>fat_idx dk1. fold (\<lambda>offset dk2.
        sector_write dk2 (1 + of_nat fat_idx * 64 + of_nat offset) (fat_sector offset)) [0..<64] dk1)
      [0..<2] dk"

definition format_root :: "disk \<Rightarrow> disk" where
  "format_root dk =
     fold (\<lambda>offset dk1. sector_write dk1 (129 + of_nat offset) (replicate 512 0)) [0..<32] dk"

text \<open>
  The result, the line it prints, and the disk. The flush command at the end has no effect on the sectors:
  every \<^verbatim>\<open>write_sector_bytes\<close> has already flushed.
\<close>

definition format_drive :: "disk \<Rightarrow> (string + unit) \<times> string \<times> disk" where
  "format_drive dk =
     (Inr (), ''Formatted drive!'', format_root (format_fats (sector_write dk 0 boot_sector)))"

section \<open>Overwriting\<close>

text \<open>
  \<^verbatim>\<open>free_cluster_chain\<close> over any table: every round but the last clears an entry that was not clear,
  so 65537 rounds are enough.
\<close>

fun free_walk ::
  "('d \<Rightarrow> u16 \<Rightarrow> u16) \<Rightarrow> (u16 \<Rightarrow> u16 \<Rightarrow> 'd \<Rightarrow> 'd) \<Rightarrow> nat \<Rightarrow> u16 \<Rightarrow> 'd \<Rightarrow> 'd outcome" where
  "free_walk get put 0 current d = Hang"
| "free_walk get put (Suc n) current d =
    (if 2 \<le> current \<and> current < 0xFFF8
     then free_walk get put n (get d current) (put current 0 d)
     else Ret d)"

definition free_cluster_chain :: "bpb \<Rightarrow> u16 \<Rightarrow> disk \<Rightarrow> disk outcome" where
  "free_cluster_chain b start_cluster dk =
     free_walk (get_fat_entry b) (set_fat_entry b) 65537 start_cluster dk"

definition overwrite_file ::
  "bpb \<Rightarrow> u8 list \<Rightarrow> u8 list \<Rightarrow> u8 list \<Rightarrow> disk \<Rightarrow> ((string + unit) \<times> disk) outcome" where
  "overwrite_file b name ext new_data dk =
    obind (find_file_location b dk name ext) (\<lambda>loc.
    case loc of
      None \<Rightarrow> Ret (Inl ''File not found'', dk)
    | Some (dir_lba, dir_offset, entry) \<Rightarrow>
        obind (if cluster_low entry \<ge> 2 then free_cluster_chain b (cluster_low entry) dk else Ret dk)
          (\<lambda>dk0.
        obind (write_chain 65537 b new_data 0 None 0 dk0) (\<lambda>(r, dk1).
        case r of
          Inl e \<Rightarrow> Ret (Inl e, dk1)
        | Inr first_cluster \<Rightarrow>
            Ret (Inr (), put_entry dir_lba dir_offset
                   (entry\<lparr>cluster_low := first_cluster, file_size := of_nat (length new_data)\<rparr>) dk1))))"

end
