(* ===== verification/Fat16_Drive.thy ===== *)
theory Fat16_Drive
  imports Fat16
begin

text \<open>
  The file system on the drive. \<open>Fat16\<close> reads and writes a store of sectors; here its functions are programs that ask
  the driver for one sector at a time, in the order of \<^verbatim>\<open>fat16.rs\<close>. A program can be run on the store
  of sectors and on a device behind the ports of \<^verbatim>\<open>ide.rs\<close>; \<open>Drive_Laws\<close> compares the runs.
\<close>

section \<open>Programs on a drive\<close>

text \<open>The locks are spin locks: asking for one that is held waits for ever, since one task runs at a time.\<close>

datatype lock = IDE_Lock | FS_Lock

datatype 'a drive_prog =
    Give 'a
  | Abort panic
  | Spin
  | Acquire lock "'a drive_prog"
  | Release lock "'a drive_prog"
  | Read_Sector u32 "u8 list \<Rightarrow> 'a drive_prog"
  | Write_Sector u32 "u8 list" "'a drive_prog"
  | Start_Flush "'a drive_prog"

primrec dbind :: "'a drive_prog \<Rightarrow> ('a \<Rightarrow> 'b drive_prog) \<Rightarrow> 'b drive_prog" where
  "dbind (Give x) f = f x"
| "dbind (Abort p) f = Abort p"
| "dbind Spin f = Spin"
| "dbind (Acquire l p) f = Acquire l (dbind p f)"
| "dbind (Release l p) f = Release l (dbind p f)"
| "dbind (Read_Sector lba k) f = Read_Sector lba (\<lambda>buffer. dbind (k buffer) f)"
| "dbind (Write_Sector lba bytes p) f = Write_Sector lba bytes (dbind p f)"
| "dbind (Start_Flush p) f = Start_Flush (dbind p f)"

definition computed :: "'a outcome \<Rightarrow> 'a drive_prog" where
  "computed m = (case m of Ret x \<Rightarrow> Give x | Panic p \<Rightarrow> Abort p | Hang \<Rightarrow> Spin)"

text \<open>A guard that lives until the end of its block.\<close>

definition locked :: "lock \<Rightarrow> 'a drive_prog \<Rightarrow> 'a drive_prog" where
  "locked l p = Acquire l (dbind p (\<lambda>x. Release l (Give x)))"

primrec on_store :: "'a drive_prog \<Rightarrow> lock set \<Rightarrow> disk \<Rightarrow> ('a \<times> lock set \<times> disk) outcome" where
  "on_store (Give x) held dk = Ret (x, held, dk)"
| "on_store (Abort p) held dk = Panic p"
| "on_store Spin held dk = Hang"
| "on_store (Acquire l p) held dk = (if l \<in> held then Hang else on_store p (insert l held) dk)"
| "on_store (Release l p) held dk = on_store p (held - {l}) dk"
| "on_store (Read_Sector lba k) held dk = on_store (k (sector_read dk lba)) held dk"
| "on_store (Write_Sector lba bytes p) held dk = on_store p held (sector_write dk lba bytes)"
| "on_store (Start_Flush p) held dk = on_store p held dk"

text \<open>On the device: a driver that waits for ever is a program that does.\<close>

primrec on_device :: "'d port_io \<Rightarrow> 'a drive_prog \<Rightarrow> lock set \<Rightarrow> 'd \<Rightarrow> ('a \<times> lock set \<times> 'd) outcome" where
  "on_device io (Give x) held d = Ret (x, held, d)"
| "on_device io (Abort p) held d = Panic p"
| "on_device io Spin held d = Hang"
| "on_device io (Acquire l p) held d = (if l \<in> held then Hang else on_device io p (insert l held) d)"
| "on_device io (Release l p) held d = on_device io p (held - {l}) d"
| "on_device io (Read_Sector lba k) held d = (case read_sector io ata_new lba d of
     None \<Rightarrow> Hang | Some (buffer, d') \<Rightarrow> on_device io (k buffer) held d')"
| "on_device io (Write_Sector lba bytes p) held d = (case write_sector_bytes io ata_new lba bytes d of
     None \<Rightarrow> Hang | Some d' \<Rightarrow> on_device io p held d')"
| "on_device io (Start_Flush p) held d = on_device io p held (out8 io (ata_command ata_new) 0xE7 d)"

section \<open>The functions of \<^verbatim>\<open>fat16.rs\<close>\<close>

definition d_init :: "bpb option \<Rightarrow> (bpb option \<times> string) drive_prog" where
  "d_init fs = locked IDE_Lock (Read_Sector 0 (\<lambda>buffer. let b = read_bpb buffer in
     if bytes_per_sector b \<noteq> 512
     then Give (fs, ''[FS] Error: Invalid BPB found. Disk might not be FAT16 or has an MBR.'')
     else locked FS_Lock (Give (Some b, ''[FS] FAT16 Initialized. Sectors per cluster: '' @ nat_str (unat (sectors_per_cluster b))))))"

definition d_get_fat_entry :: "bpb \<Rightarrow> u16 \<Rightarrow> u16 drive_prog" where
  "d_get_fat_entry b cluster =
    (let fat_offset = ucast cluster * 2 :: u32;
         fat_sector = ucast (reserved_sectors b) + fat_offset div 512;
         ent_offset = unat (fat_offset mod 512)
     in dbind (locked IDE_Lock (Read_Sector fat_sector Give)) (\<lambda>buffer.
          Give (from_le16 (buffer ! ent_offset) (buffer ! (ent_offset + 1)))))"

fun d_find_free_from :: "bpb \<Rightarrow> nat list \<Rightarrow> u16 option drive_prog" where
  "d_find_free_from b [] = Give None"
| "d_find_free_from b (s # ss) = Read_Sector (ucast (reserved_sectors b) + of_nat s) (\<lambda>buffer.
     case find (\<lambda>i. from_le16 (buffer ! i) (buffer ! (i + 1)) = 0) (map (\<lambda>k. 2 * k) [0..<256]) of
       Some i \<Rightarrow> computed (obind (checked_mul (of_nat s) 256) (\<lambda>x.
                 obind (checked_add x (of_nat i div 2)) (\<lambda>c. Ret (Some c))))
     | None \<Rightarrow> d_find_free_from b ss)"

definition d_find_free_cluster :: "bpb \<Rightarrow> u16 option drive_prog" where
  "d_find_free_cluster b = locked IDE_Lock (d_find_free_from b [0..<unat (sectors_per_fat b)])"

definition d_set_fat_entry :: "bpb \<Rightarrow> u16 \<Rightarrow> u16 \<Rightarrow> unit drive_prog" where
  "d_set_fat_entry b cluster next_cluster =
    (let fat_offset = ucast cluster * 2 :: u32;
         fat_sector_lba = ucast (reserved_sectors b) + fat_offset div 512;
         byte_offset = unat (fat_offset mod 512);
         next_bytes = to_le16 next_cluster
     in locked IDE_Lock (Read_Sector fat_sector_lba (\<lambda>buffer. Write_Sector fat_sector_lba
          (buffer[byte_offset := next_bytes ! 0, byte_offset + 1 := next_bytes ! 1]) (Give ()))))"

fun d_read_sectors :: "u32 \<Rightarrow> nat list \<Rightarrow> u8 list \<Rightarrow> u32 \<Rightarrow> (u8 list \<times> u32) drive_prog" where
  "d_read_sectors lba [] file_data bytes_remaining = Give (file_data, bytes_remaining)"
| "d_read_sectors lba (i # is) file_data bytes_remaining = dbind (locked IDE_Lock (Read_Sector (lba + of_nat i) Give)) (\<lambda>sector_data.
     let to_copy = min (unat bytes_remaining) 512;
         file_data' = file_data @ take to_copy sector_data
     in dbind (computed (checked_sub bytes_remaining (of_nat to_copy))) (\<lambda>rem.
          if rem = 0 then Give (file_data', rem) else d_read_sectors lba is file_data' rem))"

fun d_read_clusters :: "nat \<Rightarrow> bpb \<Rightarrow> u16 \<Rightarrow> u8 list \<Rightarrow> u32 \<Rightarrow> u8 list drive_prog" where
  "d_read_clusters 0 b current_cluster file_data bytes_remaining = Spin"
| "d_read_clusters (Suc n) b current_cluster file_data bytes_remaining =
    (if current_cluster < 0xFFF8 then
       dbind (computed (cluster_to_lba b current_cluster)) (\<lambda>lba.
       dbind (d_read_sectors lba [0..<unat (sectors_per_cluster b)] file_data bytes_remaining) (\<lambda>(file_data', rem).
         if rem = 0 then Give file_data'
         else dbind (d_get_fat_entry b current_cluster) (\<lambda>next. d_read_clusters n b next file_data' rem)))
     else Give file_data)"

definition d_read_file :: "bpb \<Rightarrow> directory_entry \<Rightarrow> u8 list drive_prog" where
  "d_read_file b entry = d_read_clusters (65538 + unat (file_size entry) div 512) b (cluster_low entry) [] (file_size entry)"

fun d_find_slot_from :: "u32 \<Rightarrow> nat list \<Rightarrow> (u32 \<times> nat) option drive_prog" where
  "d_find_slot_from start [] = Give None"
| "d_find_slot_from start (sector_offset # ss) = (let lba = start + of_nat sector_offset in Read_Sector lba (\<lambda>buffer.
     case find (\<lambda>offset. buffer ! offset = 0x00 \<or> buffer ! offset = 0xE5) (map (\<lambda>i. i * 32) [0..<16]) of
       Some offset \<Rightarrow> Give (Some (lba, offset))
     | None \<Rightarrow> d_find_slot_from start ss))"

definition d_find_empty_root_slot :: "bpb \<Rightarrow> (u32 \<times> nat) option drive_prog" where
  "d_find_empty_root_slot b = dbind (computed (root_dir_sectors b)) (\<lambda>n. locked IDE_Lock (d_find_slot_from (root_dir_start b) [0..<unat n]))"

fun d_find_location_from :: "u32 \<Rightarrow> u8 list \<Rightarrow> u8 list \<Rightarrow> nat list \<Rightarrow> (u32 \<times> nat \<times> directory_entry) option drive_prog" where
  "d_find_location_from start name ext [] = Give None"
| "d_find_location_from start name ext (sector_offset # ss) = (let lba = start + of_nat sector_offset in Read_Sector lba (\<lambda>buffer.
     case scan_sector buffer name ext [0..<16] of
       Stop \<Rightarrow> Give None
     | Found offset \<Rightarrow> Give (Some (lba, offset, read_entry buffer offset))
     | Next \<Rightarrow> d_find_location_from start name ext ss))"

definition d_find_file_location :: "bpb \<Rightarrow> u8 list \<Rightarrow> u8 list \<Rightarrow> (u32 \<times> nat \<times> directory_entry) option drive_prog" where
  "d_find_file_location b name ext =
     dbind (computed (root_dir_sectors b)) (\<lambda>n. locked IDE_Lock (d_find_location_from (root_dir_start b) name ext [0..<unat n]))"

fun d_find_file_from :: "u32 \<Rightarrow> u8 list \<Rightarrow> u8 list \<Rightarrow> nat list \<Rightarrow> directory_entry option drive_prog" where
  "d_find_file_from start name ext [] = Give None"
| "d_find_file_from start name ext (sector_offset # ss) = Read_Sector (start + of_nat sector_offset) (\<lambda>buffer.
     case scan_sector buffer name ext [0..<16] of
       Stop \<Rightarrow> Give None
     | Found offset \<Rightarrow> Give (Some (read_entry buffer offset))
     | Next \<Rightarrow> d_find_file_from start name ext ss)"

definition d_find_file :: "bpb \<Rightarrow> u8 list \<Rightarrow> u8 list \<Rightarrow> directory_entry option drive_prog" where
  "d_find_file b name ext =
     dbind (computed (root_dir_sectors b)) (\<lambda>n. locked IDE_Lock (d_find_file_from (root_dir_start b) name ext [0..<unat n]))"

fun d_write_sectors :: "u32 \<Rightarrow> u8 list \<Rightarrow> nat list \<Rightarrow> unit drive_prog" where
  "d_write_sectors cluster_lba chunk [] = Give ()"
| "d_write_sectors cluster_lba chunk (sector_idx # is) =
    (let sector_start = sector_idx * 512 in
     if sector_start \<ge> length chunk then Give ()
     else let copy_len = min 512 (length chunk - sector_start);
              buffer = copy_at (replicate 512 0) 0 (subslice chunk sector_start copy_len)
          in Write_Sector (cluster_lba + of_nat sector_idx) buffer (d_write_sectors cluster_lba chunk is))"

fun d_write_chain :: "nat \<Rightarrow> bpb \<Rightarrow> u8 list \<Rightarrow> nat \<Rightarrow> u16 option \<Rightarrow> u16 \<Rightarrow> (string + u16) drive_prog" where
  "d_write_chain 0 b data bytes_written previous_cluster first_cluster = Spin"
| "d_write_chain (Suc n) b data bytes_written previous_cluster first_cluster =
    (if bytes_written < length data \<or> data = [] then
       dbind (d_find_free_cluster b) (\<lambda>free.
       case free of
         None \<Rightarrow> Give (Inl ''Disk full'')
       | Some current_cluster \<Rightarrow>
           dbind (d_set_fat_entry b current_cluster 0xFFFF) (\<lambda>_.
           dbind (case previous_cluster of
               None \<Rightarrow> Give current_cluster
             | Some p \<Rightarrow> dbind (d_set_fat_entry b p current_cluster) (\<lambda>_. Give first_cluster)) (\<lambda>first_cluster'.
           dbind (computed (cluster_to_lba b current_cluster)) (\<lambda>cluster_lba.
           let chunk_size = min (length data - bytes_written) (unat (sectors_per_cluster b) * 512);
               chunk = subslice data bytes_written chunk_size
           in dbind (locked IDE_Lock (d_write_sectors cluster_lba chunk [0..<unat (sectors_per_cluster b)])) (\<lambda>_.
              if data = [] then Give (Inr first_cluster')
              else d_write_chain n b data (bytes_written + chunk_size) (Some current_cluster) first_cluster')))))
     else Give (Inr first_cluster))"

definition d_put_entry :: "u32 \<Rightarrow> nat \<Rightarrow> directory_entry \<Rightarrow> unit drive_prog" where
  "d_put_entry dir_lba dir_offset entry = locked IDE_Lock (Read_Sector dir_lba (\<lambda>dir_buffer.
     Write_Sector dir_lba (copy_at dir_buffer dir_offset (entry_bytes entry)) (Give ())))"

definition d_write_new_file :: "bpb \<Rightarrow> u8 list \<Rightarrow> u8 list \<Rightarrow> u8 list \<Rightarrow> (string + unit) drive_prog" where
  "d_write_new_file b name ext data =
    dbind (d_find_empty_root_slot b) (\<lambda>slot.
    case slot of
      None \<Rightarrow> Give (Inl ''Root directory full'')
    | Some (dir_lba, dir_offset) \<Rightarrow>
        dbind (d_write_chain 65537 b data 0 None 0) (\<lambda>r.
        case r of
          Inl e \<Rightarrow> Give (Inl e)
        | Inr first_cluster \<Rightarrow>
            dbind (d_put_entry dir_lba dir_offset (new_entry name ext first_cluster (length data))) (\<lambda>_. Give (Inr ()))))"

fun d_write_all :: "(u32 \<times> u8 list) list \<Rightarrow> unit drive_prog" where
  "d_write_all [] = Give ()"
| "d_write_all ((lba, bytes) # rest) = Write_Sector lba bytes (d_write_all rest)"

definition d_format_drive :: "((string + unit) \<times> string) drive_prog" where
  "d_format_drive = locked IDE_Lock (
    dbind (d_write_all ((0, boot_sector)
        # concat (map (\<lambda>fat_idx. map (\<lambda>offset. (1 + of_nat fat_idx * 64 + of_nat offset, fat_sector offset)) [0..<64]) [0..<2])
        @ map (\<lambda>offset. (129 + of_nat offset, replicate 512 0)) [0..<32])) (\<lambda>_.
    Start_Flush (Give (Inr (), ''Formatted drive!''))))"

fun d_free_walk :: "bpb \<Rightarrow> nat \<Rightarrow> u16 \<Rightarrow> unit drive_prog" where
  "d_free_walk b 0 current = Spin"
| "d_free_walk b (Suc n) current =
    (if 2 \<le> current \<and> current < 0xFFF8
     then dbind (d_get_fat_entry b current) (\<lambda>next. dbind (d_set_fat_entry b current 0) (\<lambda>_. d_free_walk b n next))
     else Give ())"

definition d_overwrite_file :: "bpb \<Rightarrow> u8 list \<Rightarrow> u8 list \<Rightarrow> u8 list \<Rightarrow> (string + unit) drive_prog" where
  "d_overwrite_file b name ext new_data =
    dbind (d_find_file_location b name ext) (\<lambda>loc.
    case loc of
      None \<Rightarrow> Give (Inl ''File not found'')
    | Some (dir_lba, dir_offset, entry) \<Rightarrow>
        dbind (if cluster_low entry \<ge> 2 then d_free_walk b 65537 (cluster_low entry) else Give ()) (\<lambda>_.
        dbind (d_write_chain 65537 b new_data 0 None 0) (\<lambda>r.
        case r of
          Inl e \<Rightarrow> Give (Inl e)
        | Inr first_cluster \<Rightarrow>
            dbind (d_put_entry dir_lba dir_offset
                (entry\<lparr>cluster_low := first_cluster, file_size := of_nat (length new_data)\<rparr>)) (\<lambda>_. Give (Inr ())))))"

end
