(* ===== verification/Fat16_Table.thy ===== *)
theory Fat16_Table
  imports Fat16
begin

text \<open>
  The geometry of a volume in natural numbers, and the file allocation table as an array: what
  \<open>get_fat_entry\<close> returns after \<open>set_fat_entry\<close>, which sectors the table occupies, the
  free-cluster scan against its specification, and cluster chains. The laws of the table are the locale
  \<open>fat_table\<close>; the facts about chains are proved in it once and hold for the driver's
  table by interpretation.
\<close>

section \<open>Geometry\<close>

definition geom_ok :: "bpb \<Rightarrow> bool" where
  "geom_ok b \<longleftrightarrow> bytes_per_sector b = 512 \<and> unat (root_entries b) * 32 + 511 < 65536
     \<and> 0 < unat (sectors_per_cluster b) \<and> 0 < unat (fat_count b)
     \<and> 0 < unat (sectors_per_fat b) \<and> unat (sectors_per_fat b) \<le> 255"

definition root_start :: "bpb \<Rightarrow> nat" where
  "root_start b = unat (reserved_sectors b) + unat (fat_count b) * unat (sectors_per_fat b)"

definition root_secs :: "bpb \<Rightarrow> nat" where
  "root_secs b = (unat (root_entries b) * 32 + 511) div 512"

definition data_start :: "bpb \<Rightarrow> nat" where
  "data_start b = root_start b + root_secs b"

definition cluster_sector :: "bpb \<Rightarrow> u16 \<Rightarrow> nat" where
  "cluster_sector b c = data_start b + (unat c - 2) * unat (sectors_per_cluster b)"

definition fat_index :: "bpb \<Rightarrow> u16 \<Rightarrow> nat" where
  "fat_index b c = unat (reserved_sectors b) + unat c div 256"

text \<open>The clusters the FAT of the volume describes.\<close>

definition fat_size :: "bpb \<Rightarrow> nat" where
  "fat_size b = unat (sectors_per_fat b) * 256"

section \<open>Chains\<close>

text \<open>\<open>is_chain f c cs\<close>: following \<open>f\<close> from \<open>c\<close> visits \<open>cs\<close> and then an end marker.\<close>

fun is_chain :: "(u16 \<Rightarrow> u16) \<Rightarrow> u16 \<Rightarrow> u16 list \<Rightarrow> bool" where
  "is_chain f c [] \<longleftrightarrow> 0xFFF8 \<le> c"
| "is_chain f c (x # xs) \<longleftrightarrow> c = x \<and> 2 \<le> x \<and> x < 0xFFF8 \<and> is_chain f (f x) xs"

text \<open>The specification of the free-cluster scan: the least free entry of the table.\<close>

definition least_free :: "nat \<Rightarrow> (u16 \<Rightarrow> u16) \<Rightarrow> u16 option" where
  "least_free n f = map_option of_nat (find (\<lambda>c. f (of_nat c) = 0) [0..<n])"

text \<open>The sectors outside the first FAT, the only copy the code maintains.\<close>

definition off_fat :: "bpb \<Rightarrow> disk \<Rightarrow> nat \<Rightarrow> u8 list option" where
  "off_fat b dk n =
    (if unat (reserved_sectors b) \<le> n \<and> n < unat (reserved_sectors b) + unat (sectors_per_fat b)
     then None else Some (dk n))"

section \<open>Geometry lemmas\<close>

lemma lba_index_of_nat: "n < 2 ^ 28 \<Longrightarrow> lba_index (of_nat n) = n"
  by (simp add: lba_index_def unat_of_nat_small)

lemma lba_index_unat: "unat l < 2 ^ 28 \<Longrightarrow> lba_index l = unat l"
  by (simp add: lba_index_def)

lemma fat_product_bound: "unat (fat_count b) * unat (sectors_per_fat b) \<le> 255 * 65535"
  using mult_le_mono [of "unat (fat_count b)" 255 "unat (sectors_per_fat b)" 65535]
    unat_u8_less [of "fat_count b"] unat_u16_less [of "sectors_per_fat b"] by linarith

lemma root_start_bound: "root_start b \<le> 256 * 65535"
  using fat_product_bound [of b] unat_u16_less [of "reserved_sectors b"] by (simp add: root_start_def)

lemma root_secs_bound: "geom_ok b \<Longrightarrow> root_secs b \<le> 127"
  unfolding geom_ok_def root_secs_def by linarith

lemma data_start_bound: "geom_ok b \<Longrightarrow> data_start b \<le> 256 * 65535 + 127"
  using root_start_bound [of b] root_secs_bound [of b] by (simp add: data_start_def)

lemma cluster_product_bound: "(unat c - 2) * unat (sectors_per_cluster b) \<le> 65535 * 255" for c :: u16
  using mult_le_mono [of "unat c - 2" 65535 "unat (sectors_per_cluster b)" 255]
    unat_u8_less [of "sectors_per_cluster b"] unat_u16_less [of c] by linarith

lemma cluster_sector_bound: "geom_ok b \<Longrightarrow> i < unat (sectors_per_cluster b) \<Longrightarrow>
    cluster_sector b c + i < 2 ^ 28"
  using data_start_bound [of b] cluster_product_bound [of c b] unat_u8_less [of "sectors_per_cluster b"]
  by (simp add: cluster_sector_def)

lemma unat_root_dir_start: "unat (root_dir_start b) = root_start b"
proof -
  have m: "unat (ucast (fat_count b) * ucast (sectors_per_fat b) :: u32)
      = unat (fat_count b) * unat (sectors_per_fat b)"
    using fat_product_bound [of b] by (subst unat_mult_small) simp_all
  show ?thesis
    unfolding root_dir_start_def root_start_def using m fat_product_bound [of b]
      unat_u16_less [of "reserved_sectors b"]
    by (subst unat_add_small) simp_all
qed

lemma root_dir_sectors_Ret:
  assumes "geom_ok b"
  shows "\<exists>n. root_dir_sectors b = Ret n \<and> unat n = root_secs b"
proof -
  have a: "unat (root_entries b) * 32 + 511 < 65536" using assms by (simp add: geom_ok_def)
  then have m: "unat (root_entries b * 32) = unat (root_entries b) * 32"
    by (subst unat_mult_small) simp_all
  then have s: "unat (root_entries b * 32 + 511) = unat (root_entries b) * 32 + 511"
    using a by (subst unat_add_small) simp_all
  show ?thesis
    using a m s by (simp add: root_dir_sectors_def checked_mul_def checked_add_def root_secs_def unat_div)
qed

lemma cluster_to_lba_Ret:
  assumes g: "geom_ok b" and c: "2 \<le> unat c"
  shows "\<exists>l. cluster_to_lba b c = Ret l \<and> unat l = cluster_sector b c"
proof -
  have a: "unat (root_entries b) * 32 + 511 < 65536" "bytes_per_sector b = 512"
    using g by (simp_all add: geom_ok_def)
  then have m: "unat (root_entries b * 32) = unat (root_entries b) * 32"
    by (subst unat_mult_small) simp_all
  then have s: "unat (root_entries b * 32 + 511) = unat (root_entries b) * 32 + 511"
    using a by (subst unat_add_small) simp_all
  let ?rds = "(root_entries b * 32 + 511) div 512"
  have r: "unat (ucast ?rds :: u32) = root_secs b"
    using s by (simp add: unat_div root_secs_def)
  let ?fds = "root_dir_start b + ucast ?rds"
  have f: "unat ?fds = data_start b"
    using r unat_root_dir_start [of b] data_start_bound [OF g]
    by (subst unat_add_small) (simp_all add: data_start_def)
  have k: "unat (ucast c - 2 :: u32) = unat c - 2"
    using c by (subst unat_sub_small) simp_all
  have p: "unat ((ucast c - 2) * ucast (sectors_per_cluster b) :: u32)
      = (unat c - 2) * unat (sectors_per_cluster b)"
    using k cluster_product_bound [of c b] by (subst unat_mult_small) simp_all
  have "unat (?fds + (ucast c - 2) * ucast (sectors_per_cluster b)) = cluster_sector b c"
    using f p cluster_product_bound [of c b] data_start_bound [OF g]
    by (subst unat_add_small) (simp_all add: cluster_sector_def)
  moreover have "cluster_to_lba b c = Ret (?fds + (ucast c - 2) * ucast (sectors_per_cluster b))"
    using a m s c by (simp add: cluster_to_lba_def checked_mul_def checked_add_def checked_sub_def
        checked_div_def Let_def root_dir_start_def)
  ultimately show ?thesis by blast
qed

lemma cluster_to_lba_low: "unat c < 2 \<Longrightarrow> geom_ok b \<Longrightarrow> cluster_to_lba b c = Panic Overflow"
  using root_dir_sectors_Ret [of b]
  by (auto simp: cluster_to_lba_def checked_mul_def checked_add_def checked_sub_def checked_div_def
      geom_ok_def Let_def unat_mult_small unat_add_small)

section \<open>The table as an array\<close>

lemma fat_index_bound: "fat_index b c < 2 ^ 28"
  using unat_u16_less [of "reserved_sectors b"] unat_u16_less [of c] by (simp add: fat_index_def)

lemma fat_address:
  fixes c :: u16
  shows "lba_index (ucast (reserved_sectors b) + (ucast c * 2 :: u32) div 512) = fat_index b c"
    and "unat ((ucast c * 2 :: u32) mod 512) = 2 * (unat c mod 256)"
proof -
  have m: "unat (ucast c * 2 :: u32) = 2 * unat c"
    using unat_u16_less [of c] by (subst unat_mult_small) simp_all
  show "unat ((ucast c * 2 :: u32) mod 512) = 2 * (unat c mod 256)"
    by (simp add: unat_mod m mult_mod_right)
  have d: "unat ((ucast c * 2 :: u32) div 512) = unat c div 256"
    by (simp add: unat_div m)
  have "unat (ucast (reserved_sectors b) + (ucast c * 2 :: u32) div 512) = fat_index b c"
    using d fat_index_bound [of b c] by (subst unat_add_small) (simp_all add: fat_index_def)
  then show "lba_index (ucast (reserved_sectors b) + (ucast c * 2 :: u32) div 512) = fat_index b c"
    using fat_index_bound [of b c] by (simp add: lba_index_unat)
qed

lemma get_fat_entry_eq: "get_fat_entry b dk c = le16_at (dk (fat_index b c)) (2 * (unat c mod 256))"
  by (simp add: get_fat_entry_def Let_def sector_read_def fat_address le16_at_def)

lemma set_fat_entry_eq:
  "set_fat_entry b c v dk = dk(fat_index b c :=
     (dk (fat_index b c))[2 * (unat c mod 256) := to_le16 v ! 0, 2 * (unat c mod 256) + 1 := to_le16 v ! 1])"
  by (simp add: set_fat_entry_def Let_def sector_read_def sector_write_def fat_address)

lemma disk_ok_set_fat_entry [simp]: "disk_ok dk \<Longrightarrow> disk_ok (set_fat_entry b c v dk)"
  by (simp add: disk_ok_def set_fat_entry_eq)

lemma set_fat_entry_frame: "n \<noteq> fat_index b c \<Longrightarrow> set_fat_entry b c v dk n = dk n"
  by (simp add: set_fat_entry_eq)

lemma get_set_fat_entry:
  assumes "disk_ok dk"
  shows "get_fat_entry b (set_fat_entry b c v dk) x = (if x = c then v else get_fat_entry b dk x)"
proof (cases "fat_index b x = fat_index b c")
  case same: True
  have len: "length (dk (fat_index b c)) = 512" using assms by (simp add: disk_ok_def)
  have bound: "2 * (unat x mod 256) + 1 < 512" "2 * (unat c mod 256) + 1 < 512"
    using mod_less_divisor [of 256 "unat x"] mod_less_divisor [of 256 "unat c"] by linarith+
  show ?thesis
  proof (cases "x = c")
    case True
    then show ?thesis using len bound
      by (simp add: get_fat_entry_eq set_fat_entry_eq le16_at_def nth_list_update flip: One_nat_def)
  next
    case False
    then have "unat x mod 256 \<noteq> unat c mod 256"
      using same by (metis add_left_cancel fat_index_def div_mod_decomp word_unat_eq_iff)
    then show ?thesis using len bound same False
      by (auto simp: get_fat_entry_eq set_fat_entry_eq le16_at_def nth_list_update)
  qed
next
  case False
  then show ?thesis by (auto simp: get_fat_entry_eq set_fat_entry_eq)
qed

lemma get_fat_entry_cong:
  "(\<And>c. dk (fat_index b c) = dk' (fat_index b c)) \<Longrightarrow> get_fat_entry b dk = get_fat_entry b dk'"
  by (simp add: get_fat_entry_eq fun_eq_iff)

section \<open>The free-cluster scan\<close>

lemma find_free_sector:
  assumes "s < 256"
  shows "find (\<lambda>i. from_le16 (sector_read dk (ucast (reserved_sectors b) + of_nat s) ! i)
        (sector_read dk (ucast (reserved_sectors b) + of_nat s) ! (i + 1)) = 0) (map (\<lambda>k. 2 * k) [0..<256])
    = map_option (\<lambda>k. 2 * k) (find (\<lambda>k. get_fat_entry b dk (of_nat (s * 256 + k)) = 0) [0..<256])"
proof -
  have "unat (ucast (reserved_sectors b) + of_nat s :: u32) = unat (reserved_sectors b) + s"
    using assms unat_u16_less [of "reserved_sectors b"]
    by (subst unat_add_small) (simp_all add: unat_of_nat_small)
  then have l: "lba_index (ucast (reserved_sectors b) + of_nat s) = unat (reserved_sectors b) + s"
    using assms unat_u16_less [of "reserved_sectors b"] by (simp add: lba_index_def)
  have e: "get_fat_entry b dk (of_nat (s * 256 + k)) = le16_at (dk (unat (reserved_sectors b) + s)) (2 * k)"
    if "k < 256" for k
  proof -
    have "unat (of_nat (s * 256 + k) :: u16) = s * 256 + k"
      using assms that by (intro unat_of_nat_small) simp
    then show ?thesis using that by (simp add: get_fat_entry_eq fat_index_def)
  qed
  show ?thesis
    unfolding find_map comp_def
    by (rule arg_cong [where f = "map_option _"], rule find_cong)
      (simp_all add: e sector_read_def l le16_at_def del: of_nat_add of_nat_mult)
qed

lemma free_cluster_number:
  assumes "s < 256" and k: "k < 256"
  shows "obind (checked_mul (of_nat s) 256) (\<lambda>x. obind (checked_add x (of_nat (2 * k) div 2))
    (\<lambda>c. Ret (Some c))) = Ret (Some (of_nat (s * 256 + k) :: u16))"
proof -
  have us: "unat (of_nat s :: u16) = s" and uk: "unat (of_nat k :: u16) = k"
    and u2: "unat (of_nat (2 * k) :: u16) = 2 * k"
    using assms by (simp_all add: unat_of_nat_small del: of_nat_mult)
  have uh: "(of_nat (2 * k) div 2 :: u16) = of_nat k"
    using u2 uk by (intro word_unat_eq_iff [THEN iffD2]) (simp add: unat_div del: of_nat_mult)
  have um: "unat (of_nat s * 256 :: u16) = s * 256"
    using assms(1) us by (subst unat_mult_small) simp_all
  have "checked_mul (of_nat s) 256 = Ret (of_nat s * 256 :: u16)"
    using us assms(1) by (simp add: checked_mul_def)
  moreover have "checked_add (of_nat s * 256) (of_nat k) = Ret (of_nat (s * 256 + k) :: u16)"
    using um uk assms by (simp add: checked_add_def)
  ultimately show ?thesis by (simp only: obind_simps uh)
qed

lemma find_free_from_eq:
  assumes "m \<le> 256"
  shows "find_free_from b dk [0..<m] =
    Ret (map_option of_nat (find (\<lambda>c. get_fat_entry b dk (of_nat c) = 0) [0..<m * 256]))"
proof -
  have "find_free_from b dk (s # ss) =
      (case find (\<lambda>i. get_fat_entry b dk (of_nat (s * 256 + i)) = 0) [0..<256] of
         None \<Rightarrow> find_free_from b dk ss | Some i \<Rightarrow> Ret (Some (of_nat (s * 256 + i))))" if "s < m" for s ss
  proof -
    have s: "s < 256" using that assms by simp
    show ?thesis
      unfolding find_free_from.simps Let_def find_free_sector [OF s]
      using free_cluster_number [OF s] by (auto split: option.split dest!: find_SomeD simp del: of_nat_mult)
  qed
  from nested_find [where m = m and s = 0, OF this]
  show ?thesis by (auto split: option.split)
qed

lemma find_free_cluster_eq:
  assumes "unat (sectors_per_fat b) \<le> 256"
  shows "find_free_cluster b dk = Ret (least_free (fat_size b) (get_fat_entry b dk))"
  using find_free_from_eq [OF assms] by (simp add: find_free_cluster_def least_free_def fat_size_def)

lemma least_free_Some:
  assumes "least_free n f = Some c" and "n \<le> 65536"
  shows "f c = 0" and "unat c < n"
  using assms by (auto simp: least_free_def unat_of_nat_small dest!: find_SomeD)

lemma least_free_None: "least_free n f = None \<Longrightarrow> unat c < n \<Longrightarrow> f c \<noteq> 0"
  by (auto simp: least_free_def find_None_iff dest: spec [of _ "unat c"])

section \<open>Cluster chains\<close>

lemma is_chain_cong: "(\<And>x. x \<in> set cs \<Longrightarrow> f x = g x) \<Longrightarrow> is_chain f c cs = is_chain g c cs"
  by (induction cs arbitrary: c) auto

lemma is_chain_unique: "is_chain f c cs \<Longrightarrow> is_chain f c cs' \<Longrightarrow> cs = cs'"
proof (induction cs arbitrary: c cs')
  case Nil
  then show ?case by (cases cs') auto
next
  case (Cons x cs)
  then show ?case by (cases cs') auto
qed

lemma is_chain_suffix: "is_chain f c (ys @ x # zs) \<Longrightarrow> is_chain f x (x # zs)"
  by (induction ys arbitrary: c) auto

lemma is_chain_distinct: "is_chain f c cs \<Longrightarrow> distinct cs"
proof (induction cs arbitrary: c)
  case (Cons x cs)
  have "x \<notin> set cs"
  proof
    assume "x \<in> set cs"
    then obtain ys zs where cs: "cs = ys @ x # zs" by (auto simp: in_set_conv_decomp)
    then have "is_chain f x (x # zs)"
      using Cons.prems is_chain_suffix [of f "f x" ys x zs] by simp
    moreover have "is_chain f x (x # cs)" using Cons.prems by simp
    ultimately have "zs = cs" by (auto dest: is_chain_unique)
    then show False using cs by (metis length_append length_Cons less_add_Suc2 less_irrefl)
  qed
  then show ?case using Cons by auto
qed simp

lemma is_chain_range: "is_chain f c cs \<Longrightarrow> x \<in> set cs \<Longrightarrow> 2 \<le> x \<and> x < 0xFFF8"
  by (induction cs arbitrary: c) auto

lemma is_chain_linked: "is_chain f c cs \<Longrightarrow> x \<in> set cs \<Longrightarrow> f x \<noteq> 0"
proof (induction cs arbitrary: c)
  case (Cons y cs)
  have "f y \<noteq> 0"
  proof (cases cs)
    case Nil
    then show ?thesis using Cons.prems(1) by (auto simp: word_le_nat_alt)
  next
    case (Cons z zs)
    then show ?thesis using Cons.prems(1) by (auto simp: word_le_nat_alt)
  qed
  then show ?case using Cons by auto
qed simp

text \<open>
  What the allocation code relies on: the table is an array (\<open>get_put\<close>), writing it keeps the
  store well formed and, for entries of the table, changes nothing else (\<open>rest_put\<close>).
\<close>

locale fat_table =
  fixes get :: "'d \<Rightarrow> u16 \<Rightarrow> u16"
    and put :: "u16 \<Rightarrow> u16 \<Rightarrow> 'd \<Rightarrow> 'd"
    and ok :: "'d \<Rightarrow> bool"
    and rest :: "'d \<Rightarrow> 'r"
    and valid :: "u16 \<Rightarrow> bool"
  assumes get_put: "ok d \<Longrightarrow> get (put c v d) x = (if x = c then v else get d x)"
    and ok_put: "ok d \<Longrightarrow> ok (put c v d)"
    and rest_put: "valid c \<Longrightarrow> rest (put c v d) = rest d"
begin

text \<open>Freeing a chain clears exactly its entries.\<close>

lemma free_walk_chain:
  "is_chain (get d) c cs \<Longrightarrow> \<forall>x\<in>set cs. valid x \<Longrightarrow> ok d \<Longrightarrow> length cs < n \<Longrightarrow>
    \<exists>d'. free_walk get put n c d = Ret d' \<and> ok d' \<and> rest d' = rest d
       \<and> (\<forall>x. get d' x = (if x \<in> set cs then 0 else get d x))"
proof (induction cs arbitrary: c d n)
  case Nil
  then obtain m where "n = Suc m" by (cases n) auto
  then show ?case using Nil by (auto simp: not_less)
next
  case (Cons x cs)
  then obtain m where n: "n = Suc m" "length cs < m" by (cases n) auto
  have c: "c = x" "2 \<le> x" "x < 0xFFF8" "is_chain (get d) (get d x) cs" using Cons.prems(1) by auto
  have x: "x \<notin> set cs" using is_chain_distinct [OF Cons.prems(1)] by simp
  let ?d = "put x 0 d"
  have "is_chain (get ?d) (get d x) cs"
    using c(4) x Cons.prems(3) by (subst is_chain_cong [of cs _ "get d"]) (auto simp: get_put)
  then obtain d' where d': "free_walk get put m (get d x) ?d = Ret d'" "ok d'" "rest d' = rest ?d"
      "\<forall>y. get d' y = (if y \<in> set cs then 0 else get ?d y)"
    using Cons.IH [of ?d "get d x" m] Cons.prems n ok_put by auto
  then show ?case
    using c n Cons.prems(2,3) by (auto simp: get_put rest_put)
qed

text \<open>On any table at all, the walk ends: every round but one clears an entry that was set.\<close>

lemma free_walk_ends:
  "ok d \<Longrightarrow> card {x. 2 \<le> x \<and> get d x \<noteq> 0} + 1 < n \<Longrightarrow> free_walk get put n c d \<noteq> Hang"
proof (induction n arbitrary: c d)
  case (Suc n)
  let ?S = "\<lambda>d. {x. 2 \<le> x \<and> get d x \<noteq> 0}"
  show ?case
  proof (cases "2 \<le> c \<and> c < 0xFFF8")
    case guard: True
    show ?thesis
    proof (cases "get d c = 0")
      case True
      obtain m where "n = Suc m" using Suc.prems(2) by (cases n) auto
      then show ?thesis using guard True by simp
    next
      case False
      have "?S (put c 0 d) = ?S d - {c}"
        using Suc.prems(1) by (auto simp: get_put)
      moreover have "c \<in> ?S d" using guard False by simp
      ultimately have "card (?S (put c 0 d)) < card (?S d)"
        using card_Diff1_less [of "?S d" c] by (simp add: finite_subset [OF subset_UNIV])
      then have "free_walk get put n (get d c) (put c 0 d) \<noteq> Hang"
        using Suc.prems by (intro Suc.IH) (auto intro: ok_put)
      then show ?thesis using guard by simp
    qed
  qed auto
qed simp

end

lemma fat_index_in_fat: "unat c < fat_size b \<Longrightarrow>
    unat (reserved_sectors b) \<le> fat_index b c \<and> fat_index b c < unat (reserved_sectors b) + unat (sectors_per_fat b)"
  by (simp add: fat_index_def fat_size_def less_mult_imp_div_less)

lemma off_fat_set_fat_entry: "unat c < fat_size b \<Longrightarrow> off_fat b (set_fat_entry b c v dk) = off_fat b dk"
  using fat_index_in_fat [of c b] by (auto simp: off_fat_def set_fat_entry_eq fun_eq_iff)

interpretation fat: fat_table "get_fat_entry b" "set_fat_entry b" disk_ok "off_fat b"
  "\<lambda>c. unat c < fat_size b" for b
  by unfold_locales (simp_all add: get_set_fat_entry off_fat_set_fat_entry)

lemma free_cluster_chain_ends:
  assumes "disk_ok dk"
  shows "free_cluster_chain b c dk \<noteq> Hang"
proof -
  have "card {x :: u16. 2 \<le> x \<and> get_fat_entry b dk x \<noteq> 0} \<le> card (UNIV - {0 :: u16})"
    by (rule card_mono) auto
  also have "\<dots> = 65535" by (simp add: card_Diff_singleton card_word)
  finally show ?thesis
    unfolding free_cluster_chain_def using assms by (intro fat.free_walk_ends) simp_all
qed

end
