(* ===== verification/Fat16_Data.thy ===== *)
theory Fat16_Data
  imports Fat16_Table
begin

text \<open>
  File contents: what \<open>read_file\<close> returns for an entry whose chain is known, what one round of the
  allocation loop does to the table and to the data area, and what the whole loop leaves behind.
\<close>

section \<open>Clusters\<close>

definition cluster_len :: "bpb \<Rightarrow> nat" where
  "cluster_len b = unat (sectors_per_cluster b) * 512"

definition cluster_sectors :: "bpb \<Rightarrow> u16 \<Rightarrow> nat set" where
  "cluster_sectors b c = {cluster_sector b c..<cluster_sector b c + unat (sectors_per_cluster b)}"

definition cluster_bytes :: "bpb \<Rightarrow> disk \<Rightarrow> u16 \<Rightarrow> u8 list" where
  "cluster_bytes b dk c =
     concat (map (\<lambda>i. dk (cluster_sector b c + i)) [0..<unat (sectors_per_cluster b)])"

definition in_fat :: "bpb \<Rightarrow> nat \<Rightarrow> bool" where
  "in_fat b n \<longleftrightarrow> unat (reserved_sectors b) \<le> n \<and> n < unat (reserved_sectors b) + unat (sectors_per_fat b)"

definition valid_cluster :: "bpb \<Rightarrow> u16 \<Rightarrow> bool" where
  "valid_cluster b c \<longleftrightarrow> 2 \<le> unat c \<and> unat c < fat_size b"

text \<open>The clusters numbered 0 and 1 are never free, so the scan never hands them out.\<close>

definition reserved_ok :: "bpb \<Rightarrow> disk \<Rightarrow> bool" where
  "reserved_ok b dk \<longleftrightarrow> get_fat_entry b dk 0 \<noteq> 0 \<and> get_fat_entry b dk 1 \<noteq> 0"

definition free_clusters :: "bpb \<Rightarrow> disk \<Rightarrow> u16 set" where
  "free_clusters b dk = {c. unat c < fat_size b \<and> get_fat_entry b dk c = 0}"

text \<open>
  \<open>grown b dk cs dk'\<close>: \<open>dk'\<close> differs from \<open>dk\<close> only in the table and in the clusters \<open>cs\<close>, which
  were free.
\<close>

definition grown :: "bpb \<Rightarrow> disk \<Rightarrow> u16 list \<Rightarrow> disk \<Rightarrow> bool" where
  "grown b dk cs dk' \<longleftrightarrow> distinct cs \<and> disk_ok dk'
     \<and> (\<forall>c\<in>set cs. valid_cluster b c \<and> get_fat_entry b dk c = 0)
     \<and> (\<forall>n. \<not> in_fat b n \<longrightarrow> (\<forall>c\<in>set cs. n \<notin> cluster_sectors b c) \<longrightarrow> dk' n = dk n)"

section \<open>Layout\<close>

lemma fat_size_bound: "geom_ok b \<Longrightarrow> fat_size b \<le> 65280"
  by (simp add: geom_ok_def fat_size_def)

lemma valid_cluster_range: "geom_ok b \<Longrightarrow> valid_cluster b c \<Longrightarrow> 2 \<le> c \<and> c < 0xFFF8"
  using fat_size_bound [of b] by (simp add: valid_cluster_def word_le_nat_alt word_less_nat_alt)

lemma cluster_sectors_disjoint:
  assumes "valid_cluster b c" "valid_cluster b c'" "c \<noteq> c'"
  shows "cluster_sectors b c \<inter> cluster_sectors b c' = {}"
proof -
  have *: "cluster_sector b x + unat (sectors_per_cluster b) \<le> cluster_sector b y"
    if "unat x < unat y" "2 \<le> unat x" for x y :: u16
  proof -
    have "(unat x - 2 + 1) * unat (sectors_per_cluster b) \<le> (unat y - 2) * unat (sectors_per_cluster b)"
      using that by (intro mult_le_mono1) simp
    then show ?thesis by (simp add: cluster_sector_def)
  qed
  have "unat c < unat c' \<or> unat c' < unat c"
    using assms(3) by (metis linorder_neqE_nat word_unat_eq_iff)
  then show ?thesis
    using * [of c c'] * [of c' c] assms(1,2) by (auto simp: cluster_sectors_def valid_cluster_def)
qed

lemma fat_below_root: "geom_ok b \<Longrightarrow> in_fat b n \<Longrightarrow> n < root_start b"
  by (cases "unat (fat_count b)") (auto simp: in_fat_def geom_ok_def root_start_def)

lemma cluster_not_fat: "geom_ok b \<Longrightarrow> n \<in> cluster_sectors b c \<Longrightarrow> \<not> in_fat b n"
  using fat_below_root [of b n] by (auto simp: cluster_sectors_def cluster_sector_def data_start_def)

lemma cluster_above_root: "n \<in> cluster_sectors b c \<Longrightarrow> data_start b \<le> n"
  by (auto simp: cluster_sectors_def cluster_sector_def)

lemma fat_index_in: "unat c < fat_size b \<Longrightarrow> in_fat b (fat_index b c)"
  using fat_index_in_fat [of c b] by (simp add: in_fat_def)

lemma get_fat_entry_local:
  "(\<And>n. in_fat b n \<Longrightarrow> dk' n = dk n) \<Longrightarrow> unat c < fat_size b \<Longrightarrow> get_fat_entry b dk' c = get_fat_entry b dk c"
  by (simp add: get_fat_entry_eq fat_index_in)

lemma cluster_bytes_cong:
  "(\<And>n. n \<in> cluster_sectors b c \<Longrightarrow> dk' n = dk n) \<Longrightarrow> cluster_bytes b dk' c = cluster_bytes b dk c"
  unfolding cluster_bytes_def by (intro arg_cong [where f = concat] map_cong) (auto simp: cluster_sectors_def)

lemma length_cluster_bytes: "disk_ok dk \<Longrightarrow> length (cluster_bytes b dk c) = cluster_len b"
  unfolding cluster_bytes_def cluster_len_def by (subst length_concat_equal) (auto simp: disk_ok_def)

lemma set_fat_entry_off: "unat c < fat_size b \<Longrightarrow> \<not> in_fat b n \<Longrightarrow> set_fat_entry b c v dk n = dk n"
  using fat_index_in [of c b] by (auto intro: set_fat_entry_frame)

lemma lba_plus_index:
  "unat l = n \<Longrightarrow> n + i < 2 ^ 28 \<Longrightarrow> lba_index (l + of_nat i) = n + i"
  by (simp add: lba_index_def unat_of_nat_small unat_add_small)

section \<open>Reading\<close>

lemma read_sectors_eq:
  assumes dk: "disk_ok dk" and l: "unat lba = base" and m: "base + m < 2 ^ 28"
  shows "i \<le> m \<Longrightarrow> \<exists>rem'. read_sectors dk lba [i..<m] acc rem =
      Ret (acc @ take (unat rem) (concat (map (\<lambda>j. dk (base + j)) [i..<m])), rem')
    \<and> unat rem' = unat rem - (m - i) * 512"
proof (induction "m - i" arbitrary: i acc rem)
  case 0
  then show ?case by simp
next
  case (Suc k)
  then have i: "i < m" by simp
  have idx: "sector_read dk (lba + of_nat i) = dk (base + i)"
    using l m i by (simp add: sector_read_def lba_plus_index)
  have len: "length (dk (base + i)) = 512" using dk by (simp add: disk_ok_def)
  let ?c = "min (unat rem) 512"
  have uc: "unat (of_nat ?c :: u32) = ?c" by (intro unat_of_nat_small) simp
  let ?rem = "rem - of_nat ?c"
  have sub: "checked_sub rem (of_nat ?c) = Ret ?rem" using uc by (simp add: checked_sub_def)
  have ur: "unat ?rem = unat rem - ?c" using uc by (subst unat_sub_small) simp_all
  have step: "read_sectors dk lba [i..<m] acc rem =
      (if ?rem = 0 then Ret (acc @ take ?c (dk (base + i)), ?rem)
       else read_sectors dk lba [Suc i..<m] (acc @ take ?c (dk (base + i))) ?rem)"
    unfolding upt_conv_Cons [OF i] read_sectors.simps Let_def idx sub obind_simps ..
  have tk: "take (unat rem) (concat (map (\<lambda>j. dk (base + j)) [i..<m])) =
      take ?c (dk (base + i)) @ take (unat rem - 512) (concat (map (\<lambda>j. dk (base + j)) [Suc i..<m]))"
    using len by (simp add: upt_conv_Cons [OF i] min_def del: upt_Suc)
  show ?case
  proof (cases "?rem = 0")
    case True
    then have "unat rem \<le> 512" using ur by (auto simp: min_def split: if_splits)
    then show ?thesis using step True tk i by (simp add: Suc_diff_Suc)
  next
    case False
    then have "512 < unat rem" using ur uc by (metis diff_self_eq_0 min.absorb1 not_le unat_eq_zero)
    moreover obtain rem' where "read_sectors dk lba [Suc i..<m] (acc @ take ?c (dk (base + i))) ?rem =
        Ret ((acc @ take ?c (dk (base + i))) @ take (unat ?rem) (concat (map (\<lambda>j. dk (base + j)) [Suc i..<m])), rem')"
        "unat rem' = unat ?rem - (m - Suc i) * 512"
      using Suc.hyps(1) [of "Suc i"] Suc.hyps(2) i by fastforce
    ultimately show ?thesis using step False tk ur i by (simp add: algebra_simps)
  qed
qed

lemma read_clusters_chain:
  assumes g: "geom_ok b" and dk: "disk_ok dk"
  shows "is_chain (get_fat_entry b dk) c cs \<Longrightarrow> length cs < n \<Longrightarrow>
    read_clusters n b dk c acc rem = Ret (acc @ take (unat rem) (concat (map (cluster_bytes b dk) cs)))"
proof (induction cs arbitrary: c n acc rem)
  case Nil
  then show ?case by (cases n) (auto simp: not_less)
next
  case (Cons x cs)
  then obtain k where n: "n = Suc k" "length cs < k" by (cases n) auto
  have c: "c = x" "2 \<le> x" "x < 0xFFF8" "is_chain (get_fat_entry b dk) (get_fat_entry b dk x) cs"
    using Cons.prems(1) by auto
  then have "2 \<le> unat x" by (simp add: word_le_nat_alt)
  then obtain l where l: "cluster_to_lba b x = Ret l" "unat l = cluster_sector b x"
    using cluster_to_lba_Ret [OF g] by blast
  have "0 < unat (sectors_per_cluster b)" using g by (simp add: geom_ok_def)
  then have bound: "cluster_sector b x + unat (sectors_per_cluster b) < 2 ^ 28"
    using data_start_bound [OF g] cluster_product_bound [of x b] unat_u8_less [of "sectors_per_cluster b"]
    by (simp add: cluster_sector_def)
  obtain rem' where rs: "read_sectors dk l [0..<unat (sectors_per_cluster b)] acc rem =
      Ret (acc @ take (unat rem) (cluster_bytes b dk x), rem')"
      "unat rem' = unat rem - cluster_len b"
    using read_sectors_eq [OF dk l(2) bound, of 0 acc rem] by (auto simp: cluster_bytes_def cluster_len_def)
  show ?case
  proof (cases "rem' = 0")
    case True
    then show ?thesis using c n l rs length_cluster_bytes [OF dk, of b x] by simp
  next
    case False
    then show ?thesis
      using c n l rs length_cluster_bytes [OF dk, of b x] Cons.IH [OF c(4) n(2)] by simp
  qed
qed

lemma is_chain_length: "is_chain f c cs \<Longrightarrow> length cs \<le> 65536"
  using card_mono [of UNIV "set cs"] distinct_card [of cs] is_chain_distinct [of f c cs]
  by (simp add: card_word)

lemma read_file_chain:
  assumes "geom_ok b" "disk_ok dk" "is_chain (get_fat_entry b dk) (cluster_low e) cs"
  shows "read_file b dk e = Ret (take (unat (file_size e)) (concat (map (cluster_bytes b dk) cs)))"
  unfolding read_file_def
  using read_clusters_chain [OF assms(1,2,3)] is_chain_length [OF assms(3)] by simp

section \<open>One round of allocation\<close>

lemma write_sectors_eq:
  assumes l: "unat lba = base" and m: "base + m < 2 ^ 28"
  shows "i \<le> m \<Longrightarrow> write_sectors lba chunk [i..<m] dk n =
    (if base + i \<le> n \<and> n < base + m \<and> (n - base) * 512 < length chunk
     then copy_at (replicate 512 0) 0
            (subslice chunk ((n - base) * 512) (min 512 (length chunk - (n - base) * 512)))
     else dk n)"
proof (induction "m - i" arbitrary: i dk)
  case 0
  then show ?case by auto
next
  case (Suc k)
  then have i: "i < m" by simp
  have idx: "lba_index (lba + of_nat i) = base + i" using l m i by (simp add: lba_plus_index)
  show ?case
  proof (cases "i * 512 \<ge> length chunk")
    case True
    then have "\<not> (base + i \<le> n \<and> (n - base) * 512 < length chunk)"
      using mult_le_mono1 [of i "n - base" 512] by auto
    then show ?thesis
      unfolding upt_conv_Cons [OF i] using True by auto
  next
    case False
    let ?buf = "copy_at (replicate 512 0) 0 (subslice chunk (i * 512) (min 512 (length chunk - i * 512)))"
    have "write_sectors lba chunk [i..<m] dk n =
        write_sectors lba chunk [Suc i..<m] (dk(base + i := ?buf)) n"
      unfolding upt_conv_Cons [OF i] using False by (simp add: sector_write_def idx Let_def)
    then show ?thesis
      using Suc.hyps(1) [of "Suc i" "dk(base + i := ?buf)"] Suc.hyps(2) i False by auto
  qed
qed

lemma chunk_buffer:
  assumes "s < length chunk"
  defines "buf \<equiv> copy_at (replicate 512 0) 0 (subslice chunk s (min 512 (length chunk - s)))"
  shows "length buf = 512" and "k < 512 \<Longrightarrow> s + k < length chunk \<Longrightarrow> buf ! k = chunk ! (s + k)"
  using assms by (auto simp: nth_copy_at nth_subslice)

lemma write_sectors_cluster:
  assumes "unat lba = cluster_sector b c" "cluster_sector b c + unat (sectors_per_cluster b) < 2 ^ 28"
    "disk_ok dk" "length chunk \<le> cluster_len b"
  defines "dk' \<equiv> write_sectors lba chunk [0..<unat (sectors_per_cluster b)] dk"
  shows "disk_ok dk'" and "n \<notin> cluster_sectors b c \<Longrightarrow> dk' n = dk n"
    and "take (length chunk) (cluster_bytes b dk' c) = chunk"
proof -
  have eq: "dk' n = (if n \<in> cluster_sectors b c \<and> (n - cluster_sector b c) * 512 < length chunk
     then copy_at (replicate 512 0) 0 (subslice chunk ((n - cluster_sector b c) * 512)
            (min 512 (length chunk - (n - cluster_sector b c) * 512)))
     else dk n)" for n
    using write_sectors_eq [OF assms(1,2), of 0 chunk dk n] by (simp add: dk'_def cluster_sectors_def)
  show ok: "disk_ok dk'"
    using assms(3) by (auto simp: disk_ok_def eq)
  show "n \<notin> cluster_sectors b c \<Longrightarrow> dk' n = dk n" by (simp add: eq)
  show "take (length chunk) (cluster_bytes b dk' c) = chunk"
  proof (rule nth_equalityI)
    show len: "length (take (length chunk) (cluster_bytes b dk' c)) = length chunk"
      using length_cluster_bytes [OF ok, of b c] assms(4) by simp
    fix p assume "p < length (take (length chunk) (cluster_bytes b dk' c))"
    then have p: "p < length chunk" using len by simp
    then have d: "p div 512 < unat (sectors_per_cluster b)"
      using assms(4) by (simp add: cluster_len_def less_mult_imp_div_less)
    have "cluster_bytes b dk' c ! p = dk' (cluster_sector b c + p div 512) ! (p mod 512)"
      unfolding cluster_bytes_def using p assms(4) d ok
      by (subst nth_concat_equal [where k = 512]) (auto simp: cluster_len_def disk_ok_def)
    moreover have "dk' (cluster_sector b c + p div 512) ! (p mod 512) = chunk ! p"
    proof -
      have "p div 512 * 512 + p mod 512 = p" by simp
      then show ?thesis
        using p d chunk_buffer(2) [of "p div 512 * 512" chunk "p mod 512"]
        by (auto simp: eq cluster_sectors_def)
    qed
    ultimately show "take (length chunk) (cluster_bytes b dk' c) ! p = chunk ! p" using p by simp
  qed
qed

text \<open>The state after one round: the cluster is marked, linked from its predecessor, and filled.\<close>

definition round_disk :: "bpb \<Rightarrow> u16 option \<Rightarrow> u16 \<Rightarrow> u32 \<Rightarrow> u8 list \<Rightarrow> disk \<Rightarrow> disk" where
  "round_disk b prev cur lba chunk dk =
     write_sectors lba chunk [0..<unat (sectors_per_cluster b)]
       (case prev of None \<Rightarrow> set_fat_entry b cur 0xFFFF dk
        | Some p \<Rightarrow> set_fat_entry b p cur (set_fat_entry b cur 0xFFFF dk))"

definition prev_ok :: "bpb \<Rightarrow> disk \<Rightarrow> u16 option \<Rightarrow> bool" where
  "prev_ok b dk prev \<longleftrightarrow> (\<forall>p. prev = Some p \<longrightarrow> valid_cluster b p \<and> get_fat_entry b dk p = 0xFFFF)"

lemma find_free_valid:
  assumes "geom_ok b" "reserved_ok b dk" "find_free_cluster b dk = Ret (Some cur)"
  shows "valid_cluster b cur" and "get_fat_entry b dk cur = 0"
proof -
  have lf: "least_free (fat_size b) (get_fat_entry b dk) = Some cur"
    using assms(1,3) find_free_cluster_eq [of b dk] by (simp add: geom_ok_def)
  then show z: "get_fat_entry b dk cur = 0"
    using least_free_Some(1) fat_size_bound [OF assms(1)] by fastforce
  have "cur \<noteq> 0" "cur \<noteq> 1" using z assms(2) by (auto simp: reserved_ok_def)
  then have "2 \<le> unat cur"
    by (metis One_nat_def less_2_cases not_le unat_1 unat_eq_zero word_unat_eq_iff)
  then show "valid_cluster b cur"
    using least_free_Some(2) [OF lf] fat_size_bound [OF assms(1)] by (simp add: valid_cluster_def)
qed

lemma round_disk_props:
  assumes g: "geom_ok b" and dk: "disk_ok dk" and cur: "valid_cluster b cur" "get_fat_entry b dk cur = 0"
    and prev: "prev_ok b dk prev" and l: "unat lba = cluster_sector b cur"
    and len: "length chunk \<le> cluster_len b"
  defines "dk' \<equiv> round_disk b prev cur lba chunk dk"
  shows "disk_ok dk'"
    and "unat x < fat_size b \<Longrightarrow> get_fat_entry b dk' x =
      (if x = cur then 0xFFFF else if prev = Some x then cur else get_fat_entry b dk x)"
    and "\<not> in_fat b n \<Longrightarrow> n \<notin> cluster_sectors b cur \<Longrightarrow> dk' n = dk n"
    and "take (length chunk) (cluster_bytes b dk' cur) = chunk"
proof -
  have ne: "prev \<noteq> Some cur" using prev cur(2) by (auto simp: prev_ok_def)
  have bound: "cluster_sector b cur + unat (sectors_per_cluster b) < 2 ^ 28"
    using data_start_bound [OF g] cluster_product_bound [of cur b] unat_u8_less [of "sectors_per_cluster b"]
    by (simp add: cluster_sector_def)
  define dk2 where "dk2 = (case prev of None \<Rightarrow> set_fat_entry b cur 0xFFFF dk
        | Some p \<Rightarrow> set_fat_entry b p cur (set_fat_entry b cur 0xFFFF dk))"
  have dk2: "disk_ok dk2" using dk by (simp add: dk2_def split: option.split)
  have d': "dk' = write_sectors lba chunk [0..<unat (sectors_per_cluster b)] dk2"
    by (simp add: dk'_def round_disk_def dk2_def)
  note ws = write_sectors_cluster [OF l bound dk2 len, folded d']
  show "disk_ok dk'" "take (length chunk) (cluster_bytes b dk' cur) = chunk"
    using ws by blast+
  have fat2: "get_fat_entry b dk2 x =
      (if x = cur then 0xFFFF else if prev = Some x then cur else get_fat_entry b dk x)" for x
    using dk ne by (auto simp: dk2_def get_set_fat_entry split: option.split)
  have "dk' n = dk2 n" if "in_fat b n" for n
    using ws(2) cluster_not_fat [OF g] that by blast
  then show "unat x < fat_size b \<Longrightarrow> get_fat_entry b dk' x =
      (if x = cur then 0xFFFF else if prev = Some x then cur else get_fat_entry b dk x)"
    using get_fat_entry_local [of b dk' dk2 x] fat2 by simp
  show "dk' n = dk n" if "\<not> in_fat b n" "n \<notin> cluster_sectors b cur"
    using ws(2) [of n] that cur(1) prev
    by (auto simp: dk2_def set_fat_entry_off valid_cluster_def prev_ok_def split: option.split)
qed

section \<open>The allocation loop\<close>

lemma write_chain_step:
  "write_chain (Suc n) b data bw prev first dk =
    (if bw < length data \<or> data = [] then
       obind (find_free_cluster b dk) (\<lambda>free. case free of
         None \<Rightarrow> Ret (Inl ''Disk full'', dk)
       | Some cur \<Rightarrow> obind (cluster_to_lba b cur) (\<lambda>lba.
           let chunk = subslice data bw (min (length data - bw) (cluster_len b));
               dk' = round_disk b prev cur lba chunk dk;
               first' = (case prev of None \<Rightarrow> cur | Some _ \<Rightarrow> first)
           in if data = [] then Ret (Inr first', dk')
              else write_chain n b data (bw + min (length data - bw) (cluster_len b)) (Some cur) first' dk'))
     else Ret (Inr first, dk))"
  by (auto simp: round_disk_def cluster_len_def Let_def intro!: arg_cong2 [where f = obind] ext
      split: option.split)

declare write_chain.simps(2) [simp del]

text \<open>
  What the loop leaves: new clusters \<open>cs\<close>, chained, entered from the previous cluster if there was
  one; every other entry of the table as it was.
\<close>

definition chained :: "bpb \<Rightarrow> u16 option \<Rightarrow> disk \<Rightarrow> u16 list \<Rightarrow> disk \<Rightarrow> bool" where
  "chained b prev dk cs dk' \<longleftrightarrow> grown b dk cs dk'
     \<and> (cs \<noteq> [] \<longrightarrow> is_chain (get_fat_entry b dk') (hd cs) cs)
     \<and> (\<forall>x. unat x < fat_size b \<longrightarrow> x \<notin> set cs \<longrightarrow>
          get_fat_entry b dk' x = (if cs \<noteq> [] \<and> prev = Some x then hd cs else get_fat_entry b dk x))"

definition filled :: "bpb \<Rightarrow> u8 list \<Rightarrow> u16 list \<Rightarrow> disk \<Rightarrow> bool" where
  "filled b bytes cs dk \<longleftrightarrow> length bytes \<le> length cs * cluster_len b
     \<and> take (length bytes) (concat (map (cluster_bytes b dk) cs)) = bytes"

lemma chained_refl: "disk_ok dk \<Longrightarrow> chained b prev dk [] dk"
  by (simp add: chained_def grown_def)

lemma grown_cluster_bytes:
  assumes "geom_ok b" "grown b dk cs dk'" "valid_cluster b c" "c \<notin> set cs"
  shows "cluster_bytes b dk' c = cluster_bytes b dk c"
proof (rule cluster_bytes_cong)
  fix n assume n: "n \<in> cluster_sectors b c"
  then have "\<forall>x\<in>set cs. n \<notin> cluster_sectors b x"
    using assms cluster_sectors_disjoint [of b c] unfolding grown_def by blast
  then show "dk' n = dk n"
    using assms(2) cluster_not_fat [OF assms(1) n] by (simp add: grown_def)
qed

lemma chained_Cons:
  assumes g: "geom_ok b" and cur: "valid_cluster b cur" "get_fat_entry b dk cur = 0"
    and r: "disk_ok dk1" "\<And>x. unat x < fat_size b \<Longrightarrow> get_fat_entry b dk1 x =
        (if x = cur then 0xFFFF else if prev = Some x then cur else get_fat_entry b dk x)"
      "\<And>n. \<not> in_fat b n \<Longrightarrow> n \<notin> cluster_sectors b cur \<Longrightarrow> dk1 n = dk n"
    and prev: "prev_ok b dk prev" and c: "chained b (Some cur) dk1 cs dk'"
  shows "chained b prev dk (cur # cs) dk'"
proof -
  have gr: "grown b dk1 cs dk'" using c by (simp add: chained_def)
  have nz: "get_fat_entry b dk1 cur = 0xFFFF" using r(2) [of cur] cur(1) by (simp add: valid_cluster_def)
  have cs: "cur \<notin> set cs" using gr nz by (auto simp: grown_def)
  have free: "valid_cluster b x \<and> get_fat_entry b dk x = 0" if "x \<in> set cs" for x
  proof -
    have x: "valid_cluster b x" "get_fat_entry b dk1 x = 0" using gr that by (auto simp: grown_def)
    moreover have "cur \<noteq> 0" using cur(1) by (auto simp: valid_cluster_def)
    ultimately show ?thesis using r(2) [of x] cur(2) by (auto simp: valid_cluster_def split: if_splits)
  qed
  have "grown b dk (cur # cs) dk'"
    unfolding grown_def
  proof (intro conjI allI impI)
    show "distinct (cur # cs)" "disk_ok dk'" using gr cs by (auto simp: grown_def)
    show "\<forall>c\<in>set (cur # cs). valid_cluster b c \<and> get_fat_entry b dk c = 0" using free cur by auto
    fix n assume "\<not> in_fat b n" "\<forall>c\<in>set (cur # cs). n \<notin> cluster_sectors b c"
    then show "dk' n = dk n" using gr r(3) [of n] by (simp add: grown_def)
  qed
  moreover have "is_chain (get_fat_entry b dk') cur (cur # cs)"
  proof -
    have "get_fat_entry b dk' cur = (if cs \<noteq> [] then hd cs else 0xFFFF)"
      using c cs nz cur(1) by (simp add: chained_def valid_cluster_def)
    then show ?thesis
      using valid_cluster_range [OF g cur(1)] c by (simp add: chained_def)
  qed
  moreover have "get_fat_entry b dk' x = (if prev = Some x then cur else get_fat_entry b dk x)"
    if "unat x < fat_size b" "x \<notin> set (cur # cs)" for x
    using c r(2) [of x] that by (auto simp: chained_def)
  ultimately show ?thesis by (simp add: chained_def)
qed

lemma filled_Cons:
  assumes "disk_ok dk" and "take (length c) (cluster_bytes b dk cur) = c" "length c \<le> cluster_len b"
    and "filled b rest cs dk" and "length c < cluster_len b \<Longrightarrow> rest = []"
  shows "filled b (c @ rest) (cur # cs) dk"
proof (cases "rest = []")
  case True
  then show ?thesis
    using assms(2,3) length_cluster_bytes [OF assms(1), of b cur] by (simp add: filled_def)
next
  case False
  then have "length c = cluster_len b" using assms(3,5) by force
  then show ?thesis
    using assms(2,4) length_cluster_bytes [OF assms(1), of b cur] by (simp add: filled_def)
qed

lemma reserved_ok_round:
  assumes "geom_ok b" "reserved_ok b dk" "valid_cluster b cur" "prev_ok b dk prev"
    "\<And>x. unat x < fat_size b \<Longrightarrow> get_fat_entry b dk1 x =
        (if x = cur then 0xFFFF else if prev = Some x then cur else get_fat_entry b dk x)"
  shows "reserved_ok b dk1"
proof -
  have "256 \<le> fat_size b" using assms(1) by (simp add: geom_ok_def fat_size_def)
  moreover have "cur \<noteq> 0" "cur \<noteq> 1" "prev \<noteq> Some 0" "prev \<noteq> Some 1"
    using assms(3,4) by (auto simp: valid_cluster_def prev_ok_def)
  ultimately show ?thesis
    using assms(2) assms(5) [of 0] assms(5) [of 1] by (simp add: reserved_ok_def)
qed

text \<open>One round with a free cluster: the step it takes, and what it leaves for the next.\<close>

definition round_len :: "bpb \<Rightarrow> u8 list \<Rightarrow> nat \<Rightarrow> nat" where
  "round_len b data bw = min (length data - bw) (cluster_len b)"

definition round_ok :: "bpb \<Rightarrow> u8 list \<Rightarrow> nat \<Rightarrow> u16 option \<Rightarrow> u16 \<Rightarrow> disk \<Rightarrow> disk \<Rightarrow> bool" where
  "round_ok b data bw prev cur dk dk1 \<longleftrightarrow> disk_ok dk1 \<and> reserved_ok b dk1 \<and> prev_ok b dk1 (Some cur)
     \<and> valid_cluster b cur \<and> get_fat_entry b dk cur = 0
     \<and> (\<forall>x. unat x < fat_size b \<longrightarrow>
          get_fat_entry b dk1 x = (if x = cur then 0xFFFF else if prev = Some x then cur else get_fat_entry b dk x))
     \<and> (\<forall>cs dk'. chained b (Some cur) dk1 cs dk' \<longrightarrow> chained b prev dk (cur # cs) dk')
     \<and> take (round_len b data bw) (cluster_bytes b dk1 cur) = subslice data bw (round_len b data bw)"

lemma write_chain_round:
  assumes g: "geom_ok b" and dk: "disk_ok dk" "reserved_ok b dk" "prev_ok b dk prev"
    and bw: "bw \<le> length data" "bw < length data \<or> data = []" and free: "find_free_cluster b dk = Ret (Some cur)"
  obtains dk1 where "round_ok b data bw prev cur dk dk1"
    "\<And>n first. write_chain (Suc n) b data bw prev first dk =
       (if data = [] then Ret (Inr (case prev of None \<Rightarrow> cur | Some _ \<Rightarrow> first), dk1)
        else write_chain n b data (bw + round_len b data bw) (Some cur) (case prev of None \<Rightarrow> cur | Some _ \<Rightarrow> first) dk1)"
proof -
  note cur = find_free_valid [OF g dk(2) free]
  obtain lba where lba: "cluster_to_lba b cur = Ret lba" "unat lba = cluster_sector b cur"
    using cluster_to_lba_Ret [OF g] cur(1) by (auto simp: valid_cluster_def)
  let ?chunk = "subslice data bw (round_len b data bw)"
  define dk1 where "dk1 = round_disk b prev cur lba ?chunk dk"
  have len: "length ?chunk = round_len b data bw" using bw(1) by (simp add: round_len_def)
  then have "length ?chunk \<le> cluster_len b" by (simp add: round_len_def)
  note rd = round_disk_props [OF g dk(1) cur dk(3) lba(2) this, folded dk1_def]
  have "prev_ok b dk1 (Some cur)" using cur(1) rd(2) [of cur] by (simp add: prev_ok_def valid_cluster_def)
  moreover have "reserved_ok b dk1" by (rule reserved_ok_round [OF g dk(2) cur(1) dk(3)]) (rule rd(2))
  moreover have "chained b prev dk (cur # cs) dk'" if "chained b (Some cur) dk1 cs dk'" for cs dk'
    using chained_Cons [OF g cur rd(1) _ _ dk(3) that] rd(2,3) by blast
  ultimately have "round_ok b data bw prev cur dk dk1" using cur rd(1,2,4) len by (simp add: round_ok_def)
  then show ?thesis
    using bw(2) free lba(1) by (intro that) (auto simp: write_chain_step Let_def dk1_def round_len_def)
qed

lemma filled_round:
  assumes g: "geom_ok b" and r: "round_ok b data bw prev cur dk dk1" and bw: "bw \<le> length data"
    and cs: "chained b (Some cur) dk1 cs dk'" "filled b (drop (bw + round_len b data bw) data) cs dk'"
  shows "filled b (drop bw data) (cur # cs) dk'"
proof -
  let ?k = "round_len b data bw" and ?chunk = "subslice data bw (round_len b data bw)"
  have len: "length ?chunk = ?k" using bw by (simp add: round_len_def)
  have gr: "grown b dk1 cs dk'" using cs(1) by (simp add: chained_def)
  have "chained b prev dk (cur # cs) dk'" using r cs(1) by (simp add: round_ok_def)
  then have "cur \<notin> set cs" by (simp add: chained_def grown_def)
  then have "cluster_bytes b dk' cur = cluster_bytes b dk1 cur"
    using grown_cluster_bytes [OF g gr] r by (simp add: round_ok_def)
  then have "take (length ?chunk) (cluster_bytes b dk' cur) = ?chunk" using r len by (simp add: round_ok_def)
  moreover have "drop bw data = ?chunk @ drop (bw + ?k) data"
    unfolding subslice_def add.commute [of bw ?k] drop_drop [symmetric] by (rule append_take_drop_id [symmetric])
  moreover have "drop (bw + ?k) data = []" if "length ?chunk < cluster_len b"
    using that len by (simp add: round_len_def)
  moreover have "disk_ok dk'" using gr by (simp add: grown_def)
  moreover have "length ?chunk \<le> cluster_len b" unfolding len by (simp add: round_len_def)
  ultimately show ?thesis using filled_Cons [of dk' ?chunk b cur "drop (bw + ?k) data" cs] cs(2) by simp
qed

lemma write_chain_result:
  assumes g: "geom_ok b"
  shows "write_chain n b data bw prev first dk = Ret (r, dk') \<Longrightarrow> disk_ok dk \<Longrightarrow> reserved_ok b dk \<Longrightarrow>
    prev_ok b dk prev \<Longrightarrow> bw \<le> length data \<Longrightarrow>
    \<exists>cs. chained b prev dk cs dk' \<and>
      (case r of Inl e \<Rightarrow> e = ''Disk full''
       | Inr f \<Rightarrow> f = (if prev = None \<and> cs \<noteq> [] then hd cs else first)
           \<and> filled b (drop bw data) cs dk' \<and> (cs = [] \<longleftrightarrow> data \<noteq> [] \<and> bw = length data))"
proof (induction n arbitrary: bw prev first dk)
  case (Suc n)
  note refl = chained_refl [OF Suc.prems(2), of b prev]
  consider "\<not> (bw < length data \<or> data = [])" | "bw < length data \<or> data = []" "find_free_cluster b dk = Ret None"
    | cur where "bw < length data \<or> data = []" "find_free_cluster b dk = Ret (Some cur)"
    using Suc.prems(1) by (fastforce simp: write_chain_step elim!: obind_RetE split: if_splits option.splits)
  then show ?case
  proof cases
    case 1
    then have "r = Inr first" "dk' = dk" "bw = length data" "data \<noteq> []" using Suc.prems(1,5) by (auto simp: write_chain_step)
    then show ?thesis using refl by (intro exI [of _ "[]"]) (simp add: filled_def)
  next
    case 2
    then have "r = Inl ''Disk full''" "dk' = dk" using Suc.prems(1) by (auto simp: write_chain_step)
    then show ?thesis using refl by (intro exI [of _ "[]"]) simp
  next
    case (3 cur)
    let ?k = "round_len b data bw"
    define first' where "first' = (case prev of None \<Rightarrow> cur | Some _ \<Rightarrow> first)"
    obtain dk1 where R: "round_ok b data bw prev cur dk dk1" and step: "write_chain (Suc n) b data bw prev first dk =
        (if data = [] then Ret (Inr first', dk1) else write_chain n b data (bw + ?k) (Some cur) first' dk1)"
      unfolding first'_def by (rule write_chain_round [OF g Suc.prems(2-5) 3]) blast
    have ok: "disk_ok dk1" "reserved_ok b dk1" "prev_ok b dk1 (Some cur)" using R by (simp_all add: round_ok_def)
    have ch: "chained b (Some cur) dk1 cs d' \<Longrightarrow> chained b prev dk (cur # cs) d'" for cs d' using R by (simp add: round_ok_def)
    show ?thesis
    proof (cases "data = []")
      case True
      then show ?thesis using ch [OF chained_refl [OF ok(1)]] step Suc.prems(1)
        by (intro exI [of _ "[cur]"]) (auto simp: filled_def first'_def split: option.split)
    next
      case False
      have "bw + ?k \<le> length data" using Suc.prems(5) by (simp add: round_len_def)
      then obtain cs where cs: "chained b (Some cur) dk1 cs dk'"
          "case r of Inl e \<Rightarrow> e = ''Disk full'' | Inr f \<Rightarrow> f = first' \<and> filled b (drop (bw + ?k) data) cs dk'"
        using Suc.IH [OF _ ok, of "bw + ?k" first'] step False Suc.prems(1) by (cases r) auto
      then show ?thesis
        using ch [OF cs(1)] filled_round [OF g R Suc.prems(5) cs(1)] 3(1) False
        by (intro exI [of _ "cur # cs"]) (auto simp: first'_def split: sum.splits option.splits)
    qed
  qed
qed simp

lemma free_clusters_round:
  assumes "geom_ok b" "valid_cluster b cur" "get_fat_entry b dk cur = 0" "prev_ok b dk prev"
    "\<And>x. unat x < fat_size b \<Longrightarrow> get_fat_entry b dk1 x =
        (if x = cur then 0xFFFF else if prev = Some x then cur else get_fat_entry b dk x)"
  shows "free_clusters b dk1 = free_clusters b dk - {cur}" and "cur \<in> free_clusters b dk"
proof -
  have "cur \<noteq> 0" using assms(2) by (auto simp: valid_cluster_def)
  moreover have "get_fat_entry b dk p \<noteq> 0" if "prev = Some p" for p
    using assms(4) that by (simp add: prev_ok_def)
  ultimately show "free_clusters b dk1 = free_clusters b dk - {cur}"
    by (auto simp: free_clusters_def assms(5) split: if_splits)
  show "cur \<in> free_clusters b dk" using assms(2,3) by (simp add: free_clusters_def valid_cluster_def)
qed

text \<open>The loop always returns, and it succeeds whenever the free clusters can hold the data.\<close>

lemma write_chain_total:
  assumes g: "geom_ok b"
  shows "disk_ok dk \<Longrightarrow> reserved_ok b dk \<Longrightarrow> prev_ok b dk prev \<Longrightarrow> bw \<le> length data \<Longrightarrow>
    card (free_clusters b dk) < n \<Longrightarrow>
    \<exists>r dk'. write_chain n b data bw prev first dk = Ret (r, dk')
      \<and> (length data - bw \<le> card (free_clusters b dk) * cluster_len b
           \<longrightarrow> (data = [] \<longrightarrow> free_clusters b dk \<noteq> {}) \<longrightarrow> (\<exists>f. r = Inr f))"
proof (induction n arbitrary: bw prev first dk)
  case (Suc n)
  let ?F = "card (free_clusters b dk)" and ?k = "round_len b data bw"
  obtain free where ff: "find_free_cluster b dk = Ret free" and lf: "least_free (fat_size b) (get_fat_entry b dk) = free"
    using find_free_cluster_eq [of b dk] g by (simp add: geom_ok_def)
  consider "\<not> (bw < length data \<or> data = [])" | "bw < length data \<or> data = []" "free = None"
    | cur where "bw < length data \<or> data = []" "free = Some cur" by (cases free) auto
  then show ?case
  proof cases
    case 1
    then show ?thesis by (auto simp: write_chain_step)
  next
    case 2
    then have "free_clusters b dk = {}" using least_free_None lf by (fastforce simp: free_clusters_def)
    then have "\<not> (length data - bw \<le> ?F * cluster_len b \<and> (data = [] \<longrightarrow> free_clusters b dk \<noteq> {}))" using 2(1) by auto
    then show ?thesis using ff 2 by (auto simp: write_chain_step)
  next
    case (3 cur)
    define first' where "first' = (case prev of None \<Rightarrow> cur | Some _ \<Rightarrow> first)"
    obtain dk1 where R: "round_ok b data bw prev cur dk dk1" and step: "write_chain (Suc n) b data bw prev first dk =
        (if data = [] then Ret (Inr first', dk1) else write_chain n b data (bw + ?k) (Some cur) first' dk1)"
      unfolding first'_def by (rule write_chain_round [OF g Suc.prems(1-4) 3(1) ff [unfolded 3(2)]]) blast
    note ok = R [unfolded round_ok_def]
    have F: "?F = Suc (card (free_clusters b dk1))"
      using free_clusters_round [OF g _ _ Suc.prems(3), of cur dk1] ok card.remove [of "free_clusters b dk" cur] by simp
    then have "card (free_clusters b dk1) < n" "bw + ?k \<le> length data" using Suc.prems(4,5) by (simp_all add: round_len_def)
    then obtain r dk' where w: "data \<noteq> [] \<Longrightarrow> write_chain n b data (bw + ?k) (Some cur) first' dk1 = Ret (r, dk')"
        "data \<noteq> [] \<Longrightarrow> length data - (bw + ?k) \<le> card (free_clusters b dk1) * cluster_len b \<Longrightarrow> \<exists>f. r = Inr f"
      using Suc.IH [of dk1 "Some cur" "bw + ?k" first'] ok by blast
    moreover have "length data - (bw + ?k) \<le> card (free_clusters b dk1) * cluster_len b" if "length data - bw \<le> ?F * cluster_len b"
      using that F by (simp add: round_len_def)
    ultimately show ?thesis using step by (cases "data = []") auto
  qed
qed simp

lemma card_free_clusters: "card (free_clusters b dk) \<le> 65536"
  using card_mono [of UNIV "free_clusters b dk"] by (simp add: card_word)

end
