(* ===== verification/Fat16_Dir.thy ===== *)
theory Fat16_Dir
  imports Fat16_Data
begin

text \<open>
  The root directory as an array of 32-byte slots: what the two scans of the code return in terms of
  slot numbers, and what writing one entry does to every slot.
\<close>

section \<open>Slots\<close>

definition n_slots :: "bpb \<Rightarrow> nat" where
  "n_slots b = root_secs b * 16"

definition slot_sector :: "bpb \<Rightarrow> nat \<Rightarrow> nat" where
  "slot_sector b i = root_start b + i div 16"

definition slot_offset :: "nat \<Rightarrow> nat" where
  "slot_offset i = i mod 16 * 32"

definition slot_first :: "bpb \<Rightarrow> disk \<Rightarrow> nat \<Rightarrow> u8" where
  "slot_first b dk i = dk (slot_sector b i) ! slot_offset i"

definition slot_entry :: "bpb \<Rightarrow> disk \<Rightarrow> nat \<Rightarrow> directory_entry" where
  "slot_entry b dk i = read_entry (dk (slot_sector b i)) (slot_offset i)"

definition slot_live :: "bpb \<Rightarrow> disk \<Rightarrow> nat \<Rightarrow> bool" where
  "slot_live b dk i \<longleftrightarrow> i < n_slots b \<and> slot_first b dk i \<noteq> 0x00 \<and> slot_first b dk i \<noteq> 0xE5"

text \<open>The slot a lookup stops at: the first that is unused since formatting, or holds the name.\<close>

definition slot_stops :: "bpb \<Rightarrow> disk \<Rightarrow> u8 list \<Rightarrow> u8 list \<Rightarrow> nat \<Rightarrow> bool" where
  "slot_stops b dk name ext i \<longleftrightarrow> slot_first b dk i = 0x00 \<or> slot_first b dk i \<noteq> 0xE5
     \<and> filename (slot_entry b dk i) = name \<and> extension (slot_entry b dk i) = ext"

definition lookup_slot :: "bpb \<Rightarrow> disk \<Rightarrow> u8 list \<Rightarrow> u8 list \<Rightarrow> nat option" where
  "lookup_slot b dk name ext =
    (case find (slot_stops b dk name ext) [0..<n_slots b] of
       None \<Rightarrow> None
     | Some i \<Rightarrow> if slot_first b dk i = 0x00 then None else Some i)"

definition free_slot :: "bpb \<Rightarrow> disk \<Rightarrow> nat option" where
  "free_slot b dk =
     find (\<lambda>i. slot_first b dk i = 0x00 \<or> slot_first b dk i = 0xE5) [0..<n_slots b]"

section \<open>Directory entries as bytes\<close>

definition entry_ok :: "directory_entry \<Rightarrow> bool" where
  "entry_ok e \<longleftrightarrow> length (filename e) = 8 \<and> length (extension e) = 3"

lemma length_entry_bytes [simp]: "entry_ok e \<Longrightarrow> length (entry_bytes e) = 32"
  by (simp add: entry_ok_def entry_bytes_def)

lemma entry_ok_read_entry: "off + 32 \<le> length buf \<Longrightarrow> entry_ok (read_entry buf off)"
  by (simp add: entry_ok_def read_entry_def)

lemma read_entry_bytes:
  assumes "entry_ok e"
  shows "read_entry (entry_bytes e) 0 = e"
proof -
  obtain a b c d e' f g h where n: "filename e = [a, b, c, d, e', f, g, h]"
    using assms by (auto simp: entry_ok_def length_Suc_conv numeral_eq_Suc)
  obtain x y z where x: "extension e = [x, y, z]"
    using assms by (auto simp: entry_ok_def length_Suc_conv numeral_eq_Suc)
  show ?thesis
    by (rule directory_entry.equality)
      (simp_all add: read_entry_def entry_bytes_def n x le16_at_def le32_at_def to_le16_def to_le32_def
        subslice_def)
qed

lemma read_entry_cong:
  assumes "off + 32 \<le> length buf" "off' + 32 \<le> length buf'"
    and "\<And>k. k < 32 \<Longrightarrow> buf ! (off + k) = buf' ! (off' + k)"
  shows "read_entry buf off = read_entry buf' off'"
proof -
  have sl: "subslice buf (off + j) n = subslice buf' (off' + j) n" if "j + n \<le> 32" for j n
    using that assms by (intro nth_equalityI) (auto simp: nth_subslice add.assoc)
  have "buf ! (k + off) = buf' ! (k + off')" if "k < 32" for k
    using that assms(3) [of k] by (simp add: add.commute)
  then show ?thesis
    using assms(3) assms(3) [of 0] sl [of 0 8] sl [of 8 3] by (simp add: read_entry_def le16_at_def le32_at_def add.assoc)
qed

lemma read_entry_copy_at:
  assumes "entry_ok e" "off + 32 \<le> length buf"
  shows "read_entry (copy_at buf off (entry_bytes e)) off = e"
proof -
  have "read_entry (copy_at buf off (entry_bytes e)) off = read_entry (entry_bytes e) 0"
    using assms by (intro read_entry_cong) (simp_all add: nth_copy_at)
  then show ?thesis using assms by (simp add: read_entry_bytes)
qed

section \<open>The scans\<close>

lemma slot_of: "k < 16 \<Longrightarrow> slot_sector b (s * 16 + k) = root_start b + s \<and> slot_offset (s * 16 + k) = k * 32"
  by (simp add: slot_sector_def slot_offset_def)

lemma slot_offset_bound: "slot_offset i + 32 \<le> 512"
proof -
  have "i mod 16 < 16" by simp
  then show ?thesis unfolding slot_offset_def by linarith
qed

lemma slot_offset_less [simp]: "slot_offset i < 512"
  using slot_offset_bound [of i] by linarith

lemma root_sector_bound: "geom_ok b \<Longrightarrow> s < root_secs b \<Longrightarrow> root_start b + s < 2 ^ 28"
  using root_start_bound [of b] root_secs_bound [of b] by simp

lemma slot_sector_bound: "geom_ok b \<Longrightarrow> i < n_slots b \<Longrightarrow> slot_sector b i < 2 ^ 28"
  unfolding slot_sector_def n_slots_def
  by (rule root_sector_bound) (simp_all add: less_mult_imp_div_less)

lemma sector_read_root:
  assumes "geom_ok b" "s < root_secs b"
  shows "sector_read dk (root_dir_start b + of_nat s) = dk (root_start b + s)"
  using lba_plus_index [OF unat_root_dir_start root_sector_bound [OF assms]] by (simp add: sector_read_def)

lemma slot_name:
  "filename (slot_entry b dk i) = subslice (dk (slot_sector b i)) (slot_offset i) 8"
  "extension (slot_entry b dk i) = subslice (dk (slot_sector b i)) (slot_offset i + 8) 3"
  by (simp_all add: slot_entry_def read_entry_def)

lemma scan_sector_eq:
  "scan_sector buf name ext is =
    (case find (\<lambda>i. buf ! (i * 32) = 0 \<or> buf ! (i * 32) \<noteq> 0xE5
        \<and> subslice buf (i * 32) 8 = name \<and> subslice buf (i * 32 + 8) 3 = ext) is of
       None \<Rightarrow> Next | Some i \<Rightarrow> if buf ! (i * 32) = 0 then Stop else Found (i * 32))"
  by (induction "is") (auto simp: Let_def)

text \<open>Scanning a directory sector is scanning its sixteen slots.\<close>

lemma scan_root_sector:
  assumes "geom_ok b" "s < root_secs b"
  shows "scan_sector (sector_read dk (root_dir_start b + of_nat s)) name ext [0..<16] =
    (case find (\<lambda>i. slot_stops b dk name ext (s * 16 + i)) [0..<16] of
       None \<Rightarrow> Next
     | Some i \<Rightarrow> if slot_first b dk (s * 16 + i) = 0 then Stop else Found (i * 32))"
proof -
  have "find (\<lambda>i. dk (root_start b + s) ! (i * 32) = 0 \<or> dk (root_start b + s) ! (i * 32) \<noteq> 0xE5
        \<and> subslice (dk (root_start b + s)) (i * 32) 8 = name
        \<and> subslice (dk (root_start b + s)) (i * 32 + 8) 3 = ext) [0..<16]
      = find (\<lambda>i. slot_stops b dk name ext (s * 16 + i)) [0..<16]"
    by (rule find_cong) (simp_all add: slot_stops_def slot_first_def slot_name slot_of)
  then show ?thesis
    unfolding scan_sector_eq sector_read_root [OF assms]
    by (auto split: option.split dest!: find_SomeD simp: slot_first_def slot_of)
qed

lemma find_location_from_eq:
  assumes "geom_ok b"
  shows "find_location_from dk (root_dir_start b) name ext [0..<root_secs b] =
    map_option (\<lambda>i. (root_dir_start b + of_nat (i div 16), slot_offset i, slot_entry b dk i))
      (lookup_slot b dk name ext)"
proof -
  let ?G = "\<lambda>i. if slot_first b dk i = 0 then None
    else Some (root_dir_start b + of_nat (i div 16), slot_offset i, slot_entry b dk i)"
  have "find_location_from dk (root_dir_start b) name ext (s # ss) =
      (case find (\<lambda>i. slot_stops b dk name ext (s * 16 + i)) [0..<16] of
         None \<Rightarrow> find_location_from dk (root_dir_start b) name ext ss | Some i \<Rightarrow> ?G (s * 16 + i))"
    if "s < root_secs b" for s ss
    unfolding find_location_from.simps Let_def scan_root_sector [OF assms that]
    using sector_read_root [OF assms that]
    by (auto split: option.split dest!: find_SomeD simp: slot_of slot_entry_def)
  from nested_find [where m = "root_secs b" and s = 0, OF this] show ?thesis
    by (auto simp: lookup_slot_def n_slots_def split: option.split)
qed

lemma find_file_from_eq:
  "find_file_from dk start name ext ss = map_option (snd \<circ> snd) (find_location_from dk start name ext ss)"
  by (induction ss) (auto simp: Let_def split: scan.split)

lemma find_file_location_eq:
  assumes "geom_ok b"
  shows "find_file_location b dk name ext =
    Ret (map_option (\<lambda>i. (root_dir_start b + of_nat (i div 16), slot_offset i, slot_entry b dk i))
      (lookup_slot b dk name ext))"
  using root_dir_sectors_Ret [OF assms] find_location_from_eq [OF assms]
  by (auto simp: find_file_location_def)

lemma find_file_eq:
  assumes "geom_ok b"
  shows "find_file b dk name ext = Ret (map_option (slot_entry b dk) (lookup_slot b dk name ext))"
  using root_dir_sectors_Ret [OF assms] find_location_from_eq [OF assms]
  by (auto simp: find_file_def find_file_from_eq option.map_comp comp_def)

lemma find_empty_root_slot_eq:
  assumes "geom_ok b"
  shows "find_empty_root_slot b dk =
    Ret (map_option (\<lambda>i. (root_dir_start b + of_nat (i div 16), slot_offset i)) (free_slot b dk))"
proof -
  have "find_slot_from dk (root_dir_start b) (s # ss) =
      (case find (\<lambda>i. slot_first b dk (s * 16 + i) = 0 \<or> slot_first b dk (s * 16 + i) = 0xE5) [0..<16] of
         None \<Rightarrow> find_slot_from dk (root_dir_start b) ss
       | Some i \<Rightarrow> Some (root_dir_start b + of_nat ((s * 16 + i) div 16), slot_offset (s * 16 + i)))"
    if s: "s < root_secs b" for s ss
  proof -
    have "find (\<lambda>i. dk (root_start b + s) ! (i * 32) = 0 \<or> dk (root_start b + s) ! (i * 32) = 0xE5) [0..<16]
        = find (\<lambda>i. slot_first b dk (s * 16 + i) = 0 \<or> slot_first b dk (s * 16 + i) = 0xE5) [0..<16]"
      by (rule find_cong) (simp_all add: slot_first_def slot_of)
    then show ?thesis
      unfolding find_slot_from.simps Let_def sector_read_root [OF assms s] find_map comp_def
      by (auto split: option.split dest!: find_SomeD simp: slot_of)
  qed
  from nested_find [where m = "root_secs b" and s = 0, OF this] show ?thesis
    using root_dir_sectors_Ret [OF assms]
    by (auto simp: find_empty_root_slot_def free_slot_def n_slots_def split: option.split)
qed

section \<open>Writing an entry\<close>

abbreviation put_slot :: "bpb \<Rightarrow> nat \<Rightarrow> directory_entry \<Rightarrow> disk \<Rightarrow> disk" where
  "put_slot b i \<equiv> put_entry (root_dir_start b + of_nat (i div 16)) (slot_offset i)"

lemma slot_first_eq: "disk_ok dk \<Longrightarrow> slot_first b dk i = filename (slot_entry b dk i) ! 0"
  using slot_offset_bound [of i] by (simp add: slot_first_def slot_name nth_subslice disk_ok_def)

lemma entry_ok_slot: "disk_ok dk \<Longrightarrow> entry_ok (slot_entry b dk i)"
  unfolding slot_entry_def using slot_offset_bound [of i]
  by (intro entry_ok_read_entry) (simp add: disk_ok_def)

lemma put_slot_eq:
  assumes "geom_ok b" "i < n_slots b"
  shows "put_slot b i e dk =
    dk(slot_sector b i := copy_at (dk (slot_sector b i)) (slot_offset i) (entry_bytes e))"
proof -
  have "i div 16 < root_secs b" using assms(2) by (simp add: n_slots_def less_mult_imp_div_less)
  then have "lba_index (root_dir_start b + of_nat (i div 16)) = slot_sector b i"
    unfolding slot_sector_def
    by (intro lba_plus_index [OF unat_root_dir_start] root_sector_bound [OF assms(1)])
  then show ?thesis by (simp add: put_entry_def sector_read_def sector_write_def)
qed

lemma disk_ok_put_slot:
  "geom_ok b \<Longrightarrow> i < n_slots b \<Longrightarrow> disk_ok dk \<Longrightarrow> entry_ok e \<Longrightarrow> disk_ok (put_slot b i e dk)"
  using slot_offset_bound [of i] by (simp add: put_slot_eq disk_ok_def)

lemma slot_entry_put_slot:
  assumes "geom_ok b" "i < n_slots b" "disk_ok dk" "entry_ok e"
  shows "slot_entry b (put_slot b i e dk) j = (if j = i then e else slot_entry b dk j)"
proof -
  let ?buf = "dk (slot_sector b i)"
  have l: "length ?buf = 512" using assms(3) by (simp add: disk_ok_def)
  consider "j = i" | "slot_sector b j \<noteq> slot_sector b i" | "j \<noteq> i" "slot_sector b j = slot_sector b i"
    by blast
  then show ?thesis
  proof cases
    case 1
    then show ?thesis
      using assms l slot_offset_bound [of i] by (simp add: put_slot_eq slot_entry_def read_entry_copy_at)
  next
    case 2
    then show ?thesis using assms by (auto simp: put_slot_eq slot_entry_def)
  next
    case 3
    then have "j mod 16 \<noteq> i mod 16"
      by (metis add_left_cancel div_mult_mod_eq slot_sector_def)
    then have "slot_offset j + 32 \<le> slot_offset i \<or> slot_offset i + 32 \<le> slot_offset j"
      unfolding slot_offset_def by linarith
    then have "read_entry (copy_at ?buf (slot_offset i) (entry_bytes e)) (slot_offset j)
        = read_entry ?buf (slot_offset j)"
      using l assms(4) slot_offset_bound [of i] slot_offset_bound [of j]
      by (intro read_entry_cong) (auto simp: nth_copy_at)
    then show ?thesis using 3 assms by (simp add: put_slot_eq slot_entry_def)
  qed
qed

lemma slot_sector_range: "i < n_slots b \<Longrightarrow> root_start b \<le> slot_sector b i \<and> slot_sector b i < data_start b"
  by (simp add: slot_sector_def data_start_def n_slots_def less_mult_imp_div_less)

lemma put_slot_off:
  "geom_ok b \<Longrightarrow> i < n_slots b \<Longrightarrow> n < root_start b \<or> data_start b \<le> n \<Longrightarrow> put_slot b i e dk n = dk n"
  using slot_sector_range [of i b] by (auto simp: put_slot_eq)

text \<open>What the scans say about the slots they return.\<close>

lemma find_upt_SomeD: "find P [0..<n] = Some i \<Longrightarrow> i < n \<and> P i \<and> (\<forall>j<i. \<not> P j)"
  by (auto simp: find_Some_iff)

lemma lookup_slot_SomeD:
  "lookup_slot b dk name ext = Some i \<Longrightarrow> slot_live b dk i
     \<and> filename (slot_entry b dk i) = name \<and> extension (slot_entry b dk i) = ext
     \<and> (\<forall>j<i. slot_first b dk j \<noteq> 0)"
  by (auto simp: lookup_slot_def slot_live_def slot_stops_def split: option.splits if_splits dest!: find_upt_SomeD)

lemma free_slot_SomeD:
  "free_slot b dk = Some i \<Longrightarrow> i < n_slots b \<and> \<not> slot_live b dk i \<and> (\<forall>j<i. slot_live b dk j)"
  by (auto simp: free_slot_def slot_live_def dest!: find_upt_SomeD)

lemma free_slot_NoneD: "free_slot b dk = None \<Longrightarrow> i < n_slots b \<Longrightarrow> slot_live b dk i"
  by (auto simp: free_slot_def slot_live_def find_None_iff)

lemma lookup_slot_cong:
  "(\<And>i. i < n_slots b \<Longrightarrow> slot_first b dk' i = slot_first b dk i \<and> slot_entry b dk' i = slot_entry b dk i)
    \<Longrightarrow> lookup_slot b dk' name ext = lookup_slot b dk name ext"
proof -
  assume e: "\<And>i. i < n_slots b \<Longrightarrow> slot_first b dk' i = slot_first b dk i \<and> slot_entry b dk' i = slot_entry b dk i"
  then have "find (slot_stops b dk' name ext) [0..<n_slots b] = find (slot_stops b dk name ext) [0..<n_slots b]"
    by (intro find_cong) (auto simp: slot_stops_def)
  then show ?thesis
    using e by (auto simp: lookup_slot_def split: option.splits dest!: find_upt_SomeD)
qed

end
