(* ===== verification/Fat16_Files.thy ===== *)
theory Fat16_Files
  imports Fat16_Dir
begin

text \<open>
  The file system as a whole: an invariant of the disk, the finite map from names to contents that the
  disk implements, and the refinement of that map by \<open>write_new_file\<close> and \<open>overwrite_file\<close>.
\<close>

section \<open>The invariant\<close>

text \<open>
  \<open>slot_chain b dk i cs\<close>: the entry in slot \<open>i\<close> heads the chain \<open>cs\<close>, made of clusters of the volume
  and long enough for the recorded size.
\<close>

definition slot_chain :: "bpb \<Rightarrow> disk \<Rightarrow> nat \<Rightarrow> u16 list \<Rightarrow> bool" where
  "slot_chain b dk i cs \<longleftrightarrow> is_chain (get_fat_entry b dk) (cluster_low (slot_entry b dk i)) cs
     \<and> (\<forall>c\<in>set cs. valid_cluster b c)
     \<and> unat (file_size (slot_entry b dk i)) \<le> length cs * cluster_len b"

text \<open>No two live slots share a cluster.\<close>

definition chains_ok :: "bpb \<Rightarrow> disk \<Rightarrow> (nat \<Rightarrow> u16 list) \<Rightarrow> bool" where
  "chains_ok b dk ch \<longleftrightarrow> (\<forall>i. slot_live b dk i \<longrightarrow> slot_chain b dk i (ch i))
     \<and> (\<forall>i j. slot_live b dk i \<longrightarrow> slot_live b dk j \<longrightarrow> i \<noteq> j \<longrightarrow> set (ch i) \<inter> set (ch j) = {})"

text \<open>Nothing follows a slot that has never been used: the scans may stop there.\<close>

definition dir_terminated :: "bpb \<Rightarrow> disk \<Rightarrow> bool" where
  "dir_terminated b dk \<longleftrightarrow>
     (\<forall>i j. i < j \<longrightarrow> j < n_slots b \<longrightarrow> slot_first b dk i = 0 \<longrightarrow> slot_first b dk j = 0)"

definition fs_inv :: "bpb \<Rightarrow> disk \<Rightarrow> bool" where
  "fs_inv b dk \<longleftrightarrow> geom_ok b \<and> disk_ok dk \<and> reserved_ok b dk \<and> dir_terminated b dk
     \<and> (\<exists>ch. chains_ok b dk ch)"

text \<open>The map the disk implements: what looking a name up and reading the entry returns.\<close>

definition files :: "bpb \<Rightarrow> disk \<Rightarrow> u8 list \<times> u8 list \<Rightarrow> u8 list option" where
  "files b dk = (\<lambda>(name, ext).
    case find_file b dk name ext of
      Ret (Some e) \<Rightarrow> (case read_file b dk e of Ret bytes \<Rightarrow> Some bytes | _ \<Rightarrow> None)
    | _ \<Rightarrow> None)"

text \<open>\<open>keeps b dk S dk'\<close>: outside the clusters \<open>S\<close>, table and contents are as they were.\<close>

definition keeps :: "bpb \<Rightarrow> disk \<Rightarrow> u16 set \<Rightarrow> disk \<Rightarrow> bool" where
  "keeps b dk S dk' \<longleftrightarrow>
     (\<forall>c. unat c < fat_size b \<longrightarrow> c \<notin> S \<longrightarrow> get_fat_entry b dk' c = get_fat_entry b dk c)
     \<and> (\<forall>c. valid_cluster b c \<longrightarrow> c \<notin> S \<longrightarrow> cluster_bytes b dk' c = cluster_bytes b dk c)"

definition same_dir :: "bpb \<Rightarrow> disk \<Rightarrow> disk \<Rightarrow> bool" where
  "same_dir b dk dk' \<longleftrightarrow> (\<forall>n. root_start b \<le> n \<longrightarrow> n < data_start b \<longrightarrow> dk' n = dk n)"

section \<open>Framing\<close>

lemma keeps_trans: "keeps b dk S dk1 \<Longrightarrow> keeps b dk1 T dk2 \<Longrightarrow> keeps b dk (S \<union> T) dk2"
  by (simp add: keeps_def)

lemma keeps_chained:
  "geom_ok b \<Longrightarrow> chained b None dk cs dk' \<Longrightarrow> keeps b dk (set cs) dk'"
  by (auto simp: keeps_def chained_def grown_cluster_bytes)

lemma keeps_off_data:
  assumes "geom_ok b" "\<And>n. in_fat b n \<or> data_start b \<le> n \<Longrightarrow> dk' n = dk n"
  shows "keeps b dk {} dk'"
  using assms by (auto simp: keeps_def intro!: get_fat_entry_local cluster_bytes_cong dest: cluster_above_root)

lemma keeps_put_slot: "geom_ok b \<Longrightarrow> i < n_slots b \<Longrightarrow> keeps b dk {} (put_slot b i e dk)"
  by (rule keeps_off_data) (auto intro: put_slot_off dest: fat_below_root)

lemma same_dir_chained:
  assumes "geom_ok b" "chained b None dk cs dk'"
  shows "same_dir b dk dk'"
  unfolding same_dir_def
proof (intro allI impI)
  fix n assume n: "root_start b \<le> n" "n < data_start b"
  have "\<not> in_fat b n" using fat_below_root [OF assms(1), of n] n(1) by auto
  moreover have "n \<notin> cluster_sectors b c" for c using cluster_above_root [of n b c] n(2) by auto
  ultimately show "dk' n = dk n" using assms(2) by (simp add: chained_def grown_def)
qed

lemma same_dir_slots:
  assumes "same_dir b dk dk'" "i < n_slots b"
  shows "slot_entry b dk' i = slot_entry b dk i" "slot_first b dk' i = slot_first b dk i"
  using assms slot_sector_range [of i b] by (simp_all add: slot_entry_def slot_first_def same_dir_def)

lemma same_dir_live: "same_dir b dk dk' \<Longrightarrow> slot_live b dk' i = slot_live b dk i"
  using same_dir_slots(2) [of b dk dk' i] by (auto simp: slot_live_def)

lemma keeps_reserved:
  assumes "geom_ok b" "keeps b dk S dk'" "\<forall>c\<in>S. valid_cluster b c" "reserved_ok b dk"
  shows "reserved_ok b dk'"
proof -
  have "(0 :: u16) \<notin> S" "(1 :: u16) \<notin> S" using assms(3) by (auto simp: valid_cluster_def)
  moreover have "1 < fat_size b" using assms(1) by (simp add: geom_ok_def fat_size_def)
  ultimately show ?thesis using assms(2,4) by (simp add: reserved_ok_def keeps_def)
qed

text \<open>A chain that avoids the changed clusters is still there, with the same contents.\<close>

lemma keeps_chain:
  assumes "keeps b dk S dk'" "is_chain (get_fat_entry b dk) c cs" "\<forall>x\<in>set cs. valid_cluster b x" "set cs \<inter> S = {}"
  shows "is_chain (get_fat_entry b dk') c cs" "map (cluster_bytes b dk') cs = map (cluster_bytes b dk) cs"
proof -
  have "get_fat_entry b dk' x = get_fat_entry b dk x \<and> cluster_bytes b dk' x = cluster_bytes b dk x"
    if "x \<in> set cs" for x
    using assms(1,3,4) that by (auto simp: keeps_def valid_cluster_def)
  then show "is_chain (get_fat_entry b dk') c cs" "map (cluster_bytes b dk') cs = map (cluster_bytes b dk) cs"
    using assms(2) is_chain_cong [of cs "get_fat_entry b dk'" "get_fat_entry b dk" c] by auto
qed

lemma slot_chain_read:
  "geom_ok b \<Longrightarrow> disk_ok dk \<Longrightarrow> slot_chain b dk i cs \<Longrightarrow> read_file b dk (slot_entry b dk i)
     = Ret (take (unat (file_size (slot_entry b dk i))) (concat (map (cluster_bytes b dk) cs)))"
  by (simp add: slot_chain_def read_file_chain)

lemma chains_ok_update:
  assumes ok: "chains_ok b dk ch" and k: "keeps b dk S dk'"
    and others: "\<And>j. j \<noteq> i \<Longrightarrow> slot_live b dk' j \<Longrightarrow>
      slot_live b dk j \<and> slot_entry b dk' j = slot_entry b dk j \<and> set (ch j) \<inter> S = {}"
    and new: "slot_live b dk' i \<Longrightarrow> slot_chain b dk' i cs"
      "\<And>j. j \<noteq> i \<Longrightarrow> slot_live b dk' i \<Longrightarrow> slot_live b dk j \<Longrightarrow> set (ch j) \<inter> set cs = {}"
  shows "chains_ok b dk' (ch(i := cs))"
proof -
  have "slot_chain b dk' j (ch j)" if "j \<noteq> i" "slot_live b dk' j" for j
    using ok others [OF that] keeps_chain(1) [OF k, of "cluster_low (slot_entry b dk j)" "ch j"]
    by (auto simp: chains_ok_def slot_chain_def)
  moreover have "set (ch j) \<inter> set (ch l) = {}"
    if "j \<noteq> i" "l \<noteq> i" "j \<noteq> l" "slot_live b dk' j" "slot_live b dk' l" for j l
    using ok others that by (simp add: chains_ok_def)
  moreover have "set (ch j) \<inter> set cs = {}" if "j \<noteq> i" "slot_live b dk' i" "slot_live b dk' j" for j
    using new(2) others that by simp
  ultimately show ?thesis
    using new(1) unfolding chains_ok_def fun_upd_apply by (auto simp: Int_commute)
qed

lemma chain_fresh:
  assumes "chained b None dk cs dk'" "is_chain (get_fat_entry b dk) c cs'"
  shows "set cs' \<inter> set cs = {}"
  using assms is_chain_linked [OF assms(2)] by (auto simp: chained_def grown_def)

section \<open>Installing a chain in a slot\<close>

text \<open>
  What the two writers have in common. The old clusters \<open>old\<close> of slot \<open>i\<close> (none for a new file) have
  been freed in \<open>dk0\<close>, the new chain \<open>cs\<close> has been written in \<open>dk1\<close>, and the entry \<open>e\<close> that heads it
  goes to slot \<open>i\<close>.
\<close>

definition installs ::
  "bpb \<Rightarrow> disk \<Rightarrow> (nat \<Rightarrow> u16 list) \<Rightarrow> nat \<Rightarrow> u16 list \<Rightarrow> disk \<Rightarrow> u16 list \<Rightarrow> disk \<Rightarrow> directory_entry \<Rightarrow> u8 list \<Rightarrow> bool" where
  "installs b dk ch i old dk0 cs dk1 e data \<longleftrightarrow>
     geom_ok b \<and> disk_ok dk \<and> reserved_ok b dk \<and> dir_terminated b dk \<and> chains_ok b dk ch
     \<and> i < n_slots b \<and> (\<forall>j<i. slot_first b dk j \<noteq> 0)
     \<and> keeps b dk (set old) dk0 \<and> same_dir b dk dk0 \<and> (\<forall>c\<in>set old. valid_cluster b c)
     \<and> (\<forall>j. j \<noteq> i \<longrightarrow> slot_live b dk j \<longrightarrow> set (ch j) \<inter> set old = {})
     \<and> chained b None dk0 cs dk1 \<and> filled b data cs dk1 \<and> cs \<noteq> []
     \<and> entry_ok e \<and> filename e ! 0 \<noteq> 0 \<and> filename e ! 0 \<noteq> 0xE5
     \<and> cluster_low e = hd cs \<and> unat (file_size e) = length data"

lemma installsD:
  assumes "installs b dk ch i old dk0 cs dk1 e data"
  shows "geom_ok b" "disk_ok dk" "reserved_ok b dk" "dir_terminated b dk" "chains_ok b dk ch"
    "i < n_slots b" "\<And>j. j < i \<Longrightarrow> slot_first b dk j \<noteq> 0"
    "keeps b dk (set old) dk0" "same_dir b dk dk0" "\<And>c. c \<in> set old \<Longrightarrow> valid_cluster b c"
    "\<And>j. j \<noteq> i \<Longrightarrow> slot_live b dk j \<Longrightarrow> set (ch j) \<inter> set old = {}"
    "chained b None dk0 cs dk1" "filled b data cs dk1" "cs \<noteq> []"
    "entry_ok e" "filename e ! 0 \<noteq> 0" "filename e ! 0 \<noteq> 0xE5"
    "cluster_low e = hd cs" "unat (file_size e) = length data"
    "disk_ok dk1" "\<And>c. c \<in> set cs \<Longrightarrow> valid_cluster b c" "is_chain (get_fat_entry b dk1) (hd cs) cs"
  using assms by (simp_all add: installs_def chained_def grown_def)

lemma installs_slots:
  assumes "installs b dk ch i old dk0 cs dk1 e data" and "j < n_slots b"
  shows "slot_entry b (put_slot b i e dk1) j = (if j = i then e else slot_entry b dk j)"
    and "slot_first b (put_slot b i e dk1) j = (if j = i then filename e ! 0 else slot_first b dk j)"
proof -
  note I = installsD [OF assms(1)]
  have sd: "same_dir b dk dk1"
    using I(9) same_dir_chained [OF I(1,12)] by (simp add: same_dir_def)
  show e: "slot_entry b (put_slot b i e dk1) j = (if j = i then e else slot_entry b dk j)"
    using slot_entry_put_slot [OF I(1,6,20,15), of j] same_dir_slots(1) [OF sd assms(2)] by simp
  show "slot_first b (put_slot b i e dk1) j = (if j = i then filename e ! 0 else slot_first b dk j)"
    using e slot_first_eq [OF disk_ok_put_slot [OF I(1,6,20,15)], of b j] slot_first_eq [OF I(2), of b j] by simp
qed

lemma installs_keeps:
  assumes "installs b dk ch i old dk0 cs dk1 e data"
  shows "keeps b dk (set old \<union> set cs) (put_slot b i e dk1)"
proof -
  note I = installsD [OF assms]
  show ?thesis
    using keeps_trans [OF keeps_trans [OF I(8) keeps_chained [OF I(1,12)]] keeps_put_slot [OF I(1,6)]] by simp
qed

lemma installs_disjoint:
  assumes "installs b dk ch i old dk0 cs dk1 e data" "slot_live b dk j" "j \<noteq> i"
  shows "set (ch j) \<inter> (set old \<union> set cs) = {}"
proof -
  note I = installsD [OF assms(1)]
  have c: "slot_chain b dk j (ch j)" "set (ch j) \<inter> set old = {}"
    using I(5,11) assms(2,3) by (auto simp: chains_ok_def)
  then have "is_chain (get_fat_entry b dk0) (cluster_low (slot_entry b dk j)) (ch j)"
    by (intro keeps_chain(1) [OF I(8)]) (simp_all add: slot_chain_def)
  then show ?thesis using chain_fresh [OF I(12)] c(2) by blast
qed

lemma installs_new_chain:
  assumes "installs b dk ch i old dk0 cs dk1 e data"
  shows "slot_chain b (put_slot b i e dk1) i cs"
    and "take (length data) (concat (map (cluster_bytes b (put_slot b i e dk1)) cs)) = data"
proof -
  let ?dk = "put_slot b i e dk1"
  note I = installsD [OF assms]
  have m: "map (cluster_bytes b ?dk) cs = map (cluster_bytes b dk1) cs" "is_chain (get_fat_entry b ?dk) (hd cs) cs"
    using keeps_chain [OF keeps_put_slot [OF I(1,6)] I(22)] I(21) by auto
  show "take (length data) (concat (map (cluster_bytes b ?dk) cs)) = data"
    unfolding m(1) using I(13) by (simp add: filled_def)
  have "slot_entry b ?dk i = e" using installs_slots(1) [OF assms I(6)] by simp
  then show "slot_chain b ?dk i cs"
    using m I(13,18,19,21) by (simp add: slot_chain_def filled_def)
qed

lemma installs_disk_ok:
  "installs b dk ch i old dk0 cs dk1 e data \<Longrightarrow> disk_ok (put_slot b i e dk1)"
  by (intro disk_ok_put_slot) (auto dest: installsD(1,6,15,20))

lemma installs_inv:
  assumes "installs b dk ch i old dk0 cs dk1 e data"
  shows "fs_inv b (put_slot b i e dk1)"
proof -
  let ?dk = "put_slot b i e dk1"
  note I = installsD [OF assms] and slots = installs_slots [OF assms]
  have live: "slot_live b ?dk j \<longleftrightarrow> slot_live b dk j" if "j \<noteq> i" for j
    using slots(2) [of j] that by (auto simp: slot_live_def)
  have "chains_ok b ?dk (ch(i := cs))"
  proof (rule chains_ok_update [OF I(5) installs_keeps [OF assms]])
    show "slot_live b dk j \<and> slot_entry b ?dk j = slot_entry b dk j \<and> set (ch j) \<inter> (set old \<union> set cs) = {}"
      if "j \<noteq> i" "slot_live b ?dk j" for j
      using that live [of j] installs_disjoint [OF assms, of j] slots(1) [of j] by (simp add: slot_live_def)
    show "slot_chain b ?dk i cs" by (rule installs_new_chain(1) [OF assms])
    show "set (ch j) \<inter> set cs = {}" if "j \<noteq> i" "slot_live b dk j" for j
      using that installs_disjoint [OF assms, of j] by auto
  qed
  moreover have "dir_terminated b ?dk"
    unfolding dir_terminated_def
  proof (intro allI impI)
    fix j l assume jl: "j < l" "l < n_slots b" "slot_first b ?dk j = 0"
    have j: "j \<noteq> i" "slot_first b dk j = 0"
      using jl slots(2) [of j] I(16) by (auto split: if_splits)
    then have "l \<noteq> i" using jl I(7) by auto
    then show "slot_first b ?dk l = 0"
      using j jl slots(2) [of l] I(4) by (auto simp: dir_terminated_def)
  qed
  moreover have "reserved_ok b ?dk"
    using I(10,21) by (intro keeps_reserved [OF I(1) installs_keeps [OF assms] _ I(3)]) auto
  ultimately show ?thesis using I(1) installs_disk_ok [OF assms] by (auto simp: fs_inv_def)
qed

section \<open>The map after an installation\<close>

lemma files_eq:
  "geom_ok b \<Longrightarrow> files b dk (name, ext) =
    (case lookup_slot b dk name ext of
       None \<Rightarrow> None
     | Some i \<Rightarrow> (case read_file b dk (slot_entry b dk i) of Ret bytes \<Rightarrow> Some bytes | _ \<Rightarrow> None))"
  by (simp add: files_def find_file_eq split: option.split)

lemma lookup_slot_Some_iff:
  "lookup_slot b dk name ext = Some i \<longleftrightarrow>
     i < n_slots b \<and> slot_first b dk i \<noteq> 0 \<and> slot_stops b dk name ext i
     \<and> (\<forall>j<i. \<not> slot_stops b dk name ext j)"
proof -
  have "find (slot_stops b dk name ext) [0..<n_slots b] = Some i \<longleftrightarrow>
      i < n_slots b \<and> slot_stops b dk name ext i \<and> (\<forall>j<i. \<not> slot_stops b dk name ext j)"
    by (auto simp: find_Some_iff)
  then show ?thesis by (auto simp: lookup_slot_def split: option.splits if_splits)
qed

lemma installs_read_other:
  assumes "installs b dk ch i old dk0 cs dk1 e data" "slot_live b dk j" "j \<noteq> i"
  shows "read_file b (put_slot b i e dk1) (slot_entry b dk j) = read_file b dk (slot_entry b dk j)"
proof -
  note I = installsD [OF assms(1)]
  have c: "slot_chain b dk j (ch j)" using I(5) assms(2) by (simp add: chains_ok_def)
  have k: "is_chain (get_fat_entry b (put_slot b i e dk1)) (cluster_low (slot_entry b dk j)) (ch j)"
    "map (cluster_bytes b (put_slot b i e dk1)) (ch j) = map (cluster_bytes b dk) (ch j)"
    using keeps_chain [OF installs_keeps [OF assms(1)], of "cluster_low (slot_entry b dk j)" "ch j"]
      installs_disjoint [OF assms] c by (simp_all add: slot_chain_def)
  show ?thesis
    unfolding slot_chain_read [OF I(1,2) c] read_file_chain [OF I(1) installs_disk_ok [OF assms(1)] k(1)] k(2) ..
qed

lemma installs_lookup_same:
  assumes "installs b dk ch i old dk0 cs dk1 e data"
    and new: "\<forall>j<i. \<not> slot_stops b dk (filename e) (extension e) j"
  shows "lookup_slot b (put_slot b i e dk1) (filename e) (extension e) = Some i"
proof -
  note I = installsD [OF assms(1)]
  have "\<not> slot_stops b (put_slot b i e dk1) (filename e) (extension e) j" if "j < i" for j
    using that new I(6) installs_slots [OF assms(1), of j] by (auto simp: slot_stops_def)
  then show ?thesis
    using I(6,16,17) installs_slots [OF assms(1) I(6)] by (simp add: lookup_slot_Some_iff slot_stops_def)
qed

lemma installs_lookup_other:
  assumes "installs b dk ch i old dk0 cs dk1 e data"
    and slot: "slot_live b dk i \<Longrightarrow> filename (slot_entry b dk i) = filename e \<and> extension (slot_entry b dk i) = extension e"
    and other: "(name, ext) \<noteq> (filename e, extension e)"
  shows "lookup_slot b (put_slot b i e dk1) name ext = lookup_slot b dk name ext"
proof -
  let ?dk = "put_slot b i e dk1"
  note I = installsD [OF assms(1)]
  have st: "slot_stops b ?dk name ext j = (j \<noteq> i \<and> slot_stops b dk name ext j)" if "j < n_slots b" for j
    using that installs_slots [OF assms(1), of j] I(16,17) other by (auto simp: slot_stops_def)
  have fi: "slot_first b ?dk j = slot_first b dk j" if "j < n_slots b" "j \<noteq> i" for j
    using that installs_slots(2) [OF assms(1), of j] by simp
  have i: "slot_first b dk i = 0" if "slot_stops b dk name ext i"
    using that slot other I(6) by (auto simp: slot_stops_def slot_live_def)
  have after: "slot_first b dk l = 0" if "slot_stops b dk name ext i" "i < l" "l < n_slots b" for l
    using that I(4) i unfolding dir_terminated_def by blast
  have "lookup_slot b ?dk name ext = Some l \<longleftrightarrow> lookup_slot b dk name ext = Some l" for l
  proof (cases "l < n_slots b")
    case True
    then have "(\<forall>j<l. \<not> slot_stops b ?dk name ext j) \<longleftrightarrow> (\<forall>j<l. j \<noteq> i \<longrightarrow> \<not> slot_stops b dk name ext j)"
      using st by auto
    then show ?thesis
      unfolding lookup_slot_Some_iff st [OF True] using True fi [OF True] i after [of l] by (cases "l = i") auto
  qed (simp add: lookup_slot_Some_iff)
  then show ?thesis by (metis not_Some_eq)
qed

lemma installs_lookup_earlier:
  assumes "installs b dk ch i old dk0 cs dk1 e data" and j: "j < i" "slot_stops b dk name ext j"
  shows "lookup_slot b (put_slot b i e dk1) name ext = lookup_slot b dk name ext"
proof -
  let ?dk = "put_slot b i e dk1"
  note I = installsD [OF assms(1)]
  have same: "slot_stops b ?dk name ext l = slot_stops b dk name ext l" "slot_first b ?dk l = slot_first b dk l" if "l < i" for l
    using that I(6) installs_slots [OF assms(1), of l] by (auto simp: slot_stops_def)
  have "lookup_slot b ?dk name ext = Some l \<longleftrightarrow> lookup_slot b dk name ext = Some l" for l
    using j same [of j] same [of l] same by (cases "l < i") (auto simp: lookup_slot_Some_iff)
  then show ?thesis by (metis not_Some_eq)
qed

lemma installs_files_other:
  assumes "installs b dk ch i old dk0 cs dk1 e data" and "lookup_slot b (put_slot b i e dk1) name ext = lookup_slot b dk name ext"
    and "lookup_slot b dk name ext \<noteq> Some i"
  shows "files b (put_slot b i e dk1) (name, ext) = files b dk (name, ext)"
proof -
  note I = installsD [OF assms(1)]
  have "read_file b (put_slot b i e dk1) (slot_entry b (put_slot b i e dk1) j) = read_file b dk (slot_entry b dk j)"
    if "lookup_slot b dk name ext = Some j" for j
    using that assms(3) lookup_slot_SomeD [OF that] installs_read_other [OF assms(1), of j] installs_slots(1) [OF assms(1), of j]
    by (auto simp: slot_live_def)
  then show ?thesis using assms(2) by (auto simp: files_eq [OF I(1)] split: option.split)
qed

text \<open>The whole step: the invariant is kept and the map gains exactly one binding.\<close>

lemma installs_files:
  assumes "installs b dk ch i old dk0 cs dk1 e data"
    and slot: "slot_live b dk i \<Longrightarrow> filename (slot_entry b dk i) = filename e \<and> extension (slot_entry b dk i) = extension e"
    and new: "\<forall>j<i. \<not> slot_stops b dk (filename e) (extension e) j"
  shows "files b (put_slot b i e dk1) = (files b dk)((filename e, extension e) \<mapsto> data)"
proof (rule ext, clarify)
  fix name ext
  let ?dk = "put_slot b i e dk1"
  note I = installsD [OF assms(1)]
  show "files b ?dk (name, ext) = ((files b dk)((filename e, extension e) \<mapsto> data)) (name, ext)"
  proof (cases "(name, ext) = (filename e, extension e)")
    case True
    have "read_file b ?dk e = Ret data"
      using slot_chain_read [OF I(1) installs_disk_ok [OF assms(1)] installs_new_chain(1) [OF assms(1)]]
        installs_slots(1) [OF assms(1) I(6)] installs_new_chain(2) [OF assms(1)] I(19) by simp
    then show ?thesis
      using True installs_lookup_same [OF assms(1) new] installs_slots(1) [OF assms(1) I(6)]
      by (simp add: files_eq [OF I(1)])
  next
    case False
    have "lookup_slot b dk name ext \<noteq> Some i" using lookup_slot_SomeD [of b dk name ext i] slot False by auto
    then show ?thesis
      using installs_files_other [OF assms(1) installs_lookup_other [OF assms(1) slot False]] False by auto
  qed
qed

text \<open>An entry after one with the same name is never found: the map does not change.\<close>

lemma installs_files_shadowed:
  assumes "installs b dk ch i old dk0 cs dk1 e data" and "\<not> slot_live b dk i"
    and j: "j < i" "slot_stops b dk (filename e) (extension e) j"
  shows "files b (put_slot b i e dk1) = files b dk"
proof (rule ext, clarify)
  fix name ext
  have i: "lookup_slot b dk name ext \<noteq> Some i" using lookup_slot_SomeD [of b dk name ext i] assms(2) by auto
  have "lookup_slot b (put_slot b i e dk1) name ext = lookup_slot b dk name ext"
    using installs_lookup_earlier [OF assms(1) j] installs_lookup_other [OF assms(1), of name ext] assms(2)
    by (cases "(name, ext) = (filename e, extension e)") auto
  then show "files b (put_slot b i e dk1) (name, ext) = files b dk (name, ext)"
    by (rule installs_files_other [OF assms(1) _ i])
qed

end
