(* ===== verification/Fat16_Ops.thy ===== *)
theory Fat16_Ops
  imports Fat16_Files
begin

text \<open>
  Total correctness of the two writers against the map of files: they always return, they keep the
  invariant, success adds one binding, and enough room means success.
\<close>

text \<open>No writer touches a sector before the table: the description of the volume stays.\<close>

definition same_boot :: "bpb \<Rightarrow> disk \<Rightarrow> disk \<Rightarrow> bool" where
  "same_boot b dk dk' \<longleftrightarrow> (\<forall>n<unat (reserved_sectors b). dk' n = dk n)"

section \<open>Clusters that leak\<close>

lemma leak_inv:
  assumes "fs_inv b dk" "chained b None dk cs dk'"
  shows "fs_inv b dk'" and "files b dk' = files b dk"
proof -
  obtain ch where inv: "geom_ok b" "disk_ok dk" "reserved_ok b dk" "dir_terminated b dk" "chains_ok b dk ch"
    using assms(1) by (auto simp: fs_inv_def)
  note k = keeps_chained [OF inv(1) assms(2)] and sd = same_dir_chained [OF inv(1) assms(2)]
  have dk': "disk_ok dk'" "\<And>c. c \<in> set cs \<Longrightarrow> valid_cluster b c"
    using assms(2) by (simp_all add: chained_def grown_def)
  have fresh: "set (ch j) \<inter> set cs = {}" if "slot_live b dk j" for j
    using that inv(5) by (intro chain_fresh [OF assms(2)]) (auto simp: chains_ok_def slot_chain_def)
  have "chains_ok b dk' (ch(n_slots b := []))"
    using fresh same_dir_slots(1) [OF sd] same_dir_live [OF sd]
    by (intro chains_ok_update [OF inv(5) k]) (auto simp: slot_live_def)
  moreover have "reserved_ok b dk'" using keeps_reserved [OF inv(1) k _ inv(3)] dk'(2) by simp
  moreover have "dir_terminated b dk'"
    using inv(4) same_dir_slots(2) [OF sd] by (simp add: dir_terminated_def)
  ultimately show "fs_inv b dk'" using inv(1) dk'(1) by (auto simp: fs_inv_def)
  have read: "read_file b dk' (slot_entry b dk' j) = read_file b dk (slot_entry b dk j)" if "slot_live b dk j" for j
  proof -
    have c: "slot_chain b dk j (ch j)" using that inv(5) by (simp add: chains_ok_def)
    then have k': "is_chain (get_fat_entry b dk') (cluster_low (slot_entry b dk j)) (ch j)"
      "map (cluster_bytes b dk') (ch j) = map (cluster_bytes b dk) (ch j)"
      using keeps_chain [OF k, of "cluster_low (slot_entry b dk j)" "ch j"] fresh [OF that]
      by (simp_all add: slot_chain_def)
    have "slot_entry b dk' j = slot_entry b dk j"
      using that same_dir_slots(1) [OF sd] by (simp add: slot_live_def)
    then show ?thesis
      unfolding slot_chain_read [OF inv(1,2) c] using read_file_chain [OF inv(1) dk'(1) k'(1)] k'(2) by simp
  qed
  have "lookup_slot b dk' name ext = lookup_slot b dk name ext" for name ext
    using same_dir_slots [OF sd] by (intro lookup_slot_cong) simp
  then show "files b dk' = files b dk"
    using read lookup_slot_SomeD by (fastforce simp: files_eq [OF inv(1)] split: option.split)
qed

section \<open>Allocation from the start of a file\<close>

lemma write_chain_start:
  assumes "geom_ok b" "disk_ok dk" "reserved_ok b dk"
  obtains r dk' cs where "write_chain 65537 b data 0 None 0 dk = Ret (r, dk')" "chained b None dk cs dk'"
    "\<And>e. r = Inl e \<Longrightarrow> e = ''Disk full''"
    "\<And>f. r = Inr f \<Longrightarrow> f = hd cs \<and> filled b data cs dk' \<and> cs \<noteq> []"
    "length data \<le> card (free_clusters b dk) * cluster_len b \<Longrightarrow> free_clusters b dk \<noteq> {} \<Longrightarrow> \<exists>f. r = Inr f"
proof -
  have p: "prev_ok b dk None" by (simp add: prev_ok_def)
  have c: "card (free_clusters b dk) < 65537" using card_free_clusters [of b dk] by simp
  obtain r dk' where w: "write_chain 65537 b data 0 None 0 dk = Ret (r, dk')"
    and s: "length data \<le> card (free_clusters b dk) * cluster_len b \<Longrightarrow> free_clusters b dk \<noteq> {} \<Longrightarrow> \<exists>f. r = Inr f"
    using write_chain_total [OF assms p le0 c, of data 0] by (auto simp: imp_conjL)
  from write_chain_result [OF assms(1) w assms(2,3) p le0] obtain cs where
    c: "chained b None dk cs dk'" and "case r of Inl e \<Rightarrow> e = ''Disk full''
       | Inr f \<Rightarrow> f = (if cs \<noteq> [] then hd cs else 0) \<and> filled b data cs dk' \<and> cs \<noteq> []"
    by (cases r) auto
  then have "\<And>e. r = Inl e \<Longrightarrow> e = ''Disk full''"
      "\<And>f. r = Inr f \<Longrightarrow> f = hd cs \<and> filled b data cs dk' \<and> cs \<noteq> []"
    by simp_all
  then show ?thesis by (rule that [OF w c _ _ s])
qed

section \<open>Creating a file\<close>

lemma lookup_slot_None:
  assumes "lookup_slot b dk name ext = None" "\<forall>j<i. slot_first b dk j \<noteq> 0" "i < n_slots b" "j < i"
  shows "\<not> slot_stops b dk name ext j"
proof (cases "find (slot_stops b dk name ext) [0..<n_slots b]")
  case None
  then show ?thesis using assms(3,4) by (simp add: find_None_iff)
next
  case (Some l)
  then have "slot_first b dk l = 0" "\<forall>j<l. \<not> slot_stops b dk name ext j"
    using assms(1) by (auto simp: lookup_slot_def split: if_splits dest: find_upt_SomeD)
  then show ?thesis using assms(2,4) by (meson linorder_not_less order_less_le_trans)
qed

text \<open>An entry with the name stands before the first slot a new one can take.\<close>

definition shadowed :: "bpb \<Rightarrow> disk \<Rightarrow> u8 list \<Rightarrow> u8 list \<Rightarrow> bool" where
  "shadowed b dk name ext \<longleftrightarrow> (case (lookup_slot b dk name ext, free_slot b dk) of (Some j, Some i) \<Rightarrow> j < i | _ \<Rightarrow> False)"

lemma shadowed_iff:
  assumes "free_slot b dk = Some i"
  shows "shadowed b dk name ext \<longleftrightarrow> (\<exists>j<i. slot_stops b dk name ext j)"
proof (cases "lookup_slot b dk name ext")
  case None
  then show ?thesis using assms free_slot_SomeD [OF assms] lookup_slot_None [OF None, of i] by (auto simp: shadowed_def slot_live_def)
next
  case (Some j)
  have "j < i" if "l < i" "slot_stops b dk name ext l" for l
    using that Some by (metis linorder_not_less lookup_slot_Some_iff order_less_le_trans)
  moreover have "slot_stops b dk name ext j" using Some by (simp add: lookup_slot_Some_iff)
  ultimately show ?thesis using assms Some by (auto simp: shadowed_def)
qed

lemma write_new_file_cases:
  assumes inv: "fs_inv b dk"
    and ok: "length name = 8" "length ext = 3" "name ! 0 \<noteq> 0x00" "name ! 0 \<noteq> 0xE5" "length data < 2 ^ 32"
  obtains r dk' where "write_new_file b name ext data dk = Ret (r, dk')" "fs_inv b dk'"
    "r = Inr () \<Longrightarrow> files b dk' = (if shadowed b dk name ext then files b dk else (files b dk)((name, ext) \<mapsto> data))"
    "\<And>e. r = Inl e \<Longrightarrow> files b dk' = files b dk"
    "\<And>e. r = Inl e \<Longrightarrow> e = ''Root directory full'' \<and> free_slot b dk = None
       \<or> e = ''Disk full'' \<and> (card (free_clusters b dk) * cluster_len b < length data \<or> free_clusters b dk = {})"
proof -
  obtain ch where I: "geom_ok b" "disk_ok dk" "reserved_ok b dk" "dir_terminated b dk" "chains_ok b dk ch"
    using inv by (auto simp: fs_inv_def)
  show ?thesis
  proof (cases "free_slot b dk")
    case None
    then show ?thesis
      using inv by (intro that [of "Inl ''Root directory full''" dk])
        (simp_all add: write_new_file_def find_empty_root_slot_eq [OF I(1)])
  next
    case (Some i)
    note i = free_slot_SomeD [OF Some]
    obtain r dk1 cs where w: "write_chain 65537 b data 0 None 0 dk = Ret (r, dk1)" "chained b None dk cs dk1"
      "\<And>e. r = Inl e \<Longrightarrow> e = ''Disk full''"
      "\<And>f. r = Inr f \<Longrightarrow> f = hd cs \<and> filled b data cs dk1 \<and> cs \<noteq> []"
      "length data \<le> card (free_clusters b dk) * cluster_len b \<Longrightarrow> free_clusters b dk \<noteq> {} \<Longrightarrow> \<exists>f. r = Inr f"
      using write_chain_start [OF I(1-3), of data] by blast
    have run: "write_new_file b name ext data dk =
        Ret (case r of Inl e \<Rightarrow> (Inl e, dk1) | Inr f \<Rightarrow> (Inr (), put_slot b i (new_entry name ext f (length data)) dk1))"
      by (simp add: write_new_file_def find_empty_root_slot_eq [OF I(1)] Some w(1) split: sum.split)
    show ?thesis
    proof (cases r)
      case (Inl e)
      then have "e = ''Disk full''" "card (free_clusters b dk) * cluster_len b < length data \<or> free_clusters b dk = {}"
        using w(3) w(5) by (force simp: not_less)+
      then show ?thesis
        using run Inl leak_inv [OF inv w(2)] by (intro that [of "Inl e" dk1]) simp_all
    next
      case (Inr f)
      let ?e = "new_entry name ext f (length data)"
      have ins: "installs b dk ch i [] dk cs dk1 ?e data"
        using I i w(2) w(4) [OF Inr] ok
        by (auto simp: installs_def new_entry_def entry_ok_def slot_live_def keeps_def same_dir_def unat_of_nat_small)
      have "files b (put_slot b i ?e dk1) = (if shadowed b dk name ext then files b dk else (files b dk)((name, ext) \<mapsto> data))"
        using installs_files_shadowed [OF ins] installs_files [OF ins] i shadowed_iff [OF Some, of name ext]
        by (auto simp: new_entry_def)
      then show ?thesis
        using run Inr installs_inv [OF ins] by (intro that [of "Inr ()" "put_slot b i ?e dk1"]) auto
    qed
  qed
qed

lemma fresh_not_shadowed:
  "fs_inv b dk \<Longrightarrow> find_file b dk name ext = Ret None \<Longrightarrow> \<not> shadowed b dk name ext"
  by (auto simp: shadowed_def fs_inv_def find_file_eq)

lemma write_fresh_file_cases:
  assumes inv: "fs_inv b dk" and new: "find_file b dk name ext = Ret None"
    and ok: "length name = 8" "length ext = 3" "name ! 0 \<noteq> 0x00" "name ! 0 \<noteq> 0xE5" "length data < 2 ^ 32"
  obtains r dk' where "write_new_file b name ext data dk = Ret (r, dk')" "fs_inv b dk'"
    "r = Inr () \<Longrightarrow> files b dk' = (files b dk)((name, ext) \<mapsto> data)"
    "\<And>e. r = Inl e \<Longrightarrow> e = ''Root directory full'' \<and> free_slot b dk = None
       \<or> e = ''Disk full'' \<and> (card (free_clusters b dk) * cluster_len b < length data \<or> free_clusters b dk = {})"
proof (rule write_new_file_cases [OF inv ok])
  fix r dk'
  assume r: "write_new_file b name ext data dk = Ret (r, dk')" "fs_inv b dk'"
    and s: "r = Inr () \<Longrightarrow> files b dk' = (if shadowed b dk name ext then files b dk else (files b dk)((name, ext) \<mapsto> data))"
    and e: "\<And>e. r = Inl e \<Longrightarrow> e = ''Root directory full'' \<and> free_slot b dk = None
       \<or> e = ''Disk full'' \<and> (card (free_clusters b dk) * cluster_len b < length data \<or> free_clusters b dk = {})"
  show thesis by (rule that [OF r _ e]) (simp_all add: s fresh_not_shadowed [OF inv new])
qed

section \<open>Overwriting a file\<close>

lemma free_chain_start:
  assumes "geom_ok b" "disk_ok dk" "slot_chain b dk i old"
  obtains dk0 where "cluster_low (slot_entry b dk i) \<ge> 2"
    "free_cluster_chain b (cluster_low (slot_entry b dk i)) dk = Ret dk0" "disk_ok dk0"
    "keeps b dk (set old) dk0" "same_dir b dk dk0" "same_boot b dk dk0"
    "free_clusters b dk0 = free_clusters b dk \<union> set old"
proof -
  let ?c = "cluster_low (slot_entry b dk i)"
  have old: "is_chain (get_fat_entry b dk) ?c old" "\<forall>x\<in>set old. valid_cluster b x"
    using assms(3) by (simp_all add: slot_chain_def)
  have "?c \<ge> 2" using old(1) by (cases old) (auto simp: word_le_nat_alt)
  moreover obtain dk0 where d: "free_cluster_chain b ?c dk = Ret dk0" "disk_ok dk0" "off_fat b dk0 = off_fat b dk"
      "\<And>x. get_fat_entry b dk0 x = (if x \<in> set old then 0 else get_fat_entry b dk x)"
    using fat.free_walk_chain [of b dk ?c old 65537] old assms(2) is_chain_length [OF old(1)]
    by (auto simp: free_cluster_chain_def valid_cluster_def)
  have off: "dk0 n = dk n" if "\<not> in_fat b n" for n
    using fun_cong [OF d(3), of n] that by (auto simp: off_fat_def in_fat_def split: if_splits)
  then have "keeps b dk (set old) dk0"
    using d(4) cluster_not_fat [OF assms(1)] by (auto simp: keeps_def intro!: cluster_bytes_cong)
  moreover have "same_dir b dk dk0"
    using off fat_below_root [OF assms(1)] by (fastforce simp: same_dir_def)
  moreover have "same_boot b dk dk0" using off by (simp add: same_boot_def in_fat_def)
  moreover have "free_clusters b dk0 = free_clusters b dk \<union> set old"
    using d(4) old(2) by (auto simp: free_clusters_def valid_cluster_def)
  ultimately show ?thesis using that d by blast
qed

text \<open>The run of \<^verbatim>\<open>overwrite_file\<close> on a file that is found: the disk with the old chain freed, then the new chain.\<close>

lemma overwrite_file_run:
  assumes inv: "fs_inv b dk" and i: "lookup_slot b dk name ext = Some i" and old: "slot_chain b dk i old"
  obtains dk0 r dk1 cs where
    "overwrite_file b name ext data dk = Ret (case r of Inl e \<Rightarrow> (Inl e, dk1)
       | Inr f \<Rightarrow> (Inr (), put_slot b i ((slot_entry b dk i)\<lparr>cluster_low := f, file_size := of_nat (length data)\<rparr>) dk1))"
    "keeps b dk (set old) dk0" "same_dir b dk dk0" "same_boot b dk dk0" "free_clusters b dk0 = free_clusters b dk \<union> set old"
    "chained b None dk0 cs dk1" "\<forall>e. r = Inl e \<longrightarrow> e = ''Disk full''" "\<forall>f. r = Inr f \<longrightarrow> f = hd cs \<and> filled b data cs dk1 \<and> cs \<noteq> []"
    "length data \<le> card (free_clusters b dk0) * cluster_len b \<longrightarrow> free_clusters b dk0 \<noteq> {} \<longrightarrow> (\<exists>f. r = Inr f)"
proof -
  have I: "geom_ok b" "disk_ok dk" "reserved_ok b dk" using inv by (auto simp: fs_inv_def)
  obtain dk0 where d0: "cluster_low (slot_entry b dk i) \<ge> 2"
      "free_cluster_chain b (cluster_low (slot_entry b dk i)) dk = Ret dk0" "disk_ok dk0"
      "keeps b dk (set old) dk0" "same_dir b dk dk0" "same_boot b dk dk0" "free_clusters b dk0 = free_clusters b dk \<union> set old"
    by (rule free_chain_start [OF I(1,2) old])
  have "reserved_ok b dk0" using keeps_reserved [OF I(1) d0(4) _ I(3)] old by (simp add: slot_chain_def)
  then obtain r dk1 cs where w: "write_chain 65537 b data 0 None 0 dk0 = Ret (r, dk1)" "chained b None dk0 cs dk1"
    "\<And>e. r = Inl e \<Longrightarrow> e = ''Disk full''"
    "\<And>f. r = Inr f \<Longrightarrow> f = hd cs \<and> filled b data cs dk1 \<and> cs \<noteq> []"
    "length data \<le> card (free_clusters b dk0) * cluster_len b \<Longrightarrow> free_clusters b dk0 \<noteq> {} \<Longrightarrow> \<exists>f. r = Inr f"
    using write_chain_start [OF I(1) d0(3), of data] by blast
  have "overwrite_file b name ext data dk = Ret (case r of Inl e \<Rightarrow> (Inl e, dk1)
       | Inr f \<Rightarrow> (Inr (), put_slot b i ((slot_entry b dk i)\<lparr>cluster_low := f, file_size := of_nat (length data)\<rparr>) dk1))"
    using d0(1,2) w(1) by (simp add: overwrite_file_def find_file_location_eq [OF I(1)] i split: sum.split)
  then show ?thesis by (rule that [OF _ d0(4-7) w(2)]) (intro allI impI w(3-5); assumption)+
qed

lemma overwrite_file_cases:
  assumes inv: "fs_inv b dk" and i: "lookup_slot b dk name ext = Some i" and old: "slot_chain b dk i old"
    and data: "length data < 2 ^ 32"
  obtains r dk' where "overwrite_file b name ext data dk = Ret (r, dk')"
    "r = Inr () \<Longrightarrow> fs_inv b dk' \<and> files b dk' = (files b dk)((name, ext) \<mapsto> data)"
    "\<And>e. r = Inl e \<Longrightarrow> e = ''Disk full''
       \<and> ((card (free_clusters b dk) + length old) * cluster_len b < length data \<or> free_clusters b dk \<union> set old = {})"
proof -
  obtain ch where I: "geom_ok b" "disk_ok dk" "reserved_ok b dk" "dir_terminated b dk" "chains_ok b dk ch"
    using inv by (auto simp: fs_inv_def)
  note slot = lookup_slot_SomeD [OF i]
  have ch: "ch i = old" using I(5) slot old is_chain_unique by (force simp: chains_ok_def slot_chain_def)
  have valid: "\<forall>c\<in>set old. valid_cluster b c" using old by (simp add: slot_chain_def)
  let ?e = "\<lambda>f. (slot_entry b dk i)\<lparr>cluster_low := f, file_size := of_nat (length data)\<rparr>"
  obtain dk0 r dk1 cs where run: "overwrite_file b name ext data dk = Ret (case r of Inl e \<Rightarrow> (Inl e, dk1) | Inr f \<Rightarrow> (Inr (), put_slot b i (?e f) dk1))"
    and d0: "keeps b dk (set old) dk0" "same_dir b dk dk0" "same_boot b dk dk0" "free_clusters b dk0 = free_clusters b dk \<union> set old"
    and w: "chained b None dk0 cs dk1" "\<forall>e. r = Inl e \<longrightarrow> e = ''Disk full''" "\<forall>f. r = Inr f \<longrightarrow> f = hd cs \<and> filled b data cs dk1 \<and> cs \<noteq> []"
      "length data \<le> card (free_clusters b dk0) * cluster_len b \<longrightarrow> free_clusters b dk0 \<noteq> {} \<longrightarrow> (\<exists>f. r = Inr f)"
    by (rule overwrite_file_run [OF inv i old])
  have "free_clusters b dk \<inter> set old = {}" "distinct old"
    using old is_chain_linked [of "get_fat_entry b dk" _ old] is_chain_distinct by (auto simp: slot_chain_def free_clusters_def)
  then have card: "card (free_clusters b dk0) = card (free_clusters b dk) + length old"
    unfolding d0(4) by (subst card_Un_disjoint) (simp_all add: distinct_card)
  show ?thesis
  proof (cases r)
    case (Inl e)
    then have "e = ''Disk full''" "\<not> (length data \<le> card (free_clusters b dk0) * cluster_len b \<and> free_clusters b dk0 \<noteq> {})"
      using w(2) w(4) by force+
    then show ?thesis using run Inl card unfolding d0(4) by (intro that [of "Inl e" dk1]) (auto simp: not_le)
  next
    case (Inr f)
    have others: "set (ch j) \<inter> set old = {}" if "j \<noteq> i" "slot_live b dk j" for j
      using I(5) that slot ch by (auto simp: chains_ok_def)
    have "slot_first b dk i = filename (slot_entry b dk i) ! 0" by (rule slot_first_eq [OF I(2)])
    then have ins: "installs b dk ch i old dk0 cs dk1 (?e f) data"
      unfolding installs_def using I d0(1,2) valid others w(1) w(3) Inr slot data entry_ok_slot [OF I(2), of b i]
      by (simp add: slot_live_def entry_ok_def unat_of_nat_small)
    moreover have "\<forall>j<i. \<not> slot_stops b dk (filename (?e f)) (extension (?e f)) j" using i slot by (simp add: lookup_slot_Some_iff)
    ultimately have "files b (put_slot b i (?e f) dk1) = (files b dk)((name, ext) \<mapsto> data)" using installs_files [OF ins] slot by simp
    then show ?thesis using run Inr installs_inv [OF ins] by (intro that [of "Inr ()" "put_slot b i (?e f) dk1"]) simp_all
  qed
qed

section \<open>The reserved sectors\<close>

lemma same_boot_trans: "same_boot b dk dk1 \<Longrightarrow> same_boot b dk1 dk2 \<Longrightarrow> same_boot b dk dk2"
  by (simp add: same_boot_def)

lemma reserved_below_root: "unat (reserved_sectors b) \<le> root_start b"
  by (simp add: root_start_def)

lemma same_boot_chained:
  assumes "chained b p dk cs dk'"
  shows "same_boot b dk dk'"
  unfolding same_boot_def
proof (intro allI impI)
  fix n assume n: "n < unat (reserved_sectors b)"
  then have "n \<notin> cluster_sectors b c" for c
    using cluster_above_root [of n b c] reserved_below_root [of b] by (auto simp: data_start_def)
  then show "dk' n = dk n" using assms n by (simp add: chained_def grown_def in_fat_def)
qed

lemma same_boot_put_slot: "geom_ok b \<Longrightarrow> i < n_slots b \<Longrightarrow> same_boot b dk (put_slot b i e dk)"
  using reserved_below_root [of b] by (simp add: same_boot_def put_slot_off del: put_slot_eq)

lemma write_new_file_boot:
  assumes inv: "fs_inv b dk" and w: "write_new_file b name ext data dk = Ret (r, dk')"
  shows "same_boot b dk dk'"
proof (cases "free_slot b dk")
  case None
  then show ?thesis using inv w by (simp add: write_new_file_def fs_inv_def find_empty_root_slot_eq same_boot_def)
next
  case (Some i)
  have I: "geom_ok b" "disk_ok dk" "reserved_ok b dk" using inv by (auto simp: fs_inv_def)
  obtain q dk1 cs where q: "write_chain 65537 b data 0 None 0 dk = Ret (q, dk1)" "chained b None dk cs dk1"
    by (rule write_chain_start [OF I, of data])
  note s = same_boot_chained [OF q(2)] and p = same_boot_put_slot [OF I(1) conjunct1 [OF free_slot_SomeD [OF Some]]]
  have "dk' = (case q of Inl _ \<Rightarrow> dk1 | Inr f \<Rightarrow> put_slot b i (new_entry name ext f (length data)) dk1)"
    using w q(1) Some by (cases q) (simp_all add: write_new_file_def find_empty_root_slot_eq [OF I(1)])
  then show ?thesis using s same_boot_trans [OF s p] by (cases q) simp_all
qed

lemma overwrite_file_boot:
  assumes inv: "fs_inv b dk" and w: "overwrite_file b name ext data dk = Ret (r, dk')"
  shows "same_boot b dk dk'"
proof (cases "lookup_slot b dk name ext")
  case None
  then show ?thesis using inv w by (simp add: overwrite_file_def fs_inv_def find_file_location_eq same_boot_def)
next
  case (Some i)
  note slot = lookup_slot_SomeD [OF Some]
  obtain ch where g: "geom_ok b" and ch: "chains_ok b dk ch" using inv by (auto simp: fs_inv_def)
  then have "slot_chain b dk i (ch i)" using slot by (simp add: chains_ok_def)
  from overwrite_file_run [OF inv Some this, of data] obtain dk0 q dk1 cs where
    run: "overwrite_file b name ext data dk = Ret (case q of Inl e \<Rightarrow> (Inl e, dk1)
       | Inr f \<Rightarrow> (Inr (), put_slot b i ((slot_entry b dk i)\<lparr>cluster_low := f, file_size := of_nat (length data)\<rparr>) dk1))"
    and c: "same_boot b dk dk0" "chained b None dk0 cs dk1" .
  note s = same_boot_trans [OF c(1) same_boot_chained [OF c(2)]]
  have p: "same_boot b dk1 (put_slot b i e dk1)" for e
    using same_boot_put_slot [OF g] slot by (simp add: slot_live_def)
  show ?thesis using run w s same_boot_trans [OF s p] by (cases q) auto
qed

end
