(* ===== verification/Fat16_Format.thy ===== *)
theory Fat16_Format
  imports Fat16_Ops
begin

text \<open>
  Formatting: the disk \<open>format_drive\<close> leaves, sector by sector, and the empty file system on it.
\<close>

definition format_bpb :: bpb where
  "format_bpb = read_bpb boot_sector"

definition formatted :: "disk \<Rightarrow> disk" where
  "formatted dk = snd (snd (format_drive dk))"

section \<open>The formatted disk\<close>

lemma fold_sector_write:
  assumes "unat base + m < 2 ^ 28"
  shows "fold (\<lambda>i d. sector_write d (base + of_nat i) (f i)) [0..<m] dk n =
    (if unat base \<le> n \<and> n < unat base + m then f (n - unat base) else dk n)"
  using assms
proof (induction m)
  case (Suc m)
  have "lba_index (base + of_nat m) = unat base + m" by (rule lba_plus_index) (use Suc.prems in simp_all)
  then show ?case using Suc by (auto simp: sector_write_def)
qed auto

lemma formatted_eq:
  "formatted dk n =
    (if n = 0 then boot_sector
     else if n < 65 then fat_sector (n - 1)
     else if n < 129 then fat_sector (n - 65)
     else if n < 161 then replicate 512 0 else dk n)"
proof -
  have fat: "fold (\<lambda>offset d. sector_write d (l + of_nat offset) (fat_sector offset)) [0..<64] dk' =
      (\<lambda>n. if unat l \<le> n \<and> n < unat l + 64 then fat_sector (n - unat l) else dk' n)"
    if "unat l + 64 < 2 ^ 28" for l dk'
    using fold_sector_write [OF that] by (intro ext) simp
  have two: "[0..<2] = [0, 1 :: nat]" and l: "1 + of_nat 0 * 64 = (1 :: u32)" "1 + of_nat 1 * 64 = (65 :: u32)"
    by (simp_all add: upt_rec)
  have u: "unat (65 :: u32) = 65" "unat (1 :: u32) = 1" by simp_all
  have "unat (65 :: u32) + 64 < 2 ^ 28" "unat (1 :: u32) + 64 < 2 ^ 28" by simp_all
  note f = fat [OF this(1), unfolded u] fat [OF this(2), unfolded u]
  have "format_fats dk' n = (if 65 \<le> n \<and> n < 129 then fat_sector (n - 65)
      else if 1 \<le> n \<and> n < 65 then fat_sector (n - 1) else dk' n)" for dk' n
    unfolding format_fats_def two fold_simps l f by simp
  moreover have "format_root dk' n = (if 129 \<le> n \<and> n < 161 then replicate 512 0 else dk' n)" for dk' n
    using fold_sector_write [of 129 32 "\<lambda>_. replicate 512 0" dk' n] by (simp add: format_root_def)
  ultimately show ?thesis
    by (auto simp: formatted_def format_drive_def sector_write_def lba_index_def)
qed

lemma length_boot_sector: "length boot_sector = 512"
  by (simp add: boot_sector_def Let_def to_le16_def)

lemma disk_ok_formatted: "disk_ok dk \<Longrightarrow> disk_ok (formatted dk)"
  by (simp add: disk_ok_def formatted_eq length_boot_sector fat_sector_def)

lemma format_bpb_fields [simp]:
  "bytes_per_sector format_bpb = 512" "sectors_per_cluster format_bpb = 4"
  "reserved_sectors format_bpb = 1" "fat_count format_bpb = 2" "root_entries format_bpb = 512"
  "sectors_per_fat format_bpb = 64"
  by code_simp+

lemma format_geometry [simp]:
  "root_start format_bpb = 129" "root_secs format_bpb = 32" "fat_size format_bpb = 16384"
  "n_slots format_bpb = 512" "cluster_len format_bpb = 2048"
  by (simp_all add: root_start_def root_secs_def fat_size_def n_slots_def cluster_len_def)

lemma geom_ok_format: "geom_ok format_bpb"
  by (simp add: geom_ok_def)

lemma fat16_init_formatted:
  "fat16_init (formatted dk) fs = (Some format_bpb, ''[FS] FAT16 Initialized. Sectors per cluster: 4'')"
proof -
  have "read_bpb (sector_read (formatted dk) 0) = format_bpb"
    by (simp add: sector_read_def lba_index_def formatted_eq format_bpb_def)
  moreover have "nat_str 4 = ''4''" by code_simp
  ultimately show ?thesis by (simp add: fat16_init_def)
qed

lemma formatted_fat_entry:
  assumes "unat c < 16384"
  shows "get_fat_entry format_bpb (formatted dk) c = (if c = 0 then 0xFFF8 else if c = 1 then 0xFFFF else 0)"
proof -
  have i: "fat_index format_bpb c = 1 + unat c div 256" "unat c div 256 < 64"
    using assms by (simp_all add: fat_index_def less_mult_imp_div_less)
  then have g: "get_fat_entry format_bpb (formatted dk) c
      = le16_at (fat_sector (unat c div 256)) (2 * (unat c mod 256))"
    by (simp add: get_fat_entry_eq formatted_eq)
  have m: "unat c mod 256 < 256" by simp
  show ?thesis
  proof (cases "unat c < 2")
    case True
    then have "c = 0 \<or> c = 1" by (auto simp: word_unat_eq_iff)
    then show ?thesis unfolding g by (auto simp: fat_sector_def le16_at_def from_le16_def)
  next
    case False
    then have "c \<noteq> 0" "c \<noteq> 1" by auto
    moreover have "unat c div 256 \<noteq> 0 \<or> 2 \<le> unat c mod 256"
      using False div_mult_mod_eq [of "unat c" 256] by linarith
    ultimately show ?thesis
      unfolding g using m by (auto simp: fat_sector_def le16_at_def from_le16_def nth_list_update)
  qed
qed

lemma formatted_slot: "i < 512 \<Longrightarrow> slot_first format_bpb (formatted dk) i = 0"
  by (simp add: slot_first_def slot_sector_def formatted_eq less_mult_imp_div_less)

lemma formatted_live: "\<not> slot_live format_bpb (formatted dk) i"
  by (auto simp: slot_live_def formatted_slot)

lemma formatted_inv: "disk_ok dk \<Longrightarrow> fs_inv format_bpb (formatted dk)"
  by (auto simp: fs_inv_def geom_ok_format disk_ok_formatted reserved_ok_def formatted_fat_entry
      dir_terminated_def formatted_slot chains_ok_def formatted_live)

lemma formatted_lookup: "lookup_slot format_bpb (formatted dk) name ext = None"
  using lookup_slot_SomeD formatted_live by (metis not_None_eq)

lemma formatted_files: "files format_bpb (formatted dk) = Map.empty"
  by (rule ext, clarify) (simp add: files_eq [OF geom_ok_format] formatted_lookup)

lemma formatted_find_file: "find_file format_bpb (formatted dk) name ext = Ret None"
  by (simp add: find_file_eq [OF geom_ok_format] formatted_lookup)

lemma formatted_free_slot: "free_slot format_bpb (formatted dk) = Some 0"
  by (auto simp: free_slot_def find_Some_iff formatted_slot intro!: exI [of _ 0])

lemma formatted_free: "free_clusters format_bpb (formatted dk) = {c. 2 \<le> unat c \<and> unat c < 16384}"
  by (auto simp: free_clusters_def formatted_fat_entry word_unat_eq_iff split: if_splits)

lemma card_formatted_free: "card (free_clusters format_bpb (formatted dk)) = 16382"
proof -
  have "bij_betw unat (free_clusters format_bpb (formatted dk)) {2..<16384}"
    unfolding formatted_free
    by (rule bij_betw_byWitness [where f' = of_nat]) (auto simp: unat_of_nat_small)
  then show ?thesis by (simp add: bij_betw_same_card)
qed

section \<open>Properties of the file system\<close>

text \<open>
  C1: on a disk that satisfies the invariant, \<open>write_new_file\<close> with an 8.3 name always returns and keeps the
  invariant. If it reports success, the files on the disk are those before plus the new one, with exactly
  the bytes given; only where an entry of that name stands before the first free slot, the new entry is
  hidden behind it and no file changes. If it reports an error no file changes, and the error is the true
  one: no directory slot is left, or the free clusters do not hold the data.
\<close>

theorem write_new_file_refines:
  assumes "fs_inv b dk"
    and "length name = 8" "length ext = 3" "name ! 0 \<noteq> 0x00" "name ! 0 \<noteq> 0xE5" "length data < 2 ^ 32"
  shows "\<exists>r dk'. write_new_file b name ext data dk = Ret (r, dk') \<and> fs_inv b dk'
    \<and> (case r of
         Inr _ \<Rightarrow> files b dk' = (if shadowed b dk name ext then files b dk else (files b dk)((name, ext) \<mapsto> data))
       | Inl e \<Rightarrow> files b dk' = files b dk
           \<and> (e = ''Root directory full'' \<and> free_slot b dk = None
              \<or> e = ''Disk full'' \<and> (card (free_clusters b dk) * cluster_len b < length data
                   \<or> free_clusters b dk = {})))"
  by (rule write_new_file_cases [OF assms]) (auto split: sum.split)

definition blank :: disk where
  "blank = (\<lambda>_. replicate 512 0)"

lemma disk_ok_blank: "disk_ok blank"
  by (simp add: disk_ok_def blank_def)

definition hello_name :: "u8 list" where
  "hello_name = map of_char ''HELLO   ''"

definition txt_ext :: "u8 list" where
  "txt_ext = map of_char ''TXT''"

lemma hello_ok: "length hello_name = 8" "length txt_ext = 3" "hello_name ! 0 \<noteq> 0x00" "hello_name ! 0 \<noteq> 0xE5"
  by (simp_all add: hello_name_def txt_ext_def)

theorem write_new_file_refines_witness:
  "\<exists>dk'. write_new_file format_bpb hello_name txt_ext (replicate 3000 7) (formatted blank) = Ret (Inr (), dk')
     \<and> fs_inv format_bpb dk' \<and> files format_bpb dk' = [(hello_name, txt_ext) \<mapsto> replicate 3000 7]"
proof -
  have "length (replicate 3000 (7 :: u8)) < 2 ^ 32" by simp
  from write_new_file_refines [OF formatted_inv [OF disk_ok_blank] hello_ok this]
  obtain r dk' where r: "write_new_file format_bpb hello_name txt_ext (replicate 3000 7) (formatted blank) = Ret (r, dk')"
      "fs_inv format_bpb dk'" "case r of
         Inr _ \<Rightarrow> files format_bpb dk' = (if shadowed format_bpb (formatted blank) hello_name txt_ext then files format_bpb (formatted blank)
           else (files format_bpb (formatted blank))((hello_name, txt_ext) \<mapsto> replicate 3000 7))
       | Inl e \<Rightarrow> files format_bpb dk' = files format_bpb (formatted blank)
           \<and> (e = ''Root directory full'' \<and> free_slot format_bpb (formatted blank) = None
              \<or> e = ''Disk full'' \<and> (card (free_clusters format_bpb (formatted blank)) * cluster_len format_bpb
                   < length (replicate 3000 (7 :: u8)) \<or> free_clusters format_bpb (formatted blank) = {}))"
    by blast
  moreover have "free_clusters format_bpb (formatted blank) \<noteq> {}"
    using card_formatted_free [of blank] by auto
  ultimately show ?thesis
    using fresh_not_shadowed [OF formatted_inv [OF disk_ok_blank] formatted_find_file, of hello_name txt_ext]
    by (cases r) (auto simp: formatted_free_slot card_formatted_free formatted_files)
qed

text \<open>
  C2: on a disk that satisfies the invariant, \<open>overwrite_file\<close> always returns. A name the lookup does not
  find is an error and nothing changes. Otherwise, on success, the invariant holds and the map changes at
  that name only, to the new bytes; it fails only when the free clusters and the clusters of the old
  contents together cannot hold the new ones.
\<close>

theorem overwrite_file_refines:
  assumes "fs_inv b dk" and "length data < 2 ^ 32"
  shows "case find_file b dk name ext of
      Ret None \<Rightarrow> overwrite_file b name ext data dk = Ret (Inl ''File not found'', dk)
    | Ret (Some entry) \<Rightarrow>
        (\<exists>r dk' old. overwrite_file b name ext data dk = Ret (r, dk')
          \<and> is_chain (get_fat_entry b dk) (cluster_low entry) old
          \<and> (case r of
               Inr _ \<Rightarrow> fs_inv b dk' \<and> files b dk' = (files b dk)((name, ext) \<mapsto> data)
             | Inl e \<Rightarrow> e = ''Disk full''
                 \<and> ((card (free_clusters b dk) + length old) * cluster_len b < length data
                    \<or> free_clusters b dk \<union> set old = {})))
    | _ \<Rightarrow> False"
proof -
  obtain ch where g: "geom_ok b" and ch: "chains_ok b dk ch" using assms(1) by (auto simp: fs_inv_def)
  show ?thesis
  proof (cases "lookup_slot b dk name ext")
    case None
    then show ?thesis
      by (simp add: find_file_eq [OF g] overwrite_file_def find_file_location_eq [OF g])
  next
    case (Some i)
    then have old: "slot_chain b dk i (ch i)"
      using ch lookup_slot_SomeD by (auto simp: chains_ok_def)
    then have "is_chain (get_fat_entry b dk) (cluster_low (slot_entry b dk i)) (ch i)"
      by (simp add: slot_chain_def)
    moreover obtain r dk' where "overwrite_file b name ext data dk = Ret (r, dk')"
        "case r of Inr _ \<Rightarrow> fs_inv b dk' \<and> files b dk' = (files b dk)((name, ext) \<mapsto> data)
         | Inl e \<Rightarrow> e = ''Disk full''
             \<and> ((card (free_clusters b dk) + length (ch i)) * cluster_len b < length data
                \<or> free_clusters b dk \<union> set (ch i) = {})"
      by (rule overwrite_file_cases [OF assms(1) Some old assms(2)]) (auto split: sum.splits)
    ultimately show ?thesis
      unfolding find_file_eq [OF g] Some option.map outcome.case option.case by blast
  qed
qed

lemma hello_written:
  obtains dk where "write_new_file format_bpb hello_name txt_ext (replicate 3000 7) (formatted blank) = Ret (Inr (), dk)"
    "fs_inv format_bpb dk" "files format_bpb dk = [(hello_name, txt_ext) \<mapsto> replicate 3000 7]"
proof -
  have len: "length (replicate 3000 (7 :: u8)) < 2 ^ 32" by simp
  show ?thesis
  proof (rule write_fresh_file_cases [OF formatted_inv [OF disk_ok_blank] formatted_find_file hello_ok len])
    fix r dk
    assume w: "write_new_file format_bpb hello_name txt_ext (replicate 3000 7) (formatted blank) = Ret (r, dk)"
        "fs_inv format_bpb dk"
      and ok: "r = Inr () \<Longrightarrow> files format_bpb dk
        = (files format_bpb (formatted blank))((hello_name, txt_ext) \<mapsto> replicate 3000 7)"
      and err: "\<And>e. r = Inl e \<Longrightarrow> e = ''Root directory full'' \<and> free_slot format_bpb (formatted blank) = None
         \<or> e = ''Disk full'' \<and> (card (free_clusters format_bpb (formatted blank)) * cluster_len format_bpb
              < length (replicate 3000 (7 :: u8)) \<or> free_clusters format_bpb (formatted blank) = {})"
    have "free_clusters format_bpb (formatted blank) \<noteq> {}"
      using card_formatted_free [of blank] by auto
    then have "r = Inr ()"
      using err by (cases r) (simp_all add: formatted_free_slot card_formatted_free)
    then show ?thesis using that w ok by (simp add: formatted_files)
  qed
qed

lemma files_SomeD:
  assumes "fs_inv b dk" "files b dk (name, ext) = Some bytes" "bytes \<noteq> []"
  obtains entry where "find_file b dk name ext = Ret (Some entry)"
    "\<And>old. is_chain (get_fat_entry b dk) (cluster_low entry) old \<Longrightarrow> old \<noteq> []"
proof -
  have g: "geom_ok b" "disk_ok dk" using assms(1) by (simp_all add: fs_inv_def)
  obtain i where i: "lookup_slot b dk name ext = Some i" "read_file b dk (slot_entry b dk i) = Ret bytes"
    using assms(2) by (auto simp: files_eq [OF g(1)] split: option.splits outcome.splits)
  then show ?thesis
    using that [of "slot_entry b dk i"] read_file_chain [OF g, of "slot_entry b dk i"] assms(3)
    by (fastforce simp: find_file_eq [OF g(1)])
qed

theorem overwrite_file_refines_witness:
  "\<exists>dk dk'. write_new_file format_bpb hello_name txt_ext (replicate 3000 7) (formatted blank) = Ret (Inr (), dk)
     \<and> overwrite_file format_bpb hello_name txt_ext (replicate 100 9) dk = Ret (Inr (), dk')
     \<and> files format_bpb dk' = [(hello_name, txt_ext) \<mapsto> replicate 100 9]"
proof -
  obtain dk where w: "write_new_file format_bpb hello_name txt_ext (replicate 3000 7) (formatted blank) = Ret (Inr (), dk)"
    and inv: "fs_inv format_bpb dk" and f: "files format_bpb dk = [(hello_name, txt_ext) \<mapsto> replicate 3000 7]"
    by (rule hello_written)
  obtain entry where e: "find_file format_bpb dk hello_name txt_ext = Ret (Some entry)"
    and ne: "\<And>old. is_chain (get_fat_entry format_bpb dk) (cluster_low entry) old \<Longrightarrow> old \<noteq> []"
    using files_SomeD [OF inv, of hello_name txt_ext "replicate 3000 7"] f by auto
  have len: "length (replicate 100 (9 :: u8)) < 2 ^ 32" by simp
  obtain r dk' old where o: "overwrite_file format_bpb hello_name txt_ext (replicate 100 9) dk = Ret (r, dk')"
      "is_chain (get_fat_entry format_bpb dk) (cluster_low entry) old"
      "case r of Inr _ \<Rightarrow> fs_inv format_bpb dk'
           \<and> files format_bpb dk' = (files format_bpb dk)((hello_name, txt_ext) \<mapsto> replicate 100 9)
         | Inl e \<Rightarrow> e = ''Disk full'' \<and> ((card (free_clusters format_bpb dk) + length old) * cluster_len format_bpb
               < length (replicate 100 (9 :: u8)) \<or> free_clusters format_bpb dk \<union> set old = {})"
    using overwrite_file_refines [OF inv len, of hello_name txt_ext] e by auto
  have "1 \<le> length old" using ne [OF o(2)] by (cases old) auto
  then show ?thesis using w o f by (cases r) auto
qed

text \<open>
  C7: after \<open>format_drive\<close>, whatever the disk held, mounting succeeds and gives a volume that satisfies
  the invariant, holds no file, and has all its 16382 clusters free.
\<close>

theorem format_drive_mounts:
  assumes "disk_ok dk"
  shows "\<exists>b. fst (format_drive dk) = Inr () \<and> fst (fat16_init (snd (snd (format_drive dk))) fs) = Some b
    \<and> fs_inv b (snd (snd (format_drive dk))) \<and> files b (snd (snd (format_drive dk))) = Map.empty
    \<and> card (free_clusters b (snd (snd (format_drive dk)))) = 16382"
proof -
  have "fst (format_drive dk) = Inr ()" by (simp add: format_drive_def)
  then show ?thesis
    using fat16_init_formatted [of dk fs] formatted_inv [OF assms] formatted_files [of dk] card_formatted_free [of dk]
    unfolding formatted_def by auto
qed

theorem format_drive_mounts_witness:
  "\<exists>b. fst (fat16_init (snd (snd (format_drive (\<lambda>_. replicate 512 0xAA)))) None) = Some b
     \<and> files b (snd (snd (format_drive (\<lambda>_. replicate 512 0xAA)))) = Map.empty"
  using format_drive_mounts [of "\<lambda>_. replicate 512 0xAA" None] by (auto simp: disk_ok_def)

end
