(* ===== verification/File_Store.thy ===== *)
theory File_Store
  imports Fat16_Format
begin

text \<open>
  What the file system promises to the editor and the commands: a map from names to contents that one call changes at
  one name. \<open>file_store\<close> is this contract, with what its clients do proved from it once; the FAT16 volume meets it.
\<close>

section \<open>The contract\<close>

locale file_store =
  fixes inv :: "'s \<Rightarrow> bool"
    and contents :: "'s \<Rightarrow> 'n \<times> 'x \<Rightarrow> 'd list option"
    and room :: "'s \<Rightarrow> 'n \<Rightarrow> 'x \<Rightarrow> nat \<Rightarrow> bool"
    and good_name :: "'n \<Rightarrow> 'x \<Rightarrow> bool"
    and find_entry :: "'s \<Rightarrow> 'n \<Rightarrow> 'x \<Rightarrow> 'e option outcome"
    and fetch :: "'s \<Rightarrow> 'e \<Rightarrow> 'd list outcome"
    and create :: "'n \<Rightarrow> 'x \<Rightarrow> 'd list \<Rightarrow> 's \<Rightarrow> ((string + unit) \<times> 's) outcome"
    and replace :: "'n \<Rightarrow> 'x \<Rightarrow> 'd list \<Rightarrow> 's \<Rightarrow> ((string + unit) \<times> 's) outcome"
  assumes absent: "inv s \<Longrightarrow> contents s (n, x) = None \<Longrightarrow> find_entry s n x = Ret None"
    and present: "inv s \<Longrightarrow> contents s (n, x) = Some d \<Longrightarrow> \<exists>e. find_entry s n x = Ret (Some e) \<and> fetch s e = Ret d"
    and creates: "inv s \<Longrightarrow> contents s (n, x) = None \<Longrightarrow> good_name n x \<Longrightarrow> room s n x (length d)
      \<Longrightarrow> \<exists>s'. create n x d s = Ret (Inr (), s') \<and> inv s' \<and> contents s' = (contents s)((n, x) \<mapsto> d)"
    and replaces: "inv s \<Longrightarrow> contents s (n, x) \<noteq> None \<Longrightarrow> room s n x (length d)
      \<Longrightarrow> \<exists>s'. replace n x d s = Ret (Inr (), s') \<and> inv s' \<and> contents s' = (contents s)((n, x) \<mapsto> d)"
begin

lemma found_iff: "inv s \<Longrightarrow> find_entry s n x = Ret None \<longleftrightarrow> contents s (n, x) = None"
  using absent present by (cases "contents s (n, x)") fastforce+

lemma load:
  assumes "inv s" "contents s (n, x) = Some d"
  shows "obind (find_entry s n x) (\<lambda>entry. case entry of None \<Rightarrow> k | Some e \<Rightarrow> obind (fetch s e) g) = g d"
  using present [OF assms] by auto

lemma create_new:
  assumes "inv s" "find_entry s n x = Ret None" "good_name n x" "room s n x (length d)"
  obtains s' where "create n x d s = Ret (Inr (), s')" "inv s'" "contents s' = (contents s)((n, x) \<mapsto> d)"
  using that creates [OF assms(1) _ assms(3,4)] found_iff [OF assms(1), of n x] assms(2) by auto

lemma save:
  assumes "inv s" "good_name n x" "room s n x (length d)"
  shows "\<exists>s'. obind (find_entry s n x) (\<lambda>entry. case entry of Some _ \<Rightarrow> replace n x d s | None \<Rightarrow> create n x d s) = Ret (Inr (), s')
    \<and> inv s' \<and> contents s' = (contents s)((n, x) \<mapsto> d)"
proof (cases "contents s (n, x)")
  case None
  then show ?thesis using absent [OF assms(1) None] creates [OF assms(1) None assms(2,3)] by simp
next
  case (Some old)
  then show ?thesis using present [OF assms(1) Some] replaces [OF assms(1) _ assms(3)] by auto
qed

end

section \<open>The volume\<close>

text \<open>Room for the new contents without counting the clusters an old version would give back.\<close>

definition room_for :: "bpb \<Rightarrow> disk \<Rightarrow> u8 list \<Rightarrow> u8 list \<Rightarrow> nat \<Rightarrow> bool" where
  "room_for b dk name ext n \<longleftrightarrow>
     n \<le> card (free_clusters b dk) * cluster_len b \<and> free_clusters b dk \<noteq> {} \<and> n < 2 ^ 32
     \<and> (lookup_slot b dk name ext = None \<longrightarrow> free_slot b dk \<noteq> None)"

definition name_ok :: "u8 list \<Rightarrow> u8 list \<Rightarrow> bool" where
  "name_ok name ext \<longleftrightarrow> length name = 8 \<and> length ext = 3 \<and> name ! 0 \<noteq> 0x00 \<and> name ! 0 \<noteq> 0xE5"

lemma overwrite_with_room:
  assumes inv: "fs_inv b dk" and i: "lookup_slot b dk name ext = Some i" and room: "room_for b dk name ext (length data)"
  shows "\<exists>dk'. overwrite_file b name ext data dk = Ret (Inr (), dk') \<and> fs_inv b dk'
    \<and> files b dk' = (files b dk)((name, ext) \<mapsto> data)"
proof -
  obtain old where old: "slot_chain b dk i old"
    using inv lookup_slot_SomeD [OF i] by (auto simp: fs_inv_def chains_ok_def)
  have len: "length data < 2 ^ 32" using room by (simp add: room_for_def)
  have le: "card (free_clusters b dk) * cluster_len b \<le> (card (free_clusters b dk) + length old) * cluster_len b"
    by simp
  show ?thesis
  proof (rule overwrite_file_cases [OF inv i old len])
    fix r dk'
    assume r: "overwrite_file b name ext data dk = Ret (r, dk')"
      and ok: "r = Inr () \<Longrightarrow> fs_inv b dk' \<and> files b dk' = (files b dk)((name, ext) \<mapsto> data)"
      and err: "\<And>e. r = Inl e \<Longrightarrow> e = ''Disk full'' \<and> ((card (free_clusters b dk) + length old) * cluster_len b < length data
          \<or> free_clusters b dk \<union> set old = {})"
    have "length data \<le> (card (free_clusters b dk) + length old) * cluster_len b" "free_clusters b dk \<noteq> {}"
      using room le_trans [OF _ le] by (simp_all add: room_for_def)
    then have "r \<noteq> Inl e" for e using err [of e] by (meson Un_empty not_le)
    then have "r = Inr ()" by (cases r) auto
    then show ?thesis using r ok by simp
  qed
qed

lemma write_new_with_room:
  assumes inv: "fs_inv b dk" and i: "lookup_slot b dk name ext = None" and room: "room_for b dk name ext (length data)"
    and name: "name_ok name ext"
  shows "\<exists>dk'. write_new_file b name ext data dk = Ret (Inr (), dk') \<and> fs_inv b dk'
    \<and> files b dk' = (files b dk)((name, ext) \<mapsto> data)"
proof -
  have g: "geom_ok b" using inv by (simp add: fs_inv_def)
  have f: "find_file b dk name ext = Ret None" by (simp add: find_file_eq [OF g] i)
  have n: "length name = 8" "length ext = 3" "name ! 0 \<noteq> 0" "name ! 0 \<noteq> 0xE5" "length data < 2 ^ 32"
    using name room by (simp_all add: name_ok_def room_for_def)
  show ?thesis
  proof (rule write_fresh_file_cases [OF inv f n])
    fix r dk'
    assume r: "write_new_file b name ext data dk = Ret (r, dk')" "fs_inv b dk'"
      and ok: "r = Inr () \<Longrightarrow> files b dk' = (files b dk)((name, ext) \<mapsto> data)"
      and err: "\<And>e. r = Inl e \<Longrightarrow> e = ''Root directory full'' \<and> free_slot b dk = None
         \<or> e = ''Disk full'' \<and> (card (free_clusters b dk) * cluster_len b < length data \<or> free_clusters b dk = {})"
    have "r \<noteq> Inl e" for e using err [of e] room i unfolding room_for_def by (meson not_le)
    then have "r = Inr ()" by (cases r) auto
    then show ?thesis using r ok by simp
  qed
qed

lemma file_entry:
  assumes "fs_inv b dk" "lookup_slot b dk name ext = Some i"
  shows "\<exists>bytes. read_file b dk (slot_entry b dk i) = Ret bytes"
  using assms lookup_slot_SomeD [OF assms(2)] slot_chain_read by (fastforce simp: fs_inv_def chains_ok_def)

interpretation vol: file_store "fs_inv b" "files b" "room_for b" name_ok "find_file b" "read_file b" "write_new_file b" "overwrite_file b"
proof
  fix dk name ext assume inv: "fs_inv b dk"
  then have g: "geom_ok b" by (simp add: fs_inv_def)
  have none: "files b dk (name, ext) = None \<longleftrightarrow> lookup_slot b dk name ext = None"
    using file_entry [OF inv] by (fastforce simp: files_eq [OF g] split: option.splits)
  show "find_file b dk name ext = Ret None" if "files b dk (name, ext) = None"
    using that none by (simp add: find_file_eq [OF g])
  show "\<exists>e. find_file b dk name ext = Ret (Some e) \<and> read_file b dk e = Ret d" if "files b dk (name, ext) = Some d" for d
    using that by (auto simp: files_eq [OF g] find_file_eq [OF g] split: option.splits outcome.splits)
  show "\<exists>dk'. write_new_file b name ext d dk = Ret (Inr (), dk') \<and> fs_inv b dk' \<and> files b dk' = (files b dk)((name, ext) \<mapsto> d)"
    if "files b dk (name, ext) = None" "name_ok name ext" "room_for b dk name ext (length d)" for d
    using write_new_with_room [OF inv _ that(3,2)] that(1) none by simp
  show "\<exists>dk'. overwrite_file b name ext d dk = Ret (Inr (), dk') \<and> fs_inv b dk' \<and> files b dk' = (files b dk)((name, ext) \<mapsto> d)"
    if "files b dk (name, ext) \<noteq> None" "room_for b dk name ext (length d)" for d
    using overwrite_with_room [OF inv _ that(2)] that(1) none by auto
qed

end
