(* ===== verification/Drive_Laws.thy ===== *)
theory Drive_Laws
  imports Fat16_Drive File_Store
begin

text \<open>
  The programs of \<open>Fat16_Drive\<close> run on the store of sectors give the functions of \<open>Fat16\<close> and release the locks they take;
  run on a conforming device they do the same, since every sector they write is a whole one.
\<close>

section \<open>Running them\<close>

named_theorems store_laws

lemma on_store_dbind [store_laws]:
  "on_store (dbind p f) held dk = obind (on_store p held dk) (\<lambda>(x, h, dk'). on_store (f x) h dk')"
  by (induction p arbitrary: held dk) simp_all

lemma on_store_computed [store_laws]: "on_store (computed m) held dk = obind m (\<lambda>x. Ret (x, held, dk))"
  by (cases m) (simp_all add: computed_def)

lemma on_store_locked [store_laws]:
  "on_store (locked l p) held dk =
    (if l \<in> held then Hang else obind (on_store p (insert l held) dk) (\<lambda>(x, h, dk'). Ret (x, h - {l}, dk')))"
  by (simp add: locked_def on_store_dbind)

lemma fat_entry_store [store_laws]:
  assumes "IDE_Lock \<notin> held"
  shows "on_store (d_get_fat_entry b cluster) held dk = Ret (get_fat_entry b dk cluster, held, dk)"
    "on_store (d_set_fat_entry b cluster next) held dk = Ret ((), held, set_fat_entry b cluster next dk)"
  using assms by (simp_all add: d_get_fat_entry_def get_fat_entry_def d_set_fat_entry_def set_fat_entry_def store_laws Let_def)

lemma find_free_from_store:
  "on_store (d_find_free_from b ss) held dk = obind (find_free_from b dk ss) (\<lambda>c. Ret (c, held, dk))"
  by (induction ss) (simp_all add: store_laws Let_def split: option.split)

lemma find_free_store [store_laws]:
  "IDE_Lock \<notin> held \<Longrightarrow> on_store (d_find_free_cluster b) held dk = obind (find_free_cluster b dk) (\<lambda>c. Ret (c, held, dk))"
  by (simp add: d_find_free_cluster_def find_free_cluster_def store_laws find_free_from_store obind_assoc)

lemma read_sectors_store [store_laws]:
  "IDE_Lock \<notin> held \<Longrightarrow> on_store (d_read_sectors lba is file_data n) held dk
     = obind (read_sectors dk lba is file_data n) (\<lambda>r. Ret (r, held, dk))"
  by (induction "is" arbitrary: file_data n) (auto simp: store_laws Let_def obind_assoc intro!: obind_ext)

lemma read_clusters_store [store_laws]:
  "IDE_Lock \<notin> held \<Longrightarrow> on_store (d_read_clusters n b cluster file_data m) held dk
     = obind (read_clusters n b dk cluster file_data m) (\<lambda>r. Ret (r, held, dk))"
  by (induction n arbitrary: cluster file_data m) (auto simp: store_laws read_clusters.simps Let_def obind_assoc split_beta intro!: obind_ext)

lemma read_file_store:
  "IDE_Lock \<notin> held \<Longrightarrow> on_store (d_read_file b entry) held dk = obind (read_file b dk entry) (\<lambda>r. Ret (r, held, dk))"
  by (simp add: d_read_file_def read_file_def store_laws)

lemma scans_store [store_laws]:
  "on_store (d_find_slot_from start ss) held dk = Ret (find_slot_from dk start ss, held, dk)"
  "on_store (d_find_location_from start name ext ss) held dk = Ret (find_location_from dk start name ext ss, held, dk)"
  "on_store (d_find_file_from start name ext ss) held dk = Ret (find_file_from dk start name ext ss, held, dk)"
  by (induction ss) (simp_all add: Let_def split: option.split scan.split)

lemma finds_store [store_laws]:
  assumes "IDE_Lock \<notin> held"
  shows "on_store (d_find_empty_root_slot b) held dk = obind (find_empty_root_slot b dk) (\<lambda>r. Ret (r, held, dk))"
    "on_store (d_find_file_location b name ext) held dk = obind (find_file_location b dk name ext) (\<lambda>r. Ret (r, held, dk))"
    "on_store (d_find_file b name ext) held dk = obind (find_file b dk name ext) (\<lambda>r. Ret (r, held, dk))"
  using assms
  by (simp_all add: d_find_empty_root_slot_def find_empty_root_slot_def d_find_file_location_def find_file_location_def
      d_find_file_def find_file_def store_laws obind_assoc)

lemma write_sectors_store [store_laws]:
  "on_store (d_write_sectors lba chunk is) held dk = Ret ((), held, write_sectors lba chunk is dk)"
  by (induction "is" arbitrary: dk) (simp_all add: Let_def)

lemma write_chain_store [store_laws]:
  "IDE_Lock \<notin> held \<Longrightarrow> on_store (d_write_chain n b data k prev first) held dk
     = obind (write_chain n b data k prev first dk) (\<lambda>(r, dk'). Ret (r, held, dk'))"
proof (induction n arbitrary: k prev first dk)
  case (Suc n)
  then show ?case
    by (auto simp: store_laws write_chain.simps Let_def obind_assoc split_beta intro!: obind_ext split: option.split)
qed simp

lemma put_entry_store [store_laws]:
  "IDE_Lock \<notin> held \<Longrightarrow> on_store (d_put_entry lba offset entry) held dk = Ret ((), held, put_entry lba offset entry dk)"
  by (simp add: d_put_entry_def put_entry_def store_laws)

lemma free_walk_store [store_laws]:
  "IDE_Lock \<notin> held \<Longrightarrow> on_store (d_free_walk b n current) held dk
     = obind (free_walk (get_fat_entry b) (set_fat_entry b) n current dk) (\<lambda>dk'. Ret ((), held, dk'))"
  by (induction n arbitrary: current dk) (simp_all add: store_laws)

lemma write_new_file_store:
  "IDE_Lock \<notin> held \<Longrightarrow> on_store (d_write_new_file b name ext data) held dk
     = obind (write_new_file b name ext data dk) (\<lambda>(r, dk'). Ret (r, held, dk'))"
  by (auto simp: d_write_new_file_def write_new_file_def store_laws obind_assoc split_beta intro!: obind_ext
      split: option.split sum.split)

lemma overwrite_file_store:
  "IDE_Lock \<notin> held \<Longrightarrow> on_store (d_overwrite_file b name ext data) held dk
     = obind (overwrite_file b name ext data dk) (\<lambda>(r, dk'). Ret (r, held, dk'))"
  by (auto simp: d_overwrite_file_def overwrite_file_def free_cluster_chain_def store_laws obind_assoc split_beta
      intro!: obind_ext split: option.split sum.split)

lemma write_all_store [store_laws]:
  "on_store (d_write_all ws) held dk = Ret ((), held, fold (\<lambda>(lba, bytes) dk. sector_write dk lba bytes) ws dk)"
  by (induction ws arbitrary: dk) auto

lemma format_drive_store:
  "IDE_Lock \<notin> held \<Longrightarrow> on_store d_format_drive held dk
     = (case format_drive dk of (r, line, dk') \<Rightarrow> Ret ((r, line), held, dk'))"
proof -
  have "fold (\<lambda>(lba, bytes) dk. sector_write dk lba bytes) (map (\<lambda>i. (f i, g i)) xs) dk
      = fold (\<lambda>i dk. sector_write dk (f i) (g i)) xs dk" for f :: "nat \<Rightarrow> u32" and g xs dk
    by (simp add: fold_map comp_def)
  moreover have "[0..<2] = [0, 1]" by (simp add: upt_rec)
  moreover assume "IDE_Lock \<notin> held"
  ultimately show ?thesis
    by (simp add: d_format_drive_def format_drive_def format_root_def format_fats_def store_laws del: upt_Suc)
qed

lemma init_store:
  "IDE_Lock \<notin> held \<Longrightarrow> FS_Lock \<notin> held \<Longrightarrow> on_store (d_init fs) held dk = Ret (fat16_init dk fs, held, dk)"
  by (auto simp: d_init_def fat16_init_def store_laws Let_def)

section \<open>The same on the device\<close>

text \<open>Every sector written is a whole one, whatever the sectors read hold, and the result satisfies \<open>P\<close>.\<close>

primrec ensures :: "('a \<Rightarrow> bool) \<Rightarrow> 'a drive_prog \<Rightarrow> bool" where
  "ensures P (Give x) = P x"
| "ensures P (Abort p) = True"
| "ensures P Spin = True"
| "ensures P (Acquire l p) = ensures P p"
| "ensures P (Release l p) = ensures P p"
| "ensures P (Read_Sector lba k) = (\<forall>buffer. length buffer = 512 \<longrightarrow> ensures P (k buffer))"
| "ensures P (Write_Sector lba bytes p) = (length bytes = 512 \<and> ensures P p)"
| "ensures P (Start_Flush p) = ensures P p"

text \<open>The device holds the disk on drive 1 and waits for a command.\<close>

definition holds_disk :: "('d \<Rightarrow> ata_view) \<Rightarrow> 'd \<Rightarrow> (nat \<Rightarrow> u8 list) \<Rightarrow> disk \<Rightarrow> bool" where
  "holds_disk view d other dk \<longleftrightarrow> data_phase (view d) = Idle \<and> media (view d) False = other \<and> media (view d) True = dk"

lemma holds_read:
  assumes "ata_conforms io view wait" "holds_disk view d other dk" "disk_ok dk"
  obtains d' where "read_sector io ata_new lba d = Some (sector_read dk lba, d')" "holds_disk view d' other dk"
proof -
  have "data_phase (view d) = Idle" "disk_ok (media (view d) True)" using assms(2,3) by (simp_all add: holds_disk_def)
  from read_sector_refines [OF assms(1) this, of lba] obtain d' where
    "read_sector io ata_new lba d = Some (sector_read (media (view d) True) lba, d')"
    "media (view d') = media (view d)" "data_phase (view d') = Idle" .
  then show thesis using that [of d'] assms(2) by (simp add: holds_disk_def)
qed

lemma holds_write:
  assumes "ata_conforms io view wait" "holds_disk view d other dk" "length bytes = 512"
  obtains d' where "write_sector_bytes io ata_new lba bytes d = Some d'" "holds_disk view d' other (sector_write dk lba bytes)"
proof -
  have "data_phase (view d) = Idle" using assms(2) by (simp add: holds_disk_def)
  from write_sector_refines [OF assms(1) this assms(3), of lba] obtain d' where
    "write_sector_bytes io ata_new lba bytes d = Some d'"
    "media (view d') = (media (view d))(True := sector_write (media (view d) True) lba bytes)"
    "data_phase (view d') = Idle" .
  then show thesis using that [of d'] assms(2) by (simp add: holds_disk_def)
qed

text \<open>A run on the device does what a run on the store does.\<close>

definition same_run :: "('d \<Rightarrow> ata_view) \<Rightarrow> (nat \<Rightarrow> u8 list) \<Rightarrow> ('a \<Rightarrow> bool)
    \<Rightarrow> ('a \<times> lock set \<times> 'd) outcome \<Rightarrow> ('a \<times> lock set \<times> disk) outcome \<Rightarrow> bool" where
  "same_run view other P r s \<longleftrightarrow> (case s of
      Ret (x, h, dk) \<Rightarrow> \<exists>d. r = Ret (x, h, d) \<and> holds_disk view d other dk \<and> disk_ok dk \<and> P x
    | Panic e \<Rightarrow> r = Panic e
    | Hang \<Rightarrow> r = Hang)"

lemma same_run_simps [simp]:
  "same_run view other P r (Ret (x, h, dk)) \<longleftrightarrow> (\<exists>d. r = Ret (x, h, d) \<and> holds_disk view d other dk \<and> disk_ok dk \<and> P x)"
  "same_run view other P r (Panic e) \<longleftrightarrow> r = Panic e"
  "same_run view other P r Hang \<longleftrightarrow> r = Hang"
  by (simp_all add: same_run_def)

lemma device_refines_store:
  assumes conf: "ata_conforms io view wait"
  shows "ensures P p \<Longrightarrow> holds_disk view d other dk \<Longrightarrow> disk_ok dk
    \<Longrightarrow> same_run view other P (on_device io p held d) (on_store p held dk)"
proof (induction p arbitrary: held d dk)
  case (Read_Sector lba k)
  obtain d' where d': "read_sector io ata_new lba d = Some (sector_read dk lba, d')" "holds_disk view d' other dk"
    using holds_read [OF conf Read_Sector.prems(2,3)] .
  moreover have "length (sector_read dk lba) = 512" using Read_Sector.prems(3) by (simp add: disk_ok_def sector_read_def)
  ultimately show ?case
    using Read_Sector.IH [OF rangeI, of "sector_read dk lba" d' dk held] Read_Sector.prems by simp
next
  case (Write_Sector lba bytes p)
  then have len: "length bytes = 512" by simp
  obtain d' where d': "write_sector_bytes io ata_new lba bytes d = Some d'" "holds_disk view d' other (sector_write dk lba bytes)"
    using holds_write [OF conf Write_Sector.prems(2) len] .
  moreover have "disk_ok (sector_write dk lba bytes)"
    using Write_Sector.prems(3) len by (simp add: disk_ok_def sector_write_def)
  ultimately show ?case using Write_Sector.IH [of d' "sector_write dk lba bytes" held] Write_Sector.prems by simp
next
  case (Start_Flush p)
  have "holds_disk view (out8 io 0x1F7 0xE7 d) other dk"
    using conf Start_Flush.prems(2) by (simp add: ata_conforms_def commands_ok_def holds_disk_def)
  then show ?case using Start_Flush.IH [of _ dk held] Start_Flush.prems by (simp add: ata_new_def)
qed auto

section \<open>Whole sectors\<close>

named_theorems whole_laws

lemma ensures_dbind: "ensures P p \<Longrightarrow> (\<And>x. P x \<Longrightarrow> ensures R (f x)) \<Longrightarrow> ensures R (dbind p f)"
  by (induction p) auto

lemma ensures_bind_any [whole_laws]: "ensures (\<lambda>_. True) p \<Longrightarrow> (\<And>x. ensures R (f x)) \<Longrightarrow> ensures R (dbind p f)"
  by (rule ensures_dbind)

lemma ensures_computed [whole_laws]: "(\<And>x. P x) \<Longrightarrow> ensures P (computed m)"
  by (cases m) (simp_all add: computed_def)

lemma ensures_locked [whole_laws]: "ensures P p \<Longrightarrow> ensures P (locked l p)"
  by (auto simp: locked_def intro: ensures_dbind)

lemma fat_entry_whole [whole_laws]:
  "ensures (\<lambda>_. True) (d_get_fat_entry b cluster)" "ensures (\<lambda>_. True) (d_set_fat_entry b cluster next)"
  by (auto simp: d_get_fat_entry_def d_set_fat_entry_def Let_def intro!: whole_laws)

lemma find_free_whole [whole_laws]: "ensures (\<lambda>_. True) (d_find_free_cluster b)"
proof -
  have "ensures (\<lambda>_. True) (d_find_free_from b ss)" for ss
    by (induction ss) (auto intro: whole_laws split: option.split)
  then show ?thesis by (simp add: d_find_free_cluster_def whole_laws)
qed

lemma read_sectors_whole [whole_laws]: "ensures (\<lambda>_. True) (d_read_sectors lba is file_data n)"
  by (induction "is" arbitrary: file_data n) (auto simp: Let_def intro!: whole_laws)

lemma read_clusters_whole [whole_laws]: "ensures (\<lambda>_. True) (d_read_clusters n b cluster file_data m)"
  by (induction n arbitrary: cluster file_data m) (auto intro!: whole_laws)

lemma read_file_whole: "ensures (\<lambda>_. True) (d_read_file b entry)"
  by (simp add: d_read_file_def whole_laws)

definition slot_in_sector :: "(u32 \<times> nat) option \<Rightarrow> bool" where
  "slot_in_sector r \<longleftrightarrow> (case r of None \<Rightarrow> True | Some (lba, offset) \<Rightarrow> offset + 32 \<le> 512)"

definition location_in_sector :: "(u32 \<times> nat \<times> directory_entry) option \<Rightarrow> bool" where
  "location_in_sector r \<longleftrightarrow> (case r of None \<Rightarrow> True | Some (lba, offset, entry) \<Rightarrow> offset + 32 \<le> 512 \<and> entry_ok entry)"

lemma in_sector_simps [simp]:
  "slot_in_sector None" "slot_in_sector (Some (lba, offset)) \<longleftrightarrow> offset + 32 \<le> 512"
  "location_in_sector None" "location_in_sector (Some (lba, offset, entry)) \<longleftrightarrow> offset + 32 \<le> 512 \<and> entry_ok entry"
  by (simp_all add: slot_in_sector_def location_in_sector_def)

lemma scan_sector_Found: "scan_sector buffer name ext is = Found offset \<Longrightarrow> \<exists>i\<in>set is. offset = i * 32"
  by (induction "is") (auto simp: Let_def split: if_splits)

lemma find_slot_whole: "ensures slot_in_sector (d_find_slot_from start ss)"
proof (induction ss)
  case (Cons s ss)
  have "offset + 32 \<le> 512" if "find p (map (\<lambda>i. i * 32) [0..<16]) = Some offset" for p offset
    using that by (auto simp: find_Some_iff simp del: upt_Suc)
  then show ?case using Cons by (auto simp: Let_def split: option.split simp del: upt_Suc)
qed simp

lemma find_location_whole: "ensures location_in_sector (d_find_location_from start name ext ss)"
proof (induction ss)
  case (Cons s ss)
  have "offset + 32 \<le> 512" if "scan_sector buffer name ext [0..<16] = Found offset" for buffer offset
    using scan_sector_Found [OF that] by auto
  then show ?case
    using Cons by (auto simp: Let_def entry_ok_read_entry split: scan.split simp del: upt_Suc scan_sector.simps)
qed simp

lemma finds_whole:
  "ensures slot_in_sector (d_find_empty_root_slot b)" "ensures location_in_sector (d_find_file_location b name ext)"
  by (auto simp: d_find_empty_root_slot_def d_find_file_location_def
      intro!: whole_laws find_slot_whole find_location_whole)

lemma find_file_whole: "ensures (\<lambda>_. True) (d_find_file b name ext)"
proof -
  have "ensures (\<lambda>_. True) (d_find_file_from start name ext ss)" for start ss
    by (induction ss) (auto split: scan.split)
  then show ?thesis by (auto simp: d_find_file_def intro!: whole_laws)
qed

lemma write_sectors_whole [whole_laws]: "ensures (\<lambda>_. True) (d_write_sectors lba chunk is)"
  by (induction "is") (auto simp: Let_def subslice_def)

lemma write_chain_whole [whole_laws]: "ensures (\<lambda>_. True) (d_write_chain n b data k prev first)"
  by (induction n arbitrary: k prev first) (auto simp: Let_def intro!: whole_laws split: option.split)

lemma put_entry_whole: "offset + 32 \<le> 512 \<Longrightarrow> entry_ok entry \<Longrightarrow> ensures (\<lambda>_. True) (d_put_entry lba offset entry)"
  by (auto simp: d_put_entry_def intro!: whole_laws)

lemma write_new_file_whole:
  assumes "length name = 8" "length ext = 3"
  shows "ensures (\<lambda>_. True) (d_write_new_file b name ext data)"
proof -
  have "entry_ok (new_entry name ext first len)" for first len using assms by (simp add: entry_ok_def new_entry_def)
  then show ?thesis unfolding d_write_new_file_def
    by (intro ensures_dbind [OF finds_whole(1)])
      (auto simp: slot_in_sector_def intro!: whole_laws put_entry_whole split: option.splits sum.split)
qed

lemma overwrite_file_whole: "ensures (\<lambda>_. True) (d_overwrite_file b name ext data)"
proof -
  have "ensures (\<lambda>_. True) (d_free_walk b n current)" for n current
    by (induction n arbitrary: current) (auto intro!: whole_laws)
  then show ?thesis unfolding d_overwrite_file_def
    by (intro ensures_dbind [OF finds_whole(2)])
      (auto simp: location_in_sector_def entry_ok_def intro!: whole_laws put_entry_whole split: option.splits sum.split)
qed

lemma format_drive_whole: "ensures (\<lambda>_. True) d_format_drive"
proof -
  have w: "ensures (\<lambda>_. True) (d_write_all ws)" if "\<forall>w\<in>set ws. length (snd w) = 512" for ws
    using that by (induction ws rule: d_write_all.induct) auto
  have "length boot_sector = 512" by (simp add: boot_sector_def Let_def)
  moreover have "length (fat_sector i) = 512" for i by (simp add: fat_sector_def)
  ultimately show ?thesis unfolding d_format_drive_def
    by (intro ensures_locked ensures_bind_any w) (auto simp del: upt_Suc)
qed

lemma init_whole: "ensures (\<lambda>_. True) (d_init fs)"
  by (auto simp: d_init_def Let_def intro!: whole_laws)

section \<open>Properties\<close>

text \<open>
  C3: the file system does on the drive what it does on the store of sectors. On every conforming device, called
  without the drive's lock held, each of its functions ends with the result of the function of \<open>Fat16\<close>, with the disk that
  function leaves on drive 1, drive 0 untouched and the lock released, and panics or waits for ever exactly when it does.
\<close>

theorem drive_refines_store:
  assumes "ata_conforms io view wait" and "holds_disk view d other dk" and "disk_ok dk" and "IDE_Lock \<notin> held"
    and "length name = 8" and "length ext = 3"
  shows "same_run view other (\<lambda>_. True) (on_device io (d_write_new_file b name ext data) held d)
      (obind (write_new_file b name ext data dk) (\<lambda>(r, dk'). Ret (r, held, dk')))
    \<and> same_run view other (\<lambda>_. True) (on_device io (d_overwrite_file b name ext data) held d)
      (obind (overwrite_file b name ext data dk) (\<lambda>(r, dk'). Ret (r, held, dk')))
    \<and> same_run view other (\<lambda>_. True) (on_device io (d_find_file b name ext) held d)
      (obind (find_file b dk name ext) (\<lambda>r. Ret (r, held, dk)))
    \<and> same_run view other (\<lambda>_. True) (on_device io (d_read_file b entry) held d)
      (obind (read_file b dk entry) (\<lambda>r. Ret (r, held, dk)))
    \<and> same_run view other (\<lambda>_. True) (on_device io d_format_drive held d)
      (case format_drive dk of (r, line, dk') \<Rightarrow> Ret ((r, line), held, dk'))
    \<and> (FS_Lock \<notin> held \<longrightarrow> same_run view other (\<lambda>_. True) (on_device io (d_init fs) held d) (Ret (fat16_init dk fs, held, dk)))"
proof -
  note run = device_refines_store [OF assms(1) _ assms(2,3), where held = held]
  show ?thesis
    using run [OF write_new_file_whole [OF assms(5,6)], of b data] run [OF overwrite_file_whole, of b name ext data]
      run [OF find_file_whole, of b name ext] run [OF read_file_whole, of b entry] run [OF format_drive_whole] run [OF init_whole, of fs]
    unfolding write_new_file_store [OF assms(4)] overwrite_file_store [OF assms(4)] finds_store(3) [OF assms(4)]
      read_file_store [OF assms(4)] format_drive_store [OF assms(4)]
    using init_store [OF assms(4), of fs dk] by (simp del: same_run_simps) metis
qed

text \<open>
  C13: a file written through the ports is read back through the ports. On a conforming device whose drive 1 holds a
  well-formed volume with room and no such file, \<^verbatim>\<open>write_new_file\<close>, \<^verbatim>\<open>find_file\<close> and \<^verbatim>\<open>read_file\<close>, each register access by
  register access, end without a panic and without waiting for ever, and the last returns the bytes written; the
  volume stays well formed and every other file and the other drive keep their contents.
\<close>

theorem file_through_ports:
  assumes "ata_conforms io view wait" and "holds_disk view d other dk" and "fs_inv b dk"
    and "find_file b dk name ext = Ret None" and "name_ok name ext" and "room_for b dk name ext (length data)"
  shows "\<exists>d1 d2 d3 dk' entry. on_device io (d_write_new_file b name ext data) {} d = Ret (Inr (), {}, d1)
    \<and> on_device io (d_find_file b name ext) {} d1 = Ret (Some entry, {}, d2)
    \<and> on_device io (d_read_file b entry) {} d2 = Ret (data, {}, d3)
    \<and> holds_disk view d3 other dk' \<and> fs_inv b dk' \<and> files b dk' = (files b dk)((name, ext) \<mapsto> data)"
proof -
  have n: "length name = 8" "length ext = 3" using assms(5) by (simp_all add: name_ok_def)
  obtain dk' where dk': "write_new_file b name ext data dk = Ret (Inr (), dk')" "fs_inv b dk'"
    "files b dk' = (files b dk)((name, ext) \<mapsto> data)" by (rule vol.create_new [OF assms(3-6)])
  obtain entry where e: "find_file b dk' name ext = Ret (Some entry)" "read_file b dk' entry = Ret data"
    using vol.present [OF dk'(2), of name ext data] dk'(3) by auto
  have ok: "disk_ok dk" "disk_ok dk'" using assms(3) dk'(2) by (simp_all add: fs_inv_def)
  note run = device_refines_store [OF assms(1), where held = "{}"]
  obtain d1 where d1: "on_device io (d_write_new_file b name ext data) {} d = Ret (Inr (), {}, d1)" "holds_disk view d1 other dk'"
    using run [OF write_new_file_whole [OF n] assms(2) ok(1), of b data] dk'(1) by (auto simp: write_new_file_store)
  obtain d2 where d2: "on_device io (d_find_file b name ext) {} d1 = Ret (Some entry, {}, d2)" "holds_disk view d2 other dk'"
    using run [OF find_file_whole d1(2) ok(2), of b name ext] e(1) by (auto simp: finds_store)
  obtain d3 where "on_device io (d_read_file b entry) {} d2 = Ret (data, {}, d3)" "holds_disk view d3 other dk'"
    using run [OF read_file_whole d2(2) ok(2), of b entry] e(2) by (auto simp: read_file_store)
  then show ?thesis using d1(1) d2(1) dk'(2,3) by blast
qed

text \<open>The reference device with a formatted disk as drive 1.\<close>

definition formatted_device :: "ata_view \<times> nat" where
  "formatted_device = ((fst ref_start)\<lparr>media := (\<lambda>drive. if drive then formatted blank else blank)\<rparr>, 1)"

lemma formatted_device_holds: "holds_disk fst formatted_device blank (formatted blank)"
  by (simp add: holds_disk_def formatted_device_def ref_start_def)

theorem drive_refines_store_witness:
  "same_run fst blank (\<lambda>_. True) (on_device ref_io (d_find_file format_bpb hello_name txt_ext) {FS_Lock} formatted_device)
    (obind (find_file format_bpb (formatted blank) hello_name txt_ext) (\<lambda>r. Ret (r, {FS_Lock}, formatted blank)))"
proof -
  have "disk_ok (formatted blank)" using formatted_inv [OF disk_ok_blank] by (simp add: fs_inv_def)
  from drive_refines_store [OF ref_conforms formatted_device_holds this, of "{FS_Lock}" hello_name txt_ext] hello_ok
  show ?thesis by simp
qed

theorem file_through_ports_witness:
  "\<exists>d1 d2 d3 entry. on_device ref_io (d_write_new_file format_bpb hello_name txt_ext [1, 2, 3]) {} formatted_device = Ret (Inr (), {}, d1)
    \<and> on_device ref_io (d_find_file format_bpb hello_name txt_ext) {} d1 = Ret (Some entry, {}, d2)
    \<and> on_device ref_io (d_read_file format_bpb entry) {} d2 = Ret ([1, 2, 3], {}, d3)"
proof -
  have "free_clusters format_bpb (formatted blank) \<noteq> {}" using card_formatted_free [of blank] by auto
  then have "room_for format_bpb (formatted blank) hello_name txt_ext (length [1, 2, 3 :: u8])"
    by (simp add: room_for_def card_formatted_free formatted_free_slot cluster_len_def)
  moreover have "name_ok hello_name txt_ext" using hello_ok by (simp add: name_ok_def)
  ultimately show ?thesis
    using file_through_ports [OF ref_conforms formatted_device_holds formatted_inv [OF disk_ok_blank] formatted_find_file] by blast
qed

end
