(* ===== verification/Rust_String.thy ===== *)
theory Rust_String
  imports Prelude
begin

text \<open>
  The operations of \<^verbatim>\<open>str\<close> and \<^verbatim>\<open>String\<close> the program uses. A \<^verbatim>\<open>String\<close> is the list of its UTF-8
  bytes, a \<^verbatim>\<open>char\<close> is its Unicode scalar value.
\<close>

type_synonym rchar = nat

section \<open>UTF-8\<close>

definition scalar :: "rchar \<Rightarrow> bool" where
  "scalar c \<longleftrightarrow> c < 0xD800 \<or> 0xE000 \<le> c \<and> c < 0x110000"

definition encode_utf8 :: "rchar \<Rightarrow> string" where
  "encode_utf8 c = map char_of
    (if c < 0x80 then [c]
     else if c < 0x800 then [0xC0 + c div 64, 0x80 + c mod 64]
     else if c < 0x10000 then [0xE0 + c div 4096, 0x80 + c div 64 mod 64, 0x80 + c mod 64]
     else [0xF0 + c div 262144, 0x80 + c div 4096 mod 64, 0x80 + c div 64 mod 64, 0x80 + c mod 64])"

definition of_chars :: "rchar list \<Rightarrow> string" where
  "of_chars cs = concat (map encode_utf8 cs)"

text \<open>The scalar a sequence starts with, read off its lead byte, and the bytes that follow.\<close>

fun decode_step :: "nat list \<Rightarrow> rchar \<times> nat list" where
  "decode_step [] = (0, [])"
| "decode_step (a # bs) =
    (if a < 0x80 then (a, bs)
     else if a < 0xE0 then ((a - 0xC0) * 64 + (hd bs - 0x80), tl bs)
     else if a < 0xF0 then ((a - 0xE0) * 4096 + (hd bs - 0x80) * 64 + (hd (tl bs) - 0x80), tl (tl bs))
     else ((a - 0xF0) * 262144 + (hd bs - 0x80) * 4096 + (hd (tl bs) - 0x80) * 64 + (hd (tl (tl bs)) - 0x80),
           tl (tl (tl bs))))"

lemma decode_step_length: "length (snd (decode_step (a # bs))) \<le> length bs"
  by auto

function chars_of :: "nat list \<Rightarrow> rchar list" where
  "chars_of bs = (if bs = [] then [] else fst (decode_step bs) # chars_of (snd (decode_step bs)))"
  by pat_completeness auto
termination
proof (relation "measure length")
  fix bs :: "nat list" assume "bs \<noteq> []"
  then obtain a as where "bs = a # as" by (cases bs) auto
  then show "(snd (decode_step bs), bs) \<in> measure length"
    using decode_step_length [of a as] by simp
qed simp

declare chars_of.simps [simp del]

definition chars :: "string \<Rightarrow> rchar list" where
  "chars s = chars_of (map of_char s)"

definition is_cont :: "nat \<Rightarrow> bool" where
  "is_cont b \<longleftrightarrow> 0x80 \<le> b \<and> b < 0xC0"

text \<open>
  \<open>utf8_prefix bs\<close>: the number of bytes the leading sequence has, and whether it is complete and well
  formed. If not, the number is what the lossy decoder replaces by one replacement character.
\<close>

fun utf8_prefix :: "nat list \<Rightarrow> bool \<times> nat" where
  "utf8_prefix [] = (False, 0)"
| "utf8_prefix (a # bs) =
    (let second = (case bs of [] \<Rightarrow> 0 | b # _ \<Rightarrow> b);
         third = (case bs of _ # c # _ \<Rightarrow> c | _ \<Rightarrow> 0);
         fourth = (case bs of _ # _ # d # _ \<Rightarrow> d | _ \<Rightarrow> 0)
     in if a < 0x80 then (True, 1)
        else if 0xC2 \<le> a \<and> a < 0xE0 then (if is_cont second then (True, 2) else (False, 1))
        else if 0xE0 \<le> a \<and> a < 0xF0 then
          (if is_cont second \<and> (a = 0xE0 \<longrightarrow> 0xA0 \<le> second) \<and> (a = 0xED \<longrightarrow> second < 0xA0)
           then (if is_cont third then (True, 3) else (False, 2)) else (False, 1))
        else if 0xF0 \<le> a \<and> a < 0xF5 then
          (if is_cont second \<and> (a = 0xF0 \<longrightarrow> 0x90 \<le> second) \<and> (a = 0xF4 \<longrightarrow> second < 0x90)
           then (if is_cont third then (if is_cont fourth then (True, 4) else (False, 3)) else (False, 2))
           else (False, 1))
        else (False, 1))"

lemma utf8_prefix_pos: "bs \<noteq> [] \<Longrightarrow> 0 < snd (utf8_prefix bs)"
  by (cases bs) (auto simp: Let_def)

lemma drop_prefix_less: "bs \<noteq> [] \<Longrightarrow> length bs - snd (utf8_prefix bs) < length bs"
  using utf8_prefix_pos [of bs] by (cases bs) (auto intro: diff_less)

function utf8_ok :: "nat list \<Rightarrow> bool" where
  "utf8_ok bs =
    (if bs = [] then True
     else if fst (utf8_prefix bs) then utf8_ok (drop (snd (utf8_prefix bs)) bs) else False)"
  by pat_completeness auto
termination
  by (relation "measure length") (auto simp: drop_prefix_less)

declare utf8_ok.simps [simp del]

text \<open>\<^verbatim>\<open>core::str::from_utf8\<close> and \<^verbatim>\<open>String::from_utf8_lossy\<close> on bytes.\<close>

definition from_utf8 :: "u8 list \<Rightarrow> string option" where
  "from_utf8 bytes = (if utf8_ok (map unat bytes) then Some (map (char_of \<circ> unat) bytes) else None)"

function lossy :: "nat list \<Rightarrow> string" where
  "lossy bs =
    (if bs = [] then []
     else (if fst (utf8_prefix bs) then map char_of (take (snd (utf8_prefix bs)) bs)
           else encode_utf8 0xFFFD)
          @ lossy (drop (snd (utf8_prefix bs)) bs))"
  by pat_completeness auto
termination
  by (relation "measure length") (auto simp: drop_prefix_less)

declare lossy.simps [simp del]

definition from_utf8_lossy :: "u8 list \<Rightarrow> string" where
  "from_utf8_lossy bytes = lossy (map unat bytes)"

definition as_bytes :: "string \<Rightarrow> u8 list" where
  "as_bytes s = map of_char s"

definition utf8 :: "string \<Rightarrow> bool" where
  "utf8 s \<longleftrightarrow> utf8_ok (map of_char s)"

definition ascii :: "string \<Rightarrow> bool" where
  "ascii s \<longleftrightarrow> (\<forall>c\<in>set s. (of_char c :: nat) < 0x80)"

section \<open>Pieces of strings\<close>

definition is_whitespace :: "rchar \<Rightarrow> bool" where
  "is_whitespace c \<longleftrightarrow> 9 \<le> c \<and> c \<le> 13 \<or> c \<in> {0x20, 0x85, 0xA0, 0x1680, 0x2028, 0x2029, 0x202F, 0x205F, 0x3000}
     \<or> 0x2000 \<le> c \<and> c \<le> 0x200A"

fun words_of :: "('a \<Rightarrow> bool) \<Rightarrow> 'a list \<Rightarrow> 'a list \<Rightarrow> 'a list list" where
  "words_of p [] cur = (if cur = [] then [] else [cur])"
| "words_of p (c # cs) cur =
    (if p c then (if cur = [] then words_of p cs [] else cur # words_of p cs [])
     else words_of p cs (cur @ [c]))"

definition split_whitespace :: "string \<Rightarrow> string list" where
  "split_whitespace s = map of_chars (words_of is_whitespace (chars s) [])"

definition trim_by :: "('a \<Rightarrow> bool) \<Rightarrow> 'a list \<Rightarrow> 'a list" where
  "trim_by p cs = rev (dropWhile p (rev (dropWhile p cs)))"

definition trim :: "string \<Rightarrow> string" where
  "trim s = of_chars (trim_by is_whitespace (chars s))"

definition trim_nul :: "string \<Rightarrow> string" where
  "trim_nul s = trim_by (\<lambda>c. c = char_of (0 :: nat)) s"

fun split_on :: "'a \<Rightarrow> 'a list \<Rightarrow> 'a list list" where
  "split_on x [] = [[]]"
| "split_on x (c # cs) =
    (if c = x then [] # split_on x cs
     else (case split_on x cs of [] \<Rightarrow> [[c]] | w # ws \<Rightarrow> (c # w) # ws))"

fun join :: "'a list \<Rightarrow> 'a list list \<Rightarrow> 'a list" where
  "join sep [] = []"
| "join sep [s] = s"
| "join sep (s # t # ts) = s @ sep @ join sep (t # ts)"

definition newline :: char where
  "newline = char_of (10 :: nat)"

definition strip_cr :: "string \<Rightarrow> string" where
  "strip_cr s = (if s \<noteq> [] \<and> last s = char_of (13 :: nat) then butlast s else s)"

text \<open>\<^verbatim>\<open>str::lines\<close>: a final piece that no newline ends keeps its carriage return, and is dropped if empty.\<close>

definition str_lines :: "string \<Rightarrow> string list" where
  "str_lines s =
    (let ps = split_on newline s
     in map strip_cr (butlast ps) @ (if last ps = [] then [] else [last ps]))"

definition to_ascii_uppercase :: "u8 \<Rightarrow> u8" where
  "to_ascii_uppercase b = (if 97 \<le> b \<and> b \<le> 122 then b - 32 else b)"

text \<open>\<^verbatim>\<open>str::parse::<u32>\<close>: an optional plus, then at least one digit, all digits, in range.\<close>

definition is_digit :: "char \<Rightarrow> bool" where
  "is_digit c \<longleftrightarrow> 48 \<le> (of_char c :: nat) \<and> (of_char c :: nat) \<le> 57"

definition digits_val :: "string \<Rightarrow> nat" where
  "digits_val s = foldl (\<lambda>n c. n * 10 + (of_char c - 48)) 0 s"

definition parse_u32 :: "string \<Rightarrow> u32 option" where
  "parse_u32 s =
    (let d = (case s of c # r \<Rightarrow> if c = CHR ''+'' then r else s | [] \<Rightarrow> s)
     in if d \<noteq> [] \<and> list_all is_digit d \<and> digits_val d < 2 ^ 32 then Some (of_nat (digits_val d)) else None)"

section \<open>Indexing by bytes\<close>

definition is_char_boundary :: "string \<Rightarrow> nat \<Rightarrow> bool" where
  "is_char_boundary s i \<longleftrightarrow>
     i = 0 \<or> i = length s \<or> i < length s \<and> \<not> is_cont (of_char (s ! i))"

definition string_insert :: "string \<Rightarrow> nat \<Rightarrow> rchar \<Rightarrow> string outcome" where
  "string_insert s i c =
    (if is_char_boundary s i then Ret (take i s @ encode_utf8 c @ drop i s) else Panic Char_Boundary)"

definition split_off :: "string \<Rightarrow> nat \<Rightarrow> (string \<times> string) outcome" where
  "split_off s i = (if is_char_boundary s i then Ret (take i s, drop i s) else Panic Char_Boundary)"

definition string_remove :: "string \<Rightarrow> nat \<Rightarrow> string outcome" where
  "string_remove s i =
    (if is_char_boundary s i then
       (case chars (drop i s) of
          [] \<Rightarrow> Panic (Panic_Msg ''cannot remove a char from the end of a string'')
        | c # _ \<Rightarrow> Ret (take i s @ drop (i + length (encode_utf8 c)) s))
     else Panic Char_Boundary)"

definition string_pop :: "string \<Rightarrow> string" where
  "string_pop s = of_chars (butlast (chars s))"

section \<open>Encoding and decoding\<close>

lemma div_mod_parts:
  fixes c :: nat
  shows "c div 64 * 64 + c mod 64 = c"
    "c div 4096 * 4096 + c div 64 mod 64 * 64 + c mod 64 = c"
    "c div 262144 * 262144 + c div 4096 mod 64 * 4096 + c div 64 mod 64 * 64 + c mod 64 = c"
proof -
  have 1: "c div 64 * 64 + c mod 64 = c" by simp
  have 2: "c div 64 = c div 4096 * 64 + c div 64 mod 64"
    using div_mult_mod_eq [of "c div 64" 64] by (simp add: div_mult2_eq [symmetric])
  have 3: "c div 4096 = c div 262144 * 64 + c div 4096 mod 64"
    using div_mult_mod_eq [of "c div 4096" 64] by (simp add: div_mult2_eq [symmetric])
  show "c div 64 * 64 + c mod 64 = c" by (rule 1)
  show "c div 4096 * 4096 + c div 64 mod 64 * 64 + c mod 64 = c" using 1 2 by linarith
  show "c div 262144 * 262144 + c div 4096 mod 64 * 4096 + c div 64 mod 64 * 64 + c mod 64 = c"
    using 1 2 3 by linarith
qed

definition code_bytes :: "rchar \<Rightarrow> nat list" where
  "code_bytes c = map of_char (encode_utf8 c)"

lemma code_bytes_eq:
  assumes "c < 0x110000"
  shows "code_bytes c =
    (if c < 0x80 then [c]
     else if c < 0x800 then [0xC0 + c div 64, 0x80 + c mod 64]
     else if c < 0x10000 then [0xE0 + c div 4096, 0x80 + c div 64 mod 64, 0x80 + c mod 64]
     else [0xF0 + c div 262144, 0x80 + c div 4096 mod 64, 0x80 + c div 64 mod 64, 0x80 + c mod 64])"
proof -
  have "c div 64 mod 64 < 64" "c mod 64 < 64" "c div 4096 mod 64 < 64" by simp_all
  moreover have "c < 0x800 \<Longrightarrow> c div 64 < 32" "c < 0x10000 \<Longrightarrow> c div 4096 < 16" "c div 262144 < 5"
    using assms by (simp_all add: less_mult_imp_div_less)
  ultimately show ?thesis
    by (auto simp: code_bytes_def encode_utf8_def)
qed

lemma decode_code_bytes:
  assumes "c < 0x110000"
  shows "decode_step (code_bytes c @ bs) = (c, bs)"
proof -
  note parts = div_mod_parts [of c] code_bytes_eq [OF assms]
  have d: "c < 0x800 \<Longrightarrow> c div 64 < 32" "c < 0x10000 \<Longrightarrow> c div 4096 < 16" "c div 262144 < 5"
    using assms by (simp_all add: less_mult_imp_div_less)
  consider "c < 0x80" | "0x80 \<le> c" "c < 0x800" | "0x800 \<le> c" "c < 0x10000" | "0x10000 \<le> c"
    by linarith
  then show ?thesis
  proof cases
    case 2
    then show ?thesis using parts(1,4) d(1) by simp
  next
    case 3
    then show ?thesis using parts(2,4) d(2) by simp
  next
    case 4
    then show ?thesis using parts(3,4) by simp
  qed (use parts(4) in simp)
qed

lemma code_bytes_ne [simp]: "code_bytes c \<noteq> []"
  by (simp add: code_bytes_def encode_utf8_def)

lemma encode_utf8_ne [simp]: "encode_utf8 c \<noteq> []"
  by (simp add: encode_utf8_def)

lemma scalar_less: "scalar c \<Longrightarrow> c < 0x110000"
  by (auto simp: scalar_def)

lemma map_of_chars: "map of_char (of_chars cs) = concat (map code_bytes cs)"
  unfolding code_bytes_def by (simp add: of_chars_def map_concat comp_def)

lemma chars_of_chars: "list_all scalar cs \<Longrightarrow> chars (of_chars cs) = cs"
  unfolding chars_def map_of_chars
proof (induction cs)
  case Nil
  then show ?case by (simp add: chars_of.simps)
next
  case (Cons c cs)
  then show ?case
    by (subst chars_of.simps) (simp add: decode_code_bytes scalar_less)
qed

lemma of_chars_simps [simp]: "of_chars [] = []" "of_chars (c # cs) = encode_utf8 c @ of_chars cs"
    "of_chars (cs @ ds) = of_chars cs @ of_chars ds"
  by (simp_all add: of_chars_def)

lemma utf8_prefix_code_bytes:
  assumes "scalar c"
  shows "utf8_prefix (code_bytes c @ bs) = (True, length (code_bytes c))"
proof -
  have c: "c < 0x110000" by (rule scalar_less [OF assms])
  have d: "c < 0x800 \<Longrightarrow> c div 64 < 32" "c < 0x10000 \<Longrightarrow> c div 4096 < 16" "c div 262144 < 5"
    "0x80 \<le> c \<Longrightarrow> 2 \<le> c div 64"
    using c by (simp_all add: less_mult_imp_div_less)
  have m: "c div 64 mod 64 < 64" "c mod 64 < 64" "c div 4096 mod 64 < 64" by simp_all
  have e0: "c < 0x10000 \<Longrightarrow> 0x800 \<le> c \<Longrightarrow> c div 4096 = 0 \<Longrightarrow> 32 \<le> c div 64 mod 64"
    "c < 0x10000 \<Longrightarrow> c div 4096 = 13 \<Longrightarrow> c div 64 mod 64 < 32"
    "0x10000 \<le> c \<Longrightarrow> c div 262144 = 0 \<Longrightarrow> 16 \<le> c div 4096 mod 64"
    "c div 262144 = 4 \<Longrightarrow> c div 4096 mod 64 < 16"
    using assms div_mod_parts [of c] m unfolding scalar_def by linarith+
  show ?thesis
    using d m e0 by (auto simp: code_bytes_eq [OF c] is_cont_def Let_def)
qed

lemma utf8_of_chars: "list_all scalar cs \<Longrightarrow> utf8 (of_chars cs)"
  unfolding utf8_def map_of_chars
proof (induction cs)
  case Nil
  then show ?case by (simp add: utf8_ok.simps)
next
  case (Cons c cs)
  then show ?case by (subst utf8_ok.simps) (simp add: utf8_prefix_code_bytes)
qed

lemma parts_div_mod:
  fixes x y z w :: nat
  assumes "w < 64" "z < 64" "y < 64"
  shows "(z * 64 + w) div 64 = z" "(z * 64 + w) mod 64 = w"
    "(y * 4096 + z * 64 + w) div 4096 = y" "(y * 4096 + z * 64 + w) div 64 mod 64 = z"
    "(y * 4096 + z * 64 + w) mod 64 = w"
    "(x * 262144 + y * 4096 + z * 64 + w) div 262144 = x"
    "(x * 262144 + y * 4096 + z * 64 + w) div 4096 mod 64 = y"
    "(x * 262144 + y * 4096 + z * 64 + w) div 64 mod 64 = z"
    "(x * 262144 + y * 4096 + z * 64 + w) mod 64 = w"
proof -
  have *: "(k * 64 + v) div 64 = k \<and> (k * 64 + v) mod 64 = v" if "v < 64" for k v :: nat
    using that by simp
  have e: "y * 4096 + z * 64 + w = (y * 64 + z) * 64 + w"
    "x * 262144 + y * 4096 + z * 64 + w = ((x * 64 + y) * 64 + z) * 64 + w" by simp_all
  have q: "n div 4096 = n div 64 div 64" "n div 262144 = n div 64 div 64 div 64" for n :: nat
    by (simp_all add: div_mult2_eq [symmetric])
  show "(z * 64 + w) div 64 = z" "(z * 64 + w) mod 64 = w"
    "(y * 4096 + z * 64 + w) div 4096 = y" "(y * 4096 + z * 64 + w) div 64 mod 64 = z"
    "(y * 4096 + z * 64 + w) mod 64 = w"
    "(x * 262144 + y * 4096 + z * 64 + w) div 262144 = x"
    "(x * 262144 + y * 4096 + z * 64 + w) div 4096 mod 64 = y"
    "(x * 262144 + y * 4096 + z * 64 + w) div 64 mod 64 = z"
    "(x * 262144 + y * 4096 + z * 64 + w) mod 64 = w"
    unfolding e q by (simp_all only: * assms)
qed

lemma code_bytes_2:
  assumes "0xC2 \<le> a" "a < 0xE0" "is_cont b"
  shows "\<exists>c. scalar c \<and> code_bytes c = [a, b]"
proof -
  let ?c = "(a - 0xC0) * 64 + (b - 0x80)"
  have "?c < 0x800" "0x80 \<le> ?c" "b - 0x80 < 64" using assms by (auto simp: is_cont_def)
  then have "code_bytes ?c = [a, b]" "scalar ?c"
    using assms parts_div_mod(1,2) [of "b - 0x80" "a - 0xC0" 0]
    by (auto simp: code_bytes_eq scalar_def is_cont_def)
  then show ?thesis by blast
qed

lemma scalar_3:
  fixes x y z :: nat
  assumes "x < 16" "y < 64" "z < 64" "x = 0 \<Longrightarrow> 32 \<le> y" "x = 13 \<Longrightarrow> y < 32"
  shows "scalar (x * 4096 + y * 64 + z)" "0x800 \<le> x * 4096 + y * 64 + z" "x * 4096 + y * 64 + z < 0x10000"
proof -
  show "0x800 \<le> x * 4096 + y * 64 + z" using assms(4) by (cases "x = 0") linarith+
  show "x * 4096 + y * 64 + z < 0x10000" using assms(1-3) by linarith
  then consider "x < 13" | "x = 13" | "14 \<le> x" by linarith
  then show "scalar (x * 4096 + y * 64 + z)"
    unfolding scalar_def using assms by cases linarith+
qed

lemma scalar_4:
  fixes x y z w :: nat
  assumes "x < 5" "y < 64" "z < 64" "w < 64" "x = 0 \<Longrightarrow> 16 \<le> y" "x = 4 \<Longrightarrow> y < 16"
  shows "scalar (x * 262144 + y * 4096 + z * 64 + w)" "0x10000 \<le> x * 262144 + y * 4096 + z * 64 + w"
proof -
  show l: "0x10000 \<le> x * 262144 + y * 4096 + z * 64 + w" using assms(5) by (cases "x = 0") linarith+
  have "x * 262144 + y * 4096 + z * 64 + w < 0x110000"
    using assms by (cases "x = 4") linarith+
  then show "scalar (x * 262144 + y * 4096 + z * 64 + w)" using l unfolding scalar_def by linarith
qed

lemma code_bytes_3:
  assumes "0xE0 \<le> a" "a < 0xF0" "is_cont b" "a = 0xE0 \<longrightarrow> 0xA0 \<le> b" "a = 0xED \<longrightarrow> b < 0xA0" "is_cont d"
  shows "\<exists>c. scalar c \<and> code_bytes c = [a, b, d]"
proof -
  obtain x y z where l: "a = 0xE0 + x" "b = 0x80 + y" "d = 0x80 + z"
    using assms by (auto simp: is_cont_def le_iff_add)
  then have r: "x < 16" "y < 64" "z < 64" "x = 0 \<Longrightarrow> 32 \<le> y" "x = 13 \<Longrightarrow> y < 32"
    using assms by (auto simp: is_cont_def)
  note c = scalar_3 [OF r]
  have "code_bytes (x * 4096 + y * 64 + z) = [a, b, d]"
    using c(2,3) parts_div_mod(3,4,5) [of z y x] r code_bytes_eq [OF scalar_less [OF c(1)]] by (simp add: l)
  then show ?thesis using c(1) by blast
qed

lemma code_bytes_4:
  assumes "0xF0 \<le> a" "a < 0xF5" "is_cont b" "a = 0xF0 \<longrightarrow> 0x90 \<le> b" "a = 0xF4 \<longrightarrow> b < 0x90"
    "is_cont d" "is_cont e"
  shows "\<exists>c. scalar c \<and> code_bytes c = [a, b, d, e]"
proof -
  obtain x y z w where l: "a = 0xF0 + x" "b = 0x80 + y" "d = 0x80 + z" "e = 0x80 + w"
    using assms by (auto simp: is_cont_def le_iff_add)
  then have r: "x < 5" "y < 64" "z < 64" "w < 64" "x = 0 \<Longrightarrow> 16 \<le> y" "x = 4 \<Longrightarrow> y < 16"
    using assms by (auto simp: is_cont_def)
  note c = scalar_4 [OF r]
  have "code_bytes (x * 262144 + y * 4096 + z * 64 + w) = [a, b, d, e]"
    using c(2) parts_div_mod(6-9) [of w z y x] r code_bytes_eq [OF scalar_less [OF c(1)]] by (simp add: l)
  then show ?thesis using c(1) by blast
qed

lemma utf8_prefix_complete:
  assumes "fst (utf8_prefix bs)"
  shows "\<exists>c. scalar c \<and> code_bytes c = take (snd (utf8_prefix bs)) bs"
proof -
  obtain a as where bs: "bs = a # as" using assms by (cases bs) auto
  consider "a < 0x80" | "0xC2 \<le> a" "a < 0xE0" | "0xE0 \<le> a" "a < 0xF0" | "0xF0 \<le> a" "a < 0xF5"
    using assms unfolding bs by (auto simp: Let_def split: if_splits)
  then show ?thesis
  proof cases
    case 1
    then show ?thesis unfolding bs by (intro exI [of _ a]) (simp add: code_bytes_eq scalar_def)
  next
    case 2
    then show ?thesis
      using assms code_bytes_2 [of a "hd as"] unfolding bs
      by (cases as) (auto simp: is_cont_def split: if_splits)
  next
    case 3
    then show ?thesis
      using assms code_bytes_3 [of a "hd as" "hd (tl as)"] unfolding bs
      by (auto simp: is_cont_def Let_def split: if_splits list.splits)
  next
    case 4
    then show ?thesis
      using assms code_bytes_4 [of a "hd as" "hd (tl as)" "hd (tl (tl as))"] unfolding bs
      by (auto simp: is_cont_def Let_def split: if_splits list.splits)
  qed
qed

lemma utf8_ok_decompose:
  "utf8_ok bs \<Longrightarrow> \<exists>cs. list_all scalar cs \<and> bs = concat (map code_bytes cs)"
proof (induction bs rule: utf8_ok.induct)
  case (1 bs)
  show ?case
  proof (cases "bs = []")
    case True
    then show ?thesis by (intro exI [of _ "[]"]) simp
  next
    case False
    then have p: "fst (utf8_prefix bs)" "utf8_ok (drop (snd (utf8_prefix bs)) bs)"
      using 1(2) by (simp_all add: utf8_ok.simps [of bs] split: if_splits)
    obtain c where "scalar c" "code_bytes c = take (snd (utf8_prefix bs)) bs"
      using utf8_prefix_complete [OF p(1)] by blast
    moreover obtain cs where "list_all scalar cs" "drop (snd (utf8_prefix bs)) bs = concat (map code_bytes cs)"
      using 1(1) [OF False p] by blast
    ultimately show ?thesis
      using append_take_drop_id [of "snd (utf8_prefix bs)" bs] by (intro exI [of _ "c # cs"]) simp
  qed
qed

lemma map_of_char_inject [simp]: "map (of_char :: char \<Rightarrow> nat) s = map of_char t \<longleftrightarrow> s = t"
  by (simp add: inj_map_eq_map inj_on_def of_char_eq_iff)

lemma utf8_iff: "utf8 s \<longleftrightarrow> (\<exists>cs. list_all scalar cs \<and> s = of_chars cs)"
proof
  assume "utf8 s"
  then obtain cs where "list_all scalar cs" "map of_char s = concat (map code_bytes cs)"
    using utf8_ok_decompose [of "map of_char s"] by (auto simp: utf8_def)
  then show "\<exists>cs. list_all scalar cs \<and> s = of_chars cs"
    by (auto simp: map_of_chars [symmetric])
qed (auto intro: utf8_of_chars)

lemma of_chars_chars: "utf8 s \<Longrightarrow> of_chars (chars s) = s"
  by (auto simp: utf8_iff chars_of_chars)

lemma scalar_chars: "utf8 s \<Longrightarrow> list_all scalar (chars s)"
  by (auto simp: utf8_iff chars_of_chars)

lemma utf8_append: "utf8 s \<Longrightarrow> utf8 t \<Longrightarrow> utf8 (s @ t)"
  unfolding utf8_iff by (metis list_all_append of_chars_simps(3))

lemma chars_append: "utf8 s \<Longrightarrow> utf8 t \<Longrightarrow> chars (s @ t) = chars s @ chars t"
proof -
  assume "utf8 s" "utf8 t"
  then obtain cs ds where "list_all scalar cs" "list_all scalar ds" "s = of_chars cs" "t = of_chars ds"
    by (auto simp: utf8_iff)
  then show ?thesis using chars_of_chars [of "cs @ ds"] by (simp add: chars_of_chars)
qed

lemma encode_ascii: "c < 0x80 \<Longrightarrow> encode_utf8 c = [char_of c]"
  by (simp add: encode_utf8_def)

lemma ascii_simps [simp]: "ascii []" "ascii (c # s) \<longleftrightarrow> (of_char c :: nat) < 0x80 \<and> ascii s"
    "ascii (s @ t) \<longleftrightarrow> ascii s \<and> ascii t"
  by (auto simp: ascii_def)

lemma of_chars_ascii: "ascii s \<Longrightarrow> of_chars (map of_char s) = s"
  by (induction s) (auto simp: encode_ascii)

lemma scalar_ascii: "ascii s \<Longrightarrow> list_all scalar (map of_char s)"
  by (auto simp: ascii_def list_all_iff scalar_def)

lemma chars_ascii: "ascii s \<Longrightarrow> chars s = map of_char s"
  using chars_of_chars [OF scalar_ascii] of_chars_ascii by force

lemma utf8_ascii: "ascii s \<Longrightarrow> utf8 s"
  using utf8_of_chars [OF scalar_ascii] of_chars_ascii by force

lemma ascii_take: "ascii s \<Longrightarrow> ascii (take i s)" and ascii_drop: "ascii s \<Longrightarrow> ascii (drop i s)"
  by (auto simp: ascii_def dest: in_set_takeD in_set_dropD)

lemma boundary_ascii: "ascii s \<Longrightarrow> is_char_boundary s i \<longleftrightarrow> i \<le> length s"
  using nth_mem [of i s] by (fastforce simp: is_char_boundary_def ascii_def is_cont_def)

lemma of_char_less: "(of_char c :: nat) < 256"
proof -
  have "(of_char c :: nat) mod 256 = of_char c" by simp
  then show ?thesis by (metis mod_less_divisor zero_less_numeral)
qed

lemma unat_of_char: "unat (of_char c :: u8) = of_char c"
proof -
  have "(of_char c :: u8) = of_nat (of_char c)" by (simp add: of_nat_of_char)
  then show ?thesis using of_char_less [of c] by (simp add: unat_of_nat_small del: of_nat_of_char)
qed

lemma as_bytes_back [simp]: "map (char_of \<circ> unat) (as_bytes s) = s"
  by (induction s) (simp_all add: as_bytes_def unat_of_char)

lemma unat_as_bytes [simp]: "map unat (as_bytes s) = map of_char s"
  by (induction s) (simp_all add: as_bytes_def unat_of_char)

lemma from_utf8_as_bytes: "from_utf8 (as_bytes s) = (if utf8 s then Some s else None)"
  by (simp add: from_utf8_def utf8_def)

lemma lossy_ok: "utf8_ok bs \<Longrightarrow> lossy bs = map char_of bs"
proof (induction bs rule: utf8_ok.induct)
  case (1 bs)
  show ?case
  proof (cases "bs = []")
    case False
    then have p: "fst (utf8_prefix bs)" "utf8_ok (drop (snd (utf8_prefix bs)) bs)"
      using 1(2) by (simp_all add: utf8_ok.simps [of bs] split: if_splits)
    have "lossy bs = map char_of (take (snd (utf8_prefix bs)) bs) @ map char_of (drop (snd (utf8_prefix bs)) bs)"
      using False p(1) 1(1) [OF False p] by (simp add: lossy.simps [of bs])
    then show ?thesis by (simp only: map_append [symmetric] append_take_drop_id)
  qed (simp add: lossy.simps)
qed

lemma from_utf8_lossy_as_bytes: "utf8 s \<Longrightarrow> from_utf8_lossy (as_bytes s) = s"
  by (simp add: from_utf8_lossy_def utf8_def lossy_ok comp_def)

section \<open>Joining and splitting\<close>

lemma split_on_ne [simp]: "split_on x s \<noteq> []"
  by (induction s) (auto split: list.split)

lemma split_on_no_sep: "x \<notin> set s \<Longrightarrow> split_on x s = [s]"
  by (induction s) auto

lemma split_on_append: "x \<notin> set s \<Longrightarrow> split_on x (s @ x # t) = s # split_on x t"
  by (induction s) auto

lemma split_on_join: "ls \<noteq> [] \<Longrightarrow> \<forall>l\<in>set ls. x \<notin> set l \<Longrightarrow> split_on x (join [x] ls) = ls"
  by (induction "[x]" ls rule: join.induct) (auto simp: split_on_no_sep split_on_append)

text \<open>Lines written one per line are read back, except for one empty line at the end.\<close>

definition line_ok :: "string \<Rightarrow> bool" where
  "line_ok l \<longleftrightarrow> newline \<notin> set l \<and> (l \<noteq> [] \<longrightarrow> last l \<noteq> char_of (13 :: nat))"

lemma str_lines_join:
  assumes "ls \<noteq> []" "\<forall>l\<in>set ls. line_ok l"
  shows "str_lines (join [newline] ls) = (if last ls = [] then butlast ls else ls)"
proof -
  have "split_on newline (join [newline] ls) = ls"
    using assms by (intro split_on_join) (auto simp: line_ok_def)
  moreover have "map strip_cr (butlast ls) = butlast ls"
    using assms(2) by (intro map_idI) (auto simp: strip_cr_def line_ok_def dest!: in_set_butlastD)
  ultimately show ?thesis
    using append_butlast_last_id [OF assms(1)] by (simp add: str_lines_def Let_def)
qed

lemma ascii_join: "ascii sep \<Longrightarrow> \<forall>w\<in>set ws. ascii w \<Longrightarrow> ascii (join sep ws)"
  by (induction sep ws rule: join.induct) auto

lemma digits_val_append: "digits_val (a @ b) = digits_val a * 10 ^ length b + digits_val b"
proof (induction b rule: rev_induct)
  case (snoc c b)
  then show ?case by (simp add: digits_val_def algebra_simps)
qed (simp add: digits_val_def)

lemma digits_val_nat_str: "digits_val (nat_str n) = n"
proof (induction n rule: nat_str.induct)
  case (1 n)
  then show ?case by (cases "n < 10") (simp_all add: nat_str.simps [of n] digits_val_append, simp_all add: digits_val_def)
qed

lemma nat_str_digits: "list_all is_digit (nat_str n)"
proof (induction n rule: nat_str.induct)
  case (1 n)
  have "is_digit (char_of (48 + d))" if "d < 10" for d :: nat
    using that by (simp add: is_digit_def)
  then show ?case using 1 by (cases "n < 10") (simp_all add: nat_str.simps [of n])
qed

lemma nat_str_ne [simp]: "nat_str n \<noteq> []"
  by (simp add: nat_str.simps [of n])

lemma digits_val_zeros: "digits_val (replicate n (CHR ''0'')) = 0"
  by (induction n) (simp_all add: digits_val_def)

lemma words_of_result: "w \<in> set (words_of p cs cur) \<Longrightarrow> \<forall>c\<in>set cur. \<not> p c \<Longrightarrow> w \<noteq> [] \<and> (\<forall>c\<in>set w. \<not> p c)"
proof (induction cs arbitrary: cur)
  case (Cons c cs)
  show ?case
  proof (cases "p c")
    case True
    then have "w = cur \<and> cur \<noteq> [] \<or> w \<in> set (words_of p cs [])"
      using Cons.prems(1) by (auto split: if_splits)
    then show ?thesis
    proof
      assume "w \<in> set (words_of p cs [])"
      then show ?thesis by (rule Cons.IH) simp
    qed (use Cons.prems(2) in blast)
  next
    case False
    show ?thesis
      by (rule Cons.IH [of "cur @ [c]"]) (use Cons.prems False in simp_all)
  qed
qed (simp split: if_splits)

lemma words_of_word: "\<forall>c\<in>set w. \<not> p c \<Longrightarrow> words_of p (w @ cs) cur = words_of p cs (cur @ w)"
  by (induction w arbitrary: cur) auto

lemma words_of_last: "\<forall>c\<in>set w. \<not> p c \<Longrightarrow> words_of p w cur = (if cur @ w = [] then [] else [cur @ w])"
  by (induction w arbitrary: cur) auto

lemma words_of_join:
  assumes "\<forall>w\<in>set ws. w \<noteq> [] \<and> (\<forall>c\<in>set w. \<not> p c)" "p x"
  shows "words_of p (join [x] ws) [] = ws"
  using assms by (induction "[x]" ws rule: join.induct) (simp_all add: words_of_word words_of_last)

end
