(* ===== verification/Vga_Buffer.thy ===== *)
theory Vga_Buffer
  imports Rust_String
begin

text \<open>
  The text screen (\<^verbatim>\<open>vga_buffer.rs\<close>): the \<^verbatim>\<open>Writer\<close> behind \<^verbatim>\<open>print!\<close>, the direct cell writes and the
  cursor ports of the editor, and \<^verbatim>\<open>TextCanvas\<close> (\<^verbatim>\<open>canvas.rs\<close>), which writes the same memory.
\<close>

section \<open>Data\<close>

datatype color =
    Black | Blue | Green | Cyan | Red | Magenta | Brown | LightGray
  | DarkGray | LightBlue | LightGreen | LightCyan | LightRed | Pink | Yellow | White

fun color_u8 :: "color \<Rightarrow> u8" where
  "color_u8 Black = 0" | "color_u8 Blue = 1" | "color_u8 Green = 2" | "color_u8 Cyan = 3"
| "color_u8 Red = 4" | "color_u8 Magenta = 5" | "color_u8 Brown = 6" | "color_u8 LightGray = 7"
| "color_u8 DarkGray = 8" | "color_u8 LightBlue = 9" | "color_u8 LightGreen = 10" | "color_u8 LightCyan = 11"
| "color_u8 LightRed = 12" | "color_u8 Pink = 13" | "color_u8 Yellow = 14" | "color_u8 White = 15"

definition color_code_new :: "color \<Rightarrow> color \<Rightarrow> u8" where
  "color_code_new foreground background = push_bit 4 (color_u8 background) OR color_u8 foreground"

record screen_char =
  ascii_character :: u8
  color_code :: u8

definition BUFFER_HEIGHT :: nat where
  "BUFFER_HEIGHT = 25"

definition BUFFER_WIDTH :: nat where
  "BUFFER_WIDTH = 80"

text \<open>The 25 rows of 80 cells at \<^verbatim>\<open>0xb8000\<close>; indexing outside panics.\<close>

type_synonym vga = "screen_char list list"

definition cell_read :: "nat \<Rightarrow> nat \<Rightarrow> vga \<Rightarrow> screen_char outcome" where
  "cell_read row col buf =
    (if row < BUFFER_HEIGHT \<and> col < BUFFER_WIDTH then Ret (buf ! row ! col) else Panic Out_Of_Bounds)"

definition cell_write :: "nat \<Rightarrow> nat \<Rightarrow> screen_char \<Rightarrow> vga \<Rightarrow> vga outcome" where
  "cell_write row col c buf =
    (if row < BUFFER_HEIGHT \<and> col < BUFFER_WIDTH then Ret (buf[row := (buf ! row)[col := c]])
     else Panic Out_Of_Bounds)"

record writer =
  column_position :: nat
  writer_color :: u8
  buffer :: vga

definition blank_char :: "u8 \<Rightarrow> screen_char" where
  "blank_char color = \<lparr>ascii_character = 0x20, color_code = color\<rparr>"

section \<open>The writer\<close>

definition writer_new :: "vga \<Rightarrow> writer" where
  "writer_new buf = \<lparr>column_position = 0, writer_color = color_code_new Green Black, buffer = buf\<rparr>"

definition with_buffer :: "(vga \<Rightarrow> vga outcome) \<Rightarrow> writer \<Rightarrow> writer outcome" where
  "with_buffer f w = obind (f (buffer w)) (\<lambda>buf. Ret (w\<lparr>buffer := buf\<rparr>))"

definition delete_byte :: "writer \<Rightarrow> writer outcome" where
  "delete_byte w =
    (if column_position w > 0 then
       let col = column_position w - 1
       in with_buffer (cell_write (BUFFER_HEIGHT - 1) col (blank_char (writer_color w)))
            (w\<lparr>column_position := col\<rparr>)
     else Ret w)"

definition writer_clear :: "writer \<Rightarrow> writer outcome" where
  "writer_clear w =
     with_buffer (for_each (\<lambda>i. for_each (\<lambda>j. cell_write i j (blank_char (writer_color w))) [0..<80]) [0..<24]) w"

definition set_color :: "u8 \<Rightarrow> writer \<Rightarrow> writer" where
  "set_color color w = w\<lparr>writer_color := color\<rparr>"

definition clear_row :: "nat \<Rightarrow> writer \<Rightarrow> writer outcome" where
  "clear_row row w =
     with_buffer (for_each (\<lambda>col. cell_write row col (blank_char (writer_color w))) [0..<BUFFER_WIDTH]) w"

definition new_line :: "writer \<Rightarrow> writer outcome" where
  "new_line w =
    obind (with_buffer (for_each (\<lambda>row. for_each (\<lambda>col buf.
              obind (cell_read row col buf) (\<lambda>c. cell_write (row - 1) col c buf)) [0..<BUFFER_WIDTH])
            [1..<BUFFER_HEIGHT]) w) (\<lambda>w1.
    obind (clear_row (BUFFER_HEIGHT - 1) w1) (\<lambda>w2. Ret (w2\<lparr>column_position := 0\<rparr>)))"

definition write_byte :: "u8 \<Rightarrow> writer \<Rightarrow> writer outcome" where
  "write_byte byte w =
    (if byte = 10 then new_line w
     else obind (if column_position w \<ge> BUFFER_WIDTH then new_line w else Ret w) (\<lambda>w1.
          obind (with_buffer (cell_write (BUFFER_HEIGHT - 1) (column_position w1)
                   \<lparr>ascii_character = byte, color_code = writer_color w1\<rparr>) w1) (\<lambda>w2.
          Ret (w2\<lparr>column_position := column_position w2 + 1\<rparr>))))"

definition write_string :: "string \<Rightarrow> writer \<Rightarrow> writer outcome" where
  "write_string s = for_each (\<lambda>c. let byte = of_char c :: u8 in
     if 0x20 \<le> byte \<and> byte \<le> 0x7e \<or> byte = 10 then write_byte byte else write_byte 0xfe) s"

definition println :: "string \<Rightarrow> writer \<Rightarrow> writer outcome" where
  "println s = write_string (s @ [newline])"

section \<open>Direct access\<close>

definition write_char_at :: "nat \<Rightarrow> nat \<Rightarrow> u8 \<Rightarrow> u8 \<Rightarrow> writer \<Rightarrow> writer outcome" where
  "write_char_at x y c color w =
    (if x < BUFFER_WIDTH \<and> y < BUFFER_HEIGHT
     then with_buffer (cell_write y x \<lparr>ascii_character = c, color_code = color\<rparr>) w else Ret w)"

definition clear_screen :: "writer \<Rightarrow> writer outcome" where
  "clear_screen = writer_clear"

text \<open>The port writes of \<^verbatim>\<open>update_cursor\<close>, in order.\<close>

definition update_cursor :: "nat \<Rightarrow> nat \<Rightarrow> (u16 \<times> u8) list" where
  "update_cursor x y =
    (let pos = y * BUFFER_WIDTH + x
     in [(0x3D4, 0x0F), (0x3D5, of_nat (pos mod 256)), (0x3D4, 0x0E), (0x3D5, of_nat (pos div 256 mod 256))])"

definition set_char :: "nat \<Rightarrow> nat \<Rightarrow> u8 \<Rightarrow> u8 \<Rightarrow> vga \<Rightarrow> vga outcome" where
  "set_char x y character color buf =
    (if x < 80 \<and> y < 25 then cell_write y x \<lparr>ascii_character = character, color_code = color\<rparr> buf else Ret buf)"

definition canvas_clear :: "vga \<Rightarrow> vga outcome" where
  "canvas_clear = for_each (\<lambda>row. for_each (\<lambda>col.
     cell_write row col (blank_char (color_code_new Black Black))) [0..<80]) [0..<25]"

section \<open>Well-formed screens\<close>

definition wf_vga :: "vga \<Rightarrow> bool" where
  "wf_vga buf \<longleftrightarrow> length buf = 25 \<and> (\<forall>row\<in>set buf. length row = 80)"

definition wf_writer :: "writer \<Rightarrow> bool" where
  "wf_writer w \<longleftrightarrow> wf_vga (buffer w) \<and> column_position w \<le> 80"

lemmas dims = BUFFER_HEIGHT_def BUFFER_WIDTH_def

lemma wf_vga_row [simp]: "wf_vga buf \<Longrightarrow> r < 25 \<Longrightarrow> length (buf ! r) = 80"
  by (simp add: wf_vga_def)

lemma wf_vga_length [simp]: "wf_vga buf \<Longrightarrow> length buf = 25"
  by (simp add: wf_vga_def)

lemma wf_vga_update: "wf_vga buf \<Longrightarrow> length row = 80 \<Longrightarrow> wf_vga (buf[r := row])"
  using set_update_subset_insert [of buf r row] by (auto simp: wf_vga_def)

lemma cell_write_ok:
  "r < 25 \<Longrightarrow> c < 80 \<Longrightarrow> cell_write r c x buf = Ret (buf[r := (buf ! r)[c := x]])"
  by (simp add: cell_write_def dims)

lemma wf_cell_write: "wf_vga buf \<Longrightarrow> r < 25 \<Longrightarrow> wf_vga (buf[r := (buf ! r)[c := x]])"
  by (simp add: wf_vga_update)

lemma fill_row:
  assumes "wf_vga buf" "r < 25"
  shows "for_each (\<lambda>col. cell_write r col c) [0..<80] buf = Ret (buf[r := replicate 80 c])"
proof -
  have "for_each (\<lambda>col. cell_write r col c) [0..<80] buf = Ret (buf[r := replicate 80 c @ drop 80 (buf ! r)])"
  proof (rule for_each_upt [where S = "\<lambda>n. buf[r := replicate n c @ drop n (buf ! r)]"])
    fix i assume "i < (80 :: nat)"
    then have "(replicate i c @ drop i (buf ! r))[i := c] = replicate (Suc i) c @ drop (Suc i) (buf ! r)"
      using assms by (simp add: list_update_append replicate_append_same [symmetric] Cons_nth_drop_Suc [symmetric])
    then show "cell_write r i c (buf[r := replicate i c @ drop i (buf ! r)])
        = Ret (buf[r := replicate (Suc i) c @ drop (Suc i) (buf ! r)])"
      using assms \<open>i < 80\<close> by (simp add: cell_write_ok)
  qed simp_all
  then show ?thesis using assms by simp
qed

lemma copy_row:
  assumes "wf_vga buf" "Suc r < 25"
  shows "for_each (\<lambda>col b. obind (cell_read (Suc r) col b) (\<lambda>c. cell_write r col c b)) [0..<80] buf
    = Ret (buf[r := buf ! Suc r])"
proof -
  let ?S = "\<lambda>n. buf[r := take n (buf ! Suc r) @ drop n (buf ! r)]"
  have "for_each (\<lambda>col b. obind (cell_read (Suc r) col b) (\<lambda>c. cell_write r col c b)) [0..<80] buf = Ret (?S 80)"
  proof (rule for_each_upt [where S = ?S])
    fix i assume i: "i < (80 :: nat)"
    then have "(take i (buf ! Suc r) @ drop i (buf ! r))[i := buf ! Suc r ! i]
        = take (Suc i) (buf ! Suc r) @ drop (Suc i) (buf ! r)"
      using assms by (simp add: list_update_append take_Suc_conv_app_nth Cons_nth_drop_Suc [symmetric])
    then show "obind (cell_read (Suc r) i (?S i)) (\<lambda>c. cell_write r i c (?S i)) = Ret (?S (Suc i))"
      using assms i by (simp add: cell_read_def cell_write_ok dims)
  qed simp_all
  then show ?thesis using assms by simp
qed

lemma scroll_rows:
  assumes "wf_vga buf"
  shows "for_each (\<lambda>row. for_each (\<lambda>col b. obind (cell_read row col b) (\<lambda>c. cell_write (row - 1) col c b)) [0..<80])
    [1..<25] buf = Ret (tl buf @ [last buf])"
proof -
  let ?S = "\<lambda>k. take (k - 1) (tl buf) @ drop (k - 1) buf"
  have l: "length buf = 25" "length (tl buf) = 24" "buf \<noteq> []" using assms by (auto simp: wf_vga_def)
  have "for_each (\<lambda>row. for_each (\<lambda>col b. obind (cell_read row col b) (\<lambda>c. cell_write (row - 1) col c b)) [0..<80])
      [1..<25] buf = Ret (?S 25)"
  proof (rule for_each_upt [where S = ?S])
    fix i assume i: "1 \<le> i" "i < (25 :: nat)"
    then obtain r where r: "i = Suc r" "Suc r < 25" by (cases i) auto
    have "wf_vga (?S i)"
      using assms r by (auto simp: wf_vga_def dest!: in_set_takeD in_set_dropD list.set_sel(2) [rotated])
    moreover have "(?S i)[r := ?S i ! Suc r] = ?S (Suc i)"
      using r l by (simp add: list_update_append nth_append take_Suc_conv_app_nth nth_tl
          Cons_nth_drop_Suc [symmetric])
    ultimately show "for_each (\<lambda>col b. obind (cell_read i col b) (\<lambda>c. cell_write (i - 1) col c b)) [0..<80] (?S i)
        = Ret (?S (Suc i))"
      using copy_row [of "?S i" r] r by simp
  qed simp_all
  moreover have "?S 25 = tl buf @ [last buf]"
    using l by (simp add: last_conv_nth Cons_nth_drop_Suc [symmetric])
  ultimately show ?thesis by simp
qed

text \<open>Scrolling drops the first row and adds a blank one.\<close>

lemma new_line_eq:
  assumes "wf_vga (buffer w)"
  shows "new_line w = Ret (w\<lparr>column_position := 0,
    buffer := tl (buffer w) @ [replicate 80 (blank_char (writer_color w))]\<rparr>)"
proof -
  let ?b = "tl (buffer w) @ [last (buffer w)]"
  have l: "length (buffer w) = 25" "buffer w \<noteq> []" using assms by (auto simp: wf_vga_def)
  then have "wf_vga ?b"
    using assms by (auto simp: wf_vga_def dest: list.set_sel(2) [rotated])
  then have "for_each (\<lambda>col. cell_write 24 col (blank_char (writer_color w))) [0..<80] ?b
      = Ret (?b[24 := replicate 80 (blank_char (writer_color w))])"
    by (intro fill_row) simp_all
  moreover have "?b[24 := x] = tl (buffer w) @ [x]" for x using l by (simp add: list_update_append)
  ultimately show ?thesis
    using scroll_rows [OF assms] unfolding new_line_def clear_row_def with_buffer_def dims by simp
qed

lemma wf_scroll: "wf_vga buf \<Longrightarrow> wf_vga (tl buf @ [replicate 80 c])"
  by (cases buf) (auto simp: wf_vga_def)

lemma wf_new_line: "wf_writer w \<Longrightarrow> \<exists>w'. new_line w = Ret w' \<and> wf_writer w' \<and> column_position w' = 0"
  by (simp add: wf_writer_def new_line_eq wf_scroll)

text \<open>The cell a printable byte goes to, after the wrap.\<close>

definition put_byte :: "u8 \<Rightarrow> writer \<Rightarrow> writer" where
  "put_byte byte w = w\<lparr>column_position := column_position w + 1,
     buffer := (buffer w)[24 := (buffer w ! 24)[column_position w :=
       \<lparr>ascii_character = byte, color_code = writer_color w\<rparr>]]\<rparr>"

lemma write_byte_eq:
  assumes "wf_writer w"
  shows "write_byte byte w =
    (if byte = 10 then new_line w
     else if column_position w < 80 then Ret (put_byte byte w)
     else obind (new_line w) (\<lambda>w1. Ret (put_byte byte w1)))"
  using assms unfolding write_byte_def dims
  by (auto simp: put_byte_def not_less new_line_eq wf_writer_def with_buffer_def cell_write_ok)

lemma wf_put_byte: "wf_writer w \<Longrightarrow> column_position w < 80 \<Longrightarrow> wf_writer (put_byte byte w)"
  by (simp add: wf_writer_def put_byte_def wf_cell_write)

lemma wf_write_byte:
  assumes "wf_writer w"
  shows "\<exists>w'. write_byte byte w = Ret w' \<and> wf_writer w'"
  using assms wf_new_line [OF assms] wf_put_byte [of w byte] wf_put_byte [of _ byte]
  by (auto simp: write_byte_eq)

lemma wf_write_string: "wf_writer w \<Longrightarrow> \<exists>w'. write_string s w = Ret w' \<and> wf_writer w'"
  unfolding write_string_def Let_def by (rule for_each_inv) (use wf_write_byte in auto)

lemma wf_delete_byte: "wf_writer w \<Longrightarrow> \<exists>w'. delete_byte w = Ret w' \<and> wf_writer w'"
  by (auto simp: delete_byte_def Let_def with_buffer_def cell_write_ok dims wf_writer_def wf_cell_write)

lemma fill_rows:
  assumes "wf_vga buf" "n \<le> 25"
  shows "for_each (\<lambda>i. for_each (\<lambda>j. cell_write i j c) [0..<80]) [0..<n] buf
    = Ret (replicate n (replicate 80 c) @ drop n buf)"
proof (rule for_each_upt [where S = "\<lambda>n. replicate n (replicate 80 c) @ drop n buf"])
  fix i assume i: "i < n"
  let ?b = "replicate i (replicate 80 c) @ drop i buf"
  have "wf_vga ?b" using assms i by (auto simp: wf_vga_def dest: in_set_dropD)
  moreover have "?b[i := replicate 80 c] = replicate (Suc i) (replicate 80 c) @ drop (Suc i) buf"
    using assms i by (simp add: list_update_append replicate_append_same [symmetric] Cons_nth_drop_Suc [symmetric])
  ultimately show "for_each (\<lambda>j. cell_write i j c) [0..<80] ?b
      = Ret (replicate (Suc i) (replicate 80 c) @ drop (Suc i) buf)"
    using fill_row [of ?b i c] assms(2) i by simp
qed simp_all

lemma writer_clear_eq:
  assumes "wf_vga (buffer w)"
  shows "writer_clear w = Ret (w\<lparr>buffer :=
    replicate 24 (replicate 80 (blank_char (writer_color w))) @ [buffer w ! 24]\<rparr>)"
proof -
  have "drop 24 (buffer w) = [buffer w ! 24]" using assms by (simp add: Cons_nth_drop_Suc [symmetric])
  then show ?thesis using fill_rows [OF assms, of 24] by (simp add: writer_clear_def with_buffer_def)
qed

lemma wf_writer_clear: "wf_writer w \<Longrightarrow> \<exists>w'. writer_clear w = Ret w' \<and> wf_writer w'"
  by (auto simp: writer_clear_eq wf_writer_def wf_vga_def)

lemma canvas_clear_eq:
  "wf_vga buf \<Longrightarrow> canvas_clear buf = Ret (replicate 25 (replicate 80 (blank_char (color_code_new Black Black))))"
  unfolding canvas_clear_def by (simp only: fill_rows) simp

lemma wf_canvas_clear: "wf_vga buf \<Longrightarrow> \<exists>b. canvas_clear buf = Ret b \<and> wf_vga b"
  by (simp add: canvas_clear_eq wf_vga_def)

lemma wf_set_char: "wf_vga buf \<Longrightarrow> \<exists>b. set_char x y c color buf = Ret b \<and> wf_vga b"
  by (auto simp: set_char_def cell_write_ok wf_cell_write)

lemma wf_write_char_at: "wf_writer w \<Longrightarrow> \<exists>w'. write_char_at x y c color w = Ret w' \<and> wf_writer w'"
  by (auto simp: write_char_at_def with_buffer_def cell_write_ok dims wf_writer_def wf_cell_write)

section \<open>The screen as a window on a tape\<close>

text \<open>
  The specification of \<^verbatim>\<open>print!\<close>: a roll of paper that only grows. A newline, or a character that does not
  fit, starts a new row at the end; a character is written on the last row.
\<close>

record tape =
  tape_rows :: "screen_char list list"
  tape_col :: nat
  tape_color :: u8

definition tape_line :: "tape \<Rightarrow> tape" where
  "tape_line t = t\<lparr>tape_rows := tape_rows t @ [replicate 80 (blank_char (tape_color t))], tape_col := 0\<rparr>"

definition tape_put :: "u8 \<Rightarrow> tape \<Rightarrow> tape" where
  "tape_put byte t =
     t\<lparr>tape_rows := butlast (tape_rows t) @ [(last (tape_rows t))[tape_col t :=
         \<lparr>ascii_character = byte, color_code = tape_color t\<rparr>]], tape_col := tape_col t + 1\<rparr>"

definition tape_byte :: "u8 \<Rightarrow> tape \<Rightarrow> tape" where
  "tape_byte byte t =
    (if byte = 10 then tape_line t else tape_put byte (if tape_col t < 80 then t else tape_line t))"

definition visible :: "char \<Rightarrow> u8" where
  "visible c = (let byte = of_char c in if 0x20 \<le> byte \<and> byte \<le> 0x7e \<or> byte = 10 then byte else 0xfe)"

definition tape_string :: "string \<Rightarrow> tape \<Rightarrow> tape" where
  "tape_string s = fold (\<lambda>c. tape_byte (visible c)) s"

definition shows_tape :: "writer \<Rightarrow> tape \<Rightarrow> bool" where
  "shows_tape w t \<longleftrightarrow> wf_writer w \<and> (\<exists>top. tape_rows t = top @ buffer w)
     \<and> tape_col t = column_position w \<and> tape_color t = writer_color w"

lemma shows_tape_line:
  assumes "shows_tape w t"
  shows "\<exists>w'. new_line w = Ret w' \<and> shows_tape w' (tape_line t) \<and> column_position w' = 0"
proof -
  obtain top where top: "wf_writer w" "tape_rows t = top @ buffer w" "tape_col t = column_position w"
      "tape_color t = writer_color w"
    using assms by (auto simp: shows_tape_def)
  then have "wf_vga (buffer w)" "buffer w \<noteq> []" by (auto simp: wf_writer_def wf_vga_def)
  then have "tape_rows (tape_line t) = (top @ [hd (buffer w)]) @ tl (buffer w) @ [replicate 80 (blank_char (writer_color w))]"
    using top by (simp add: tape_line_def)
  then have "\<exists>p. tape_rows (tape_line t) = p @ tl (buffer w) @ [replicate 80 (blank_char (writer_color w))]"
    by blast
  moreover have "tape_col (tape_line t) = 0" "tape_color (tape_line t) = tape_color t"
    by (simp_all add: tape_line_def)
  ultimately show ?thesis
    using top \<open>wf_vga (buffer w)\<close> by (simp add: new_line_eq shows_tape_def wf_writer_def wf_scroll)
qed

lemma shows_tape_put:
  assumes "shows_tape w t" "column_position w < 80"
  shows "shows_tape (put_byte byte w) (tape_put byte t)"
proof -
  have "length (buffer w) = 25" using assms by (simp add: shows_tape_def wf_writer_def)
  moreover from this have "buffer w \<noteq> []" by auto
  ultimately have "(buffer w)[24 := x] = butlast (buffer w) @ [x]" "last (buffer w) = buffer w ! 24" for x
    using \<open>length (buffer w) = 25\<close> by (simp_all add: list_update_append last_conv_nth butlast_conv_take
        list_update_beyond upd_conv_take_nth_drop)
  then show ?thesis
    using assms wf_put_byte [OF _ assms(2), of byte] \<open>buffer w \<noteq> []\<close>
    by (auto simp: shows_tape_def put_byte_def tape_put_def butlast_append)
qed

lemma shows_tape_byte:
  assumes "shows_tape w t"
  shows "\<exists>w'. write_byte byte w = Ret w' \<and> shows_tape w' (tape_byte byte t)"
proof -
  obtain w1 where w1: "new_line w = Ret w1" "shows_tape w1 (tape_line t)" "column_position w1 = 0"
    using shows_tape_line [OF assms] by blast
  have "wf_writer w" "tape_col t = column_position w" using assms by (simp_all add: shows_tape_def)
  then show ?thesis
    using shows_tape_put [OF assms, of byte] shows_tape_put [OF w1(2), of byte] w1
    by (simp add: write_byte_eq tape_byte_def)
qed

lemma write_string_Nil [simp]: "write_string [] w = Ret w"
  by (simp add: write_string_def)

lemma write_string_Cons: "write_string (c # s) w = obind (write_byte (visible c) w) (write_string s)"
  by (simp add: write_string_def visible_def Let_def)

lemma write_string_append: "write_string (s @ t) w = obind (write_string s w) (write_string t)"
  by (simp add: write_string_def for_each_append)

lemma write_newline: "write_string (newline # s) w = obind (new_line w) (write_string s)"
proof -
  have "visible newline = 10" by code_simp
  then show ?thesis by (simp add: write_string_Cons write_byte_def)
qed

lemma shows_tape_string:
  "shows_tape w t \<Longrightarrow> \<exists>w'. write_string s w = Ret w' \<and> shows_tape w' (tape_string s t)"
proof (induction s arbitrary: w t)
  case Nil
  then show ?case by (simp add: tape_string_def)
next
  case (Cons c s)
  obtain w1 where w1: "write_byte (visible c) w = Ret w1" "shows_tape w1 (tape_byte (visible c) t)"
    using shows_tape_byte [OF Cons.prems] by blast
  then show ?case using Cons.IH [OF w1(2)] by (simp add: tape_string_def write_string_Cons)
qed

section \<open>Printing a line\<close>

definition printable :: "string \<Rightarrow> bool" where
  "printable s \<longleftrightarrow> (\<forall>c\<in>set s. 0x20 \<le> (of_char c :: nat) \<and> (of_char c :: nat) \<le> 0x7e)"

definition cells :: "u8 \<Rightarrow> string \<Rightarrow> screen_char list" where
  "cells color s = map (\<lambda>c. \<lparr>ascii_character = of_char c, color_code = color\<rparr>) s"

lemma printable_byte:
  assumes "printable (c # s)"
  shows "0x20 \<le> (of_char c :: u8) \<and> (of_char c :: u8) \<le> 0x7e" "(of_char c :: u8) \<noteq> 10"
proof -
  have "32 \<le> unat (of_char c :: u8)" "unat (of_char c :: u8) \<le> 126"
    using assms by (simp_all add: printable_def unat_of_char)
  then show "0x20 \<le> (of_char c :: u8) \<and> (of_char c :: u8) \<le> 0x7e" "(of_char c :: u8) \<noteq> 10"
    by (auto simp: word_le_nat_alt)
qed

lemma write_printable:
  "printable s \<Longrightarrow> wf_writer w \<Longrightarrow> column_position w + length s \<le> 80 \<Longrightarrow>
    write_string s w = Ret (w\<lparr>column_position := column_position w + length s,
      buffer := (buffer w)[24 := copy_at (buffer w ! 24) (column_position w) (cells (writer_color w) s)]\<rparr>)"
proof (induction s arbitrary: w)
  case Nil
  then show ?case by (simp add: cells_def)
next
  case (Cons c s)
  let ?w = "put_byte (of_char c) w"
  have "wf_vga (buffer w)" "length (buffer w) = 25" "length (buffer w ! 24) = 80"
    using Cons.prems(2) by (simp_all add: wf_writer_def)
  moreover have "write_string (c # s) w = obind (Ret ?w) (write_string s)"
    using printable_byte [OF Cons.prems(1)] Cons.prems(2,3)
    by (simp add: write_string_Cons visible_def write_byte_eq)
  moreover have "write_string s ?w = Ret (?w\<lparr>column_position := column_position ?w + length s,
      buffer := (buffer ?w)[24 := copy_at (buffer ?w ! 24) (column_position ?w) (cells (writer_color ?w) s)]\<rparr>)"
    using Cons.prems wf_put_byte [of w "of_char c"]
    by (intro Cons.IH) (auto simp: printable_def put_byte_def)
  moreover have "copy_at (row[i := x]) (Suc i) xs = copy_at row i (x # xs)"
    if "i + length (x # xs) \<le> length row" for i row x and xs :: "screen_char list"
    using that by (intro nth_equalityI) (auto simp: nth_copy_at nth_list_update nth_Cons')
  ultimately show ?case
    using Cons.prems(3) by (simp add: put_byte_def cells_def)
qed

lemma println_after_newline:
  assumes "wf_writer w" "printable s" "length s \<le> 80"
  obtains w' where "write_string ([newline] @ s @ [newline]) w = Ret w'" "wf_writer w'"
    "take 23 (buffer w') = drop 2 (buffer w)"
    "buffer w' ! 23 = cells (writer_color w) s @ replicate (80 - length s) (blank_char (writer_color w))"
    "column_position w' = 0"
proof -
  let ?blank = "replicate 80 (blank_char (writer_color w))"
  let ?w1 = "w\<lparr>column_position := 0, buffer := tl (buffer w) @ [?blank]\<rparr>"
  let ?row = "copy_at ?blank 0 (cells (writer_color w) s)"
  let ?w2 = "?w1\<lparr>column_position := length s, buffer := tl (buffer w) @ [?row]\<rparr>"
  have wf: "wf_vga (buffer w)" and l: "length (buffer w) = 25" using assms(1) by (auto simp: wf_writer_def)
  have w1: "wf_writer ?w1" using wf by (simp add: wf_writer_def wf_scroll)
  have 1: "write_string ([newline] @ s @ [newline]) w = write_string (s @ [newline]) ?w1"
    by (simp add: write_newline new_line_eq [OF wf])
  have "write_string s ?w1 = Ret ?w2"
    using write_printable [OF assms(2) w1] assms(3) l by (simp add: nth_append list_update_append)
  then have 2: "write_string (s @ [newline]) ?w1 = write_string [newline] ?w2"
    by (simp add: write_string_append)
  have len: "length (cells (writer_color w) s) = length s" by (simp add: cells_def)
  have wf2: "wf_vga (buffer ?w2)" using wf assms(3) len by (cases "buffer w") (auto simp: wf_vga_def)
  then have w2: "wf_writer ?w2" using assms(3) by (simp add: wf_writer_def)
  let ?w' = "?w2\<lparr>column_position := 0, buffer := tl (buffer ?w2) @ [?blank]\<rparr>"
  have 3: "write_string [newline] ?w2 = Ret ?w'"
    using new_line_eq [OF wf2] by (simp add: write_newline)
  have rows: "buffer ?w' = drop 2 (buffer w) @ [?row, ?blank]"
    using l by (cases "buffer w" rule: remdups_adj.cases) simp_all
  have a: "write_string ([newline] @ s @ [newline]) w = Ret ?w'" unfolding 1 2 by (rule 3)
  have b: "wf_writer ?w'" using wf_scroll [OF wf2] by (simp add: wf_writer_def)
  have c: "take 23 (buffer ?w') = drop 2 (buffer w)" unfolding rows using l by simp
  have d: "buffer ?w' ! 23 = cells (writer_color w) s @ replicate (80 - length s) (blank_char (writer_color w))"
    unfolding rows using l by (simp add: nth_append copy_at_def len)
  show ?thesis by (rule that [OF a b c d]) simp
qed

section \<open>Properties\<close>

text \<open>
  C31: no operation on the screen panics or leaves the 25 by 80 buffer: from a well-formed writer, printing
  any string, erasing, clearing, and writing a cell at any coordinates all return a well-formed writer,
  and so do the canvas operations on the same memory.
\<close>

theorem screen_operations_safe:
  assumes "wf_writer w"
  shows "(\<exists>w'. write_string s w = Ret w' \<and> wf_writer w') \<and> (\<exists>w'. println s w = Ret w' \<and> wf_writer w')
    \<and> (\<exists>w'. delete_byte w = Ret w' \<and> wf_writer w') \<and> (\<exists>w'. clear_screen w = Ret w' \<and> wf_writer w')
    \<and> (\<exists>w'. write_char_at x y c color w = Ret w' \<and> wf_writer w')
    \<and> (\<exists>b. canvas_clear (buffer w) = Ret b \<and> wf_vga b) \<and> (\<exists>b. set_char x y c color (buffer w) = Ret b \<and> wf_vga b)"
proof -
  have "wf_vga (buffer w)" using assms by (simp add: wf_writer_def)
  then show ?thesis
    using assms wf_write_string wf_delete_byte wf_writer_clear wf_write_char_at wf_canvas_clear wf_set_char
    unfolding println_def clear_screen_def by auto
qed

text \<open>A screen as it is before anything is printed.\<close>

definition blank_writer :: writer where
  "blank_writer = \<lparr>column_position = 0, writer_color = color_code_new Green Black,
     buffer = replicate 25 (replicate 80 (blank_char 0))\<rparr>"

lemma wf_blank_writer: "wf_writer blank_writer"
  by (simp add: wf_writer_def wf_vga_def blank_writer_def)

theorem screen_operations_safe_witness:
  "(\<exists>w'. write_string ''hello'' blank_writer = Ret w' \<and> wf_writer w')
    \<and> (\<exists>w'. write_char_at 500 900 1 2 blank_writer = Ret w' \<and> wf_writer w')"
  using screen_operations_safe [OF wf_blank_writer, of "''hello''"]
    screen_operations_safe [OF wf_blank_writer, of "[]" 500 900 1 2] by blast

text \<open>
  C18: printing refines writing on a roll of paper. If the screen shows the last 25 rows of a roll, then after
  printing any string it returns and shows the last 25 rows of the roll with that string written on it,
  wrapped at 80 columns, and the cursor column is where the roll's is.
\<close>

theorem print_refines_tape:
  assumes "shows_tape w t"
  shows "\<exists>w'. write_string s w = Ret w' \<and> shows_tape w' (tape_string s t)"
  using shows_tape_string [OF assms] .

theorem print_refines_tape_witness:
  "\<exists>w'. write_string ''hello'' blank_writer = Ret w'
     \<and> shows_tape w' (tape_string ''hello''
         \<lparr>tape_rows = buffer blank_writer, tape_col = 0, tape_color = color_code_new Green Black\<rparr>)"
proof -
  have "shows_tape blank_writer
      \<lparr>tape_rows = buffer blank_writer, tape_col = 0, tape_color = color_code_new Green Black\<rparr>"
    using wf_blank_writer by (auto simp: shows_tape_def blank_writer_def)
  from print_refines_tape [OF this, of "''hello''"] show ?thesis .
qed

text \<open>
  What the repository's own test asserts, for every line: after printing a newline, a line of at most 80
  printable characters and a newline, row 23 of the screen reads that line followed by blanks, and the rows
  that were on the screen have moved up by two.
\<close>

theorem println_shows_line:
  assumes "wf_writer w" "printable s" "length s \<le> 80"
  shows "\<exists>w'. write_string ([newline] @ s @ [newline]) w = Ret w'
    \<and> map ascii_character (buffer w' ! 23) = as_bytes s @ replicate (80 - length s) 0x20
    \<and> take 23 (buffer w') = drop 2 (buffer w) \<and> column_position w' = 0"
  by (rule println_after_newline [OF assms]) (auto simp: cells_def as_bytes_def blank_char_def comp_def)

theorem println_shows_line_witness:
  "\<exists>w'. write_string ([newline] @ ''Some test string that fits on a single line'' @ [newline]) blank_writer = Ret w'
     \<and> map ascii_character (buffer w' ! 23)
         = as_bytes ''Some test string that fits on a single line'' @ replicate 37 0x20"
  using println_shows_line [OF wf_blank_writer, of "''Some test string that fits on a single line''"]
  by (auto simp: printable_def)

text \<open>
  Erasing undoes typing. After a printable byte typed anywhere but at the end of a full row, the erase
  key brings the column back and leaves the screen as it was, with that one cell blank.
\<close>

theorem backspace_undoes_type:
  assumes "wf_writer w" "column_position w < 80" "byte \<noteq> 10"
  shows "obind (write_byte byte w) delete_byte =
    Ret (w\<lparr>buffer := (buffer w)[24 := (buffer w ! 24)[column_position w := blank_char (writer_color w)]]\<rparr>)"
proof -
  have "length (buffer w) = 25" using assms(1) by (simp add: wf_writer_def)
  then show ?thesis
    using assms by (simp add: write_byte_eq put_byte_def delete_byte_def with_buffer_def cell_write_ok dims)
qed

theorem backspace_undoes_type_witness:
  "obind (write_byte 65 blank_writer) delete_byte = Ret (blank_writer\<lparr>buffer := (buffer blank_writer)[24 :=
     (buffer blank_writer ! 24)[0 := blank_char (color_code_new Green Black)]]\<rparr>)"
  using backspace_undoes_type [OF wf_blank_writer, of 65] by (simp add: blank_writer_def)

end
