(* ===== verification/Input.thy ===== *)
theory Input
  imports Rust_String
begin

text \<open>
  Key events (\<^verbatim>\<open>input.rs\<close>) and Rust's \<^verbatim>\<open>isize\<close>. The event types are those of the \<^verbatim>\<open>pc_keyboard\<close> crate, with
  the codes the program looks at named and all others numbered.
\<close>

datatype key_code =
    Key_W | Key_S | Key_O | Key_L | Escape | ArrowLeft | ArrowRight | ArrowUp | ArrowDown | Other_Key nat

datatype key_state = Up | Down | SingleShot

record key_event =
  key_code :: key_code
  key_state :: key_state

datatype decoded_key = Unicode rchar | RawKey key_code

text \<open>\<^verbatim>\<open>KEY_EVENT_QUEUE\<close> is a queue of events, oldest first.\<close>

definition pop_key :: "key_event list \<Rightarrow> key_event option \<times> key_event list" where
  "pop_key q = (case q of [] \<Rightarrow> (None, []) | k # ks \<Rightarrow> (Some k, ks))"

definition push_key :: "key_event \<Rightarrow> key_event list \<Rightarrow> key_event list" where
  "push_key k q = q @ [k]"

section \<open>Signed machine integers\<close>

definition isize_min :: int where
  "isize_min = - (2 ^ 63)"

definition isize_max :: int where
  "isize_max = 2 ^ 63 - 1"

definition isize_ret :: "int \<Rightarrow> int outcome" where
  "isize_ret x = (if isize_min \<le> x \<and> x \<le> isize_max then Ret x else Panic Overflow)"

definition saturating_sub :: "int \<Rightarrow> int \<Rightarrow> int" where
  "saturating_sub a b = max isize_min (min isize_max (a - b))"

definition as_usize :: "int \<Rightarrow> nat" where
  "as_usize x = nat (x mod 2 ^ 64)"

lemma isize_ret_ok [simp]: "isize_min \<le> x \<Longrightarrow> x \<le> isize_max \<Longrightarrow> isize_ret x = Ret x"
  by (simp add: isize_ret_def)

lemma as_usize_nonneg: "0 \<le> x \<Longrightarrow> x \<le> isize_max \<Longrightarrow> as_usize x = nat x"
  by (simp add: as_usize_def isize_max_def)

end
