(* ===== verification/Editor.thy ===== *)
theory Editor
  imports Vga_Buffer Input
begin

text \<open>
  The text editor (\<^verbatim>\<open>editor/mod.rs\<close>): its buffer of lines with a cursor, drawing on a terminal device,
  and the device on the VGA screen. Loading, saving and the key loop are in \<open>Editor_Session\<close>.
\<close>

section \<open>The buffer\<close>

record editor =
  ed_lines :: "string list"
  cursor_x :: nat
  cursor_y :: nat

definition editor_new :: "string \<Rightarrow> editor" where
  "editor_new initial_data =
    (let ls = str_lines initial_data
     in \<lparr>ed_lines = (if ls = [] then [''''] else ls), cursor_x = 0, cursor_y = 0\<rparr>)"

definition line_at :: "string list \<Rightarrow> nat \<Rightarrow> string outcome" where
  "line_at ls y = (if y < length ls then Ret (ls ! y) else Panic Out_Of_Bounds)"

definition vec_insert :: "nat \<Rightarrow> 'a \<Rightarrow> 'a list \<Rightarrow> 'a list outcome" where
  "vec_insert i x xs = (if i \<le> length xs then Ret (take i xs @ x # drop i xs) else Panic Out_Of_Bounds)"

definition vec_remove :: "nat \<Rightarrow> 'a list \<Rightarrow> ('a \<times> 'a list) outcome" where
  "vec_remove i xs = (if i < length xs then Ret (xs ! i, take i xs @ drop (Suc i) xs) else Panic Out_Of_Bounds)"

definition insert_newline :: "editor \<Rightarrow> editor outcome" where
  "insert_newline e =
    obind (line_at (ed_lines e) (cursor_y e)) (\<lambda>l.
    obind (split_off l (cursor_x e)) (\<lambda>(kept, new_line_content).
    obind (vec_insert (cursor_y e + 1) new_line_content ((ed_lines e)[cursor_y e := kept])) (\<lambda>ls.
    Ret (e\<lparr>ed_lines := ls, cursor_y := cursor_y e + 1, cursor_x := 0\<rparr>))))"

definition insert_char :: "rchar \<Rightarrow> editor \<Rightarrow> editor outcome" where
  "insert_char c e =
    (if c = 10 then insert_newline e
     else obind (line_at (ed_lines e) (cursor_y e)) (\<lambda>l.
          obind (string_insert l (cursor_x e) c) (\<lambda>l'.
          Ret (e\<lparr>ed_lines := (ed_lines e)[cursor_y e := l'], cursor_x := cursor_x e + 1\<rparr>))))"

definition ed_backspace :: "editor \<Rightarrow> editor outcome" where
  "ed_backspace e =
    (if cursor_x e > 0 then
       let x = cursor_x e - 1
       in obind (line_at (ed_lines e) (cursor_y e)) (\<lambda>l.
          obind (string_remove l x) (\<lambda>l'.
          Ret (e\<lparr>ed_lines := (ed_lines e)[cursor_y e := l'], cursor_x := x\<rparr>)))
     else if cursor_y e > 0 then
       obind (vec_remove (cursor_y e) (ed_lines e)) (\<lambda>(current_line, ls).
       let y = cursor_y e - 1
       in obind (line_at ls y) (\<lambda>prev_line.
          Ret (e\<lparr>ed_lines := ls[y := prev_line @ current_line], cursor_x := length prev_line, cursor_y := y\<rparr>)))
     else Ret e)"

definition move_cursor_left :: "editor \<Rightarrow> editor outcome" where
  "move_cursor_left e =
    (if cursor_x e > 0 then Ret (e\<lparr>cursor_x := cursor_x e - 1\<rparr>)
     else if cursor_y e > 0 then
       obind (line_at (ed_lines e) (cursor_y e - 1)) (\<lambda>l.
       Ret (e\<lparr>cursor_y := cursor_y e - 1, cursor_x := length l\<rparr>))
     else Ret e)"

definition move_cursor_right :: "editor \<Rightarrow> editor outcome" where
  "move_cursor_right e =
    obind (line_at (ed_lines e) (cursor_y e)) (\<lambda>l.
      if cursor_x e < length l then Ret (e\<lparr>cursor_x := cursor_x e + 1\<rparr>)
      else if ed_lines e = [] then Panic Overflow
      else if cursor_y e < length (ed_lines e) - 1 then Ret (e\<lparr>cursor_y := cursor_y e + 1, cursor_x := 0\<rparr>)
      else Ret e)"

definition move_to_line :: "nat \<Rightarrow> editor \<Rightarrow> editor outcome" where
  "move_to_line y e =
    obind (line_at (ed_lines e) y) (\<lambda>l.
    Ret (e\<lparr>cursor_y := y, cursor_x := (if cursor_x e > length l then length l else cursor_x e)\<rparr>))"

definition move_cursor_up :: "editor \<Rightarrow> editor outcome" where
  "move_cursor_up e = (if cursor_y e > 0 then move_to_line (cursor_y e - 1) e else Ret e)"

definition move_cursor_down :: "editor \<Rightarrow> editor outcome" where
  "move_cursor_down e =
    (if ed_lines e = [] then Panic Overflow
     else if cursor_y e < length (ed_lines e) - 1 then move_to_line (cursor_y e + 1) e else Ret e)"

section \<open>Drawing\<close>

text \<open>The trait \<^verbatim>\<open>TerminalDevice\<close>: a device is the record of its methods.\<close>

record 't terminal_device =
  dimensions :: "nat \<times> nat"
  put_char :: "nat \<Rightarrow> nat \<Rightarrow> rchar \<Rightarrow> 't \<Rightarrow> 't outcome"
  move_cursor :: "nat \<Rightarrow> nat \<Rightarrow> 't \<Rightarrow> 't outcome"
  term_clear :: "'t \<Rightarrow> 't outcome"

definition draw_line :: "'t terminal_device \<Rightarrow> nat \<times> string \<Rightarrow> 't \<Rightarrow> 't outcome" where
  "draw_line dev yl = for_each (\<lambda>(x, c). put_char dev x (fst yl) c) (List.enumerate 0 (chars (snd yl)))"

definition draw :: "'t terminal_device \<Rightarrow> editor \<Rightarrow> 't \<Rightarrow> 't outcome" where
  "draw dev e t =
    obind (term_clear dev t) (\<lambda>t1.
    obind (for_each (draw_line dev) (List.enumerate 0 (ed_lines e)) t1) (\<lambda>t2.
    move_cursor dev (cursor_x e) (cursor_y e) t2))"

text \<open>
  \<^verbatim>\<open>VgaTerminal\<close> on the screen and the two cursor registers of the CRT controller, which the port pair
  \<^verbatim>\<open>0x3D4\<close>, \<^verbatim>\<open>0x3D5\<close> addresses by index and value.
\<close>

record vga_terminal =
  term_writer :: writer
  crtc_index :: u8
  crtc_regs :: "u8 \<Rightarrow> u8"

definition crtc_out :: "u16 \<times> u8 \<Rightarrow> vga_terminal \<Rightarrow> vga_terminal" where
  "crtc_out pv t =
    (if fst pv = 0x3D4 then t\<lparr>crtc_index := snd pv\<rparr>
     else if fst pv = 0x3D5 then t\<lparr>crtc_regs := (crtc_regs t)(crtc_index t := snd pv)\<rparr> else t)"

definition on_writer :: "(writer \<Rightarrow> writer outcome) \<Rightarrow> vga_terminal \<Rightarrow> vga_terminal outcome" where
  "on_writer f t = obind (f (term_writer t)) (\<lambda>w. Ret (t\<lparr>term_writer := w\<rparr>))"

definition vga_device :: "vga_terminal terminal_device" where
  "vga_device =
    \<lparr>dimensions = (80, 25),
     put_char = (\<lambda>x y c. on_writer (write_char_at x y (of_nat c) 0x0F)),
     move_cursor = (\<lambda>x y t. Ret (fold crtc_out (update_cursor x y) t)),
     term_clear = on_writer clear_screen\<rparr>"

section \<open>The text around the cursor\<close>

text \<open>
  The specification of the editor is one flat text with a gap: \<open>before e\<close> and \<open>after e\<close> are the characters
  on the two sides of the cursor, newlines included.
\<close>

definition before :: "editor \<Rightarrow> string" where
  "before e = join [newline] (take (cursor_y e) (ed_lines e) @ [take (cursor_x e) (ed_lines e ! cursor_y e)])"

definition after :: "editor \<Rightarrow> string" where
  "after e = join [newline] (drop (cursor_x e) (ed_lines e ! cursor_y e) # drop (Suc (cursor_y e)) (ed_lines e))"

definition ed_inv :: "editor \<Rightarrow> bool" where
  "ed_inv e \<longleftrightarrow> cursor_y e < length (ed_lines e) \<and> cursor_x e \<le> length (ed_lines e ! cursor_y e)
     \<and> (\<forall>l\<in>set (ed_lines e). ascii l \<and> newline \<notin> set l)"

lemma join_snoc: "join sep (xs @ [a]) = (if xs = [] then a else join sep xs @ sep @ a)"
  by (induction sep xs rule: join.induct) auto

lemma join_append:
  "join sep (xs @ ys) = (if xs = [] then join sep ys else if ys = [] then join sep xs
     else join sep xs @ sep @ join sep ys)"
proof (induction sep xs rule: join.induct)
  case (2 sep s)
  then show ?case by (cases ys) auto
qed auto

lemma join_Cons: "join sep (a # xs) = (if xs = [] then a else a @ sep @ join sep xs)"
  by (cases xs) auto

lemma before_after: "ed_inv e \<Longrightarrow> join [newline] (ed_lines e) = before e @ after e"
proof -
  assume "ed_inv e"
  then have y: "cursor_y e < length (ed_lines e)" by (simp add: ed_inv_def)
  let ?l = "ed_lines e ! cursor_y e"
  have "join [newline] (ed_lines e) = join [newline] (take (cursor_y e) (ed_lines e) @ ?l # drop (Suc (cursor_y e)) (ed_lines e))"
    using y by (simp add: id_take_nth_drop [symmetric])
  also have "\<dots> = before e @ after e"
    using append_take_drop_id [of "cursor_x e" ?l] unfolding before_def after_def
    by (simp add: join_append join_snoc join_Cons del: append_take_drop_id)
      (metis append.assoc)
  finally show ?thesis .
qed

lemma newline_code: "char_of (10 :: nat) = newline"
  by (simp add: newline_def)

lemma ascii_char: "c < 0x80 \<Longrightarrow> c \<noteq> 10 \<Longrightarrow> encode_utf8 c = [char_of c] \<and> (of_char (char_of c :: char) :: nat) = c \<and> char_of c \<noteq> newline"
  by (simp add: encode_ascii newline_def char_of_eq_iff take_bit_eq_mod)

lemma in_set_list_update: "x \<in> set (xs[i := y]) \<Longrightarrow> x = y \<or> x \<in> set xs"
  using set_update_subset_insert by fastforce

text \<open>Typing puts the character, newlines included, into the gap.\<close>

lemma insert_char_refines:
  assumes inv: "ed_inv e" and c: "c < 0x80"
  shows "\<exists>e'. insert_char c e = Ret e' \<and> ed_inv e' \<and> before e' = before e @ [char_of c] \<and> after e' = after e"
proof (cases "c = 10")
  case True
  let ?l = "ed_lines e ! cursor_y e"
  let ?ls = "take (cursor_y e) (ed_lines e) @ take (cursor_x e) ?l # drop (cursor_x e) ?l # drop (Suc (cursor_y e)) (ed_lines e)"
  let ?e = "e\<lparr>ed_lines := ?ls, cursor_y := cursor_y e + 1, cursor_x := 0\<rparr>"
  have I: "cursor_y e < length (ed_lines e)" "cursor_x e \<le> length ?l" "ascii ?l" "newline \<notin> set ?l"
    "\<forall>l\<in>set (ed_lines e). ascii l \<and> newline \<notin> set l"
    using inv by (auto simp: ed_inv_def)
  have "insert_char c e = Ret ?e"
    using I True by (simp add: insert_char_def insert_newline_def line_at_def split_off_def boundary_ascii
        vec_insert_def upd_conv_take_nth_drop)
  moreover have "ed_inv ?e"
    using I by (auto simp: ed_inv_def nth_append ascii_take ascii_drop dest: in_set_takeD in_set_dropD)
  moreover have "before ?e = before e @ [char_of c]" "after ?e = after e"
    using I True by (simp_all add: before_def after_def nth_append newline_code join_append)
  ultimately show ?thesis by blast
next
  case False
  let ?l = "ed_lines e ! cursor_y e"
  let ?l' = "take (cursor_x e) ?l @ char_of c # drop (cursor_x e) ?l"
  let ?e = "e\<lparr>ed_lines := (ed_lines e)[cursor_y e := ?l'], cursor_x := cursor_x e + 1\<rparr>"
  note ch = ascii_char [OF c False]
  have I: "cursor_y e < length (ed_lines e)" "cursor_x e \<le> length ?l" "ascii ?l" "newline \<notin> set ?l"
    "\<forall>l\<in>set (ed_lines e). ascii l \<and> newline \<notin> set l"
    using inv by (auto simp: ed_inv_def)
  have "insert_char c e = Ret ?e"
    using I False ch by (simp add: insert_char_def line_at_def string_insert_def boundary_ascii)
  moreover have "newline \<notin> set ?l'" using I(4) ch by (auto dest: in_set_takeD in_set_dropD)
  then have "ed_inv ?e"
    using I ch c by (auto simp: ed_inv_def ascii_take ascii_drop dest!: in_set_list_update)
  moreover have "before ?e = before e @ [char_of c]" "after ?e = after e"
    using I by (simp_all add: before_def after_def join_snoc)
  ultimately show ?thesis by blast
qed

text \<open>The erase key takes back the character before the gap, joining two lines if it is a newline.\<close>

lemma string_remove_ascii:
  assumes "ascii s" "i < length s"
  shows "string_remove s i = Ret (take i s @ drop (Suc i) s)"
proof -
  have "chars (drop i s) = of_char (s ! i) # chars (drop (Suc i) s)"
    unfolding chars_ascii [OF ascii_drop [OF assms(1)]] using assms(2) by (simp add: Cons_nth_drop_Suc [symmetric])
  moreover have "(of_char (s ! i) :: nat) < 0x80" using assms by (simp add: ascii_def)
  ultimately show ?thesis
    using assms by (simp add: string_remove_def boundary_ascii encode_ascii)
qed

lemma before_Suc_x:
  "cursor_x e < length (ed_lines e ! cursor_y e) \<Longrightarrow> e' = e\<lparr>cursor_x := Suc (cursor_x e)\<rparr> \<Longrightarrow>
    before e' = before e @ [ed_lines e ! cursor_y e ! cursor_x e]
    \<and> after e = (ed_lines e ! cursor_y e ! cursor_x e) # after e'"
  by (simp add: before_def after_def join_snoc join_Cons take_Suc_conv_app_nth Cons_nth_drop_Suc [symmetric])

lemma before_Suc_y:
  assumes "Suc (cursor_y e) < length (ed_lines e)" "cursor_x e = length (ed_lines e ! cursor_y e)"
    and e': "e' = e\<lparr>cursor_y := Suc (cursor_y e), cursor_x := 0\<rparr>"
  shows "before e' = before e @ [newline] \<and> after e = newline # after e'"
proof -
  have "take (Suc (cursor_y e)) (ed_lines e) = take (cursor_y e) (ed_lines e) @ [ed_lines e ! cursor_y e]"
    "drop (Suc (cursor_y e)) (ed_lines e) = ed_lines e ! Suc (cursor_y e) # drop (Suc (Suc (cursor_y e))) (ed_lines e)"
    using assms(1) by (simp_all add: take_Suc_conv_app_nth Cons_nth_drop_Suc)
  then show ?thesis using assms(2) unfolding e' by (simp add: before_def after_def join_append)
qed

lemma before_0: "cursor_x e = 0 \<Longrightarrow> cursor_y e = 0 \<Longrightarrow> before e = []"
  by (simp add: before_def)

lemma backspace_refines:
  assumes inv: "ed_inv e"
  shows "\<exists>e'. ed_backspace e = Ret e' \<and> ed_inv e' \<and> before e' = butlast (before e) \<and> after e' = after e"
proof -
  let ?l = "ed_lines e ! cursor_y e"
  have I: "cursor_y e < length (ed_lines e)" "cursor_x e \<le> length ?l" "ascii ?l" "newline \<notin> set ?l"
    "\<forall>l\<in>set (ed_lines e). ascii l \<and> newline \<notin> set l"
    using inv by (auto simp: ed_inv_def)
  consider x where "cursor_x e = Suc x" | y where "cursor_x e = 0" "cursor_y e = Suc y" | "cursor_x e = 0" "cursor_y e = 0"
    by (metis not0_implies_Suc)
  then show ?thesis
  proof cases
    case 1
    let ?e = "e\<lparr>ed_lines := (ed_lines e)[cursor_y e := take x ?l @ drop (Suc x) ?l], cursor_x := x\<rparr>"
    have x: "x < length ?l" using I 1 by simp
    have "ed_backspace e = Ret ?e"
      using I 1 x by (simp add: ed_backspace_def line_at_def string_remove_ascii)
    moreover have "newline \<notin> set (take x ?l @ drop (Suc x) ?l)"
      using I(4) by (auto dest: in_set_takeD in_set_dropD)
    then have "ed_inv ?e"
      using I x by (auto simp: ed_inv_def ascii_take ascii_drop dest!: in_set_list_update)
    moreover have "before ?e = butlast (before e)" "after ?e = after e"
      using I 1 x by (simp_all add: before_def after_def join_snoc take_Suc_conv_app_nth butlast_append)
    ultimately show ?thesis by blast
  next
    case 2
    let ?p = "ed_lines e ! y"
    let ?ls = "take y (ed_lines e) @ (?p @ ?l) # drop (Suc (Suc y)) (ed_lines e)"
    let ?e = "e\<lparr>ed_lines := ?ls, cursor_x := length ?p, cursor_y := y\<rparr>"
    have t: "take (Suc y) (ed_lines e) = take y (ed_lines e) @ [?p]" "length (take y (ed_lines e)) = y"
      "?p \<in> set (ed_lines e)" "?l \<in> set (ed_lines e)"
      using I(1) 2 by (simp_all add: take_Suc_conv_app_nth)
    then have "ed_backspace e = Ret ?e"
      using I 2 by (simp add: ed_backspace_def vec_remove_def line_at_def nth_append list_update_append)
    moreover have "ed_inv ?e"
      using I t(2-4) by (auto simp: ed_inv_def nth_append dest: in_set_takeD in_set_dropD)
    moreover have "before ?e = butlast (before e)" "after ?e = after e"
      using I(1) 2 t(1,2) by (simp_all add: before_def after_def nth_append join_append butlast_append)
    ultimately show ?thesis by blast
  next
    case 3
    then show ?thesis using inv before_0 [of e] by (simp add: ed_backspace_def)
  qed
qed

text \<open>The arrow keys move characters from one side of the gap to the other.\<close>

lemma move_left_refines:
  assumes inv: "ed_inv e"
  shows "\<exists>e'. move_cursor_left e = Ret e' \<and> ed_inv e' \<and> ed_lines e' = ed_lines e
    \<and> before e' = butlast (before e) \<and> (before e \<noteq> [] \<longrightarrow> after e' = last (before e) # after e)"
proof -
  consider x where "cursor_x e = Suc x" | y where "cursor_x e = 0" "cursor_y e = Suc y" | "cursor_x e = 0" "cursor_y e = 0"
    by (metis not0_implies_Suc)
  then show ?thesis
  proof cases
    case 1
    then have "e = e\<lparr>cursor_x := x\<rparr>\<lparr>cursor_x := Suc (cursor_x (e\<lparr>cursor_x := x\<rparr>))\<rparr>" by (cases e) simp
    then show ?thesis
      using inv 1 before_Suc_x [of "e\<lparr>cursor_x := x\<rparr>" e] by (simp add: move_cursor_left_def ed_inv_def)
  next
    case 2
    let ?e = "e\<lparr>cursor_y := y, cursor_x := length (ed_lines e ! y)\<rparr>"
    have "e = ?e\<lparr>cursor_y := Suc (cursor_y ?e), cursor_x := 0\<rparr>" using 2 by (cases e) simp
    then have "before e = before ?e @ [newline] \<and> after ?e = newline # after e"
      using before_Suc_y [of ?e e] inv 2 by (simp add: ed_inv_def)
    then show ?thesis using inv 2 by (simp add: move_cursor_left_def line_at_def ed_inv_def)
  next
    case 3
    then show ?thesis using inv before_0 [of e] by (simp add: move_cursor_left_def)
  qed
qed

lemma move_right_refines:
  assumes inv: "ed_inv e"
  shows "\<exists>e'. move_cursor_right e = Ret e' \<and> ed_inv e' \<and> ed_lines e' = ed_lines e \<and> after e' = tl (after e)
    \<and> (after e \<noteq> [] \<longrightarrow> before e' = before e @ [hd (after e)])"
proof -
  have y: "cursor_y e < length (ed_lines e)" using inv by (simp add: ed_inv_def)
  consider "cursor_x e < length (ed_lines e ! cursor_y e)"
    | "cursor_x e = length (ed_lines e ! cursor_y e)" "Suc (cursor_y e) < length (ed_lines e)"
    | "cursor_x e = length (ed_lines e ! cursor_y e)" "Suc (cursor_y e) = length (ed_lines e)"
    using inv by (fastforce simp: ed_inv_def)
  then show ?thesis
  proof cases
    case 1
    then show ?thesis
      using inv y before_Suc_x [OF 1 refl] by (simp add: move_cursor_right_def line_at_def ed_inv_def)
  next
    case 2
    then show ?thesis
      using inv y before_Suc_y [OF 2(2,1) refl] by (auto simp: move_cursor_right_def line_at_def ed_inv_def)
  next
    case 3
    then show ?thesis using inv y by (auto simp: move_cursor_right_def line_at_def after_def)
  qed
qed

lemma move_up_refines:
  assumes "ed_inv e"
  shows "\<exists>e'. move_cursor_up e = Ret e' \<and> ed_inv e' \<and> ed_lines e' = ed_lines e \<and> cursor_y e' = cursor_y e - 1
    \<and> cursor_x e' = min (cursor_x e) (length (ed_lines e ! cursor_y e'))"
  using assms by (cases "cursor_y e") (auto simp: move_cursor_up_def move_to_line_def line_at_def ed_inv_def min_def)

lemma move_down_refines:
  assumes "ed_inv e"
  shows "\<exists>e'. move_cursor_down e = Ret e' \<and> ed_inv e' \<and> ed_lines e' = ed_lines e
    \<and> cursor_y e' = min (cursor_y e + 1) (length (ed_lines e) - 1)
    \<and> cursor_x e' = min (cursor_x e) (length (ed_lines e ! cursor_y e'))"
proof -
  consider "cursor_y e < length (ed_lines e) - 1" | "cursor_y e = length (ed_lines e) - 1" "ed_lines e \<noteq> []"
    using assms by (fastforce simp: ed_inv_def)
  then show ?thesis
  proof cases
    case 1
    then have "min (cursor_y e + 1) (length (ed_lines e) - 1) = cursor_y e + 1" "cursor_y e + 1 < length (ed_lines e)"
      by auto
    then show ?thesis
      using assms 1 by (auto simp: move_cursor_down_def move_to_line_def line_at_def ed_inv_def)
  next
    case 2
    then show ?thesis using assms by (auto simp: move_cursor_down_def ed_inv_def)
  qed
qed

section \<open>What drawing shows\<close>

text \<open>
  The contract of a terminal device: what a cell shows after each operation. Clearing is only promised
  for the rows above the last one.
\<close>

locale terminal_laws =
  fixes dev :: "'t terminal_device"
    and ok :: "'t \<Rightarrow> bool"
    and glyph :: "'t \<Rightarrow> nat \<Rightarrow> nat \<Rightarrow> u8"
    and cursor :: "'t \<Rightarrow> nat \<times> nat"
  assumes put_char_law: "ok t \<Longrightarrow> \<exists>t'. put_char dev x y c t = Ret t' \<and> ok t'
      \<and> (\<forall>i < fst (dimensions dev). \<forall>j < snd (dimensions dev).
            glyph t' i j = (if i = x \<and> j = y then of_nat c else glyph t i j))"
    and clear_law: "ok t \<Longrightarrow> \<exists>t'. term_clear dev t = Ret t' \<and> ok t'
      \<and> (\<forall>i < fst (dimensions dev). \<forall>j < snd (dimensions dev) - 1. glyph t' i j = 0x20)"
    and cursor_law: "ok t \<Longrightarrow> \<exists>t'. move_cursor dev x y t = Ret t' \<and> ok t'
      \<and> (\<forall>i < fst (dimensions dev). \<forall>j < snd (dimensions dev). glyph t' i j = glyph t i j)
      \<and> (x < fst (dimensions dev) \<longrightarrow> y < snd (dimensions dev) \<longrightarrow> cursor t' = (x, y))"
begin

abbreviation on_screen :: "nat \<Rightarrow> nat \<Rightarrow> bool" where
  "on_screen i j \<equiv> i < fst (dimensions dev) \<and> j < snd (dimensions dev)"

lemma draw_line_shows:
  "ok t \<Longrightarrow> \<exists>t'. for_each (\<lambda>(x, c). put_char dev x y c) (List.enumerate k cs) t = Ret t' \<and> ok t'
    \<and> (\<forall>i j. on_screen i j \<longrightarrow> glyph t' i j =
        (if j = y \<and> k \<le> i \<and> i < k + length cs then of_nat (cs ! (i - k)) else glyph t i j))"
proof (induction cs arbitrary: k t)
  case (Cons c cs)
  obtain t1 where t1: "put_char dev k y c t = Ret t1" "ok t1"
      "\<And>i j. on_screen i j \<Longrightarrow> glyph t1 i j = (if i = k \<and> j = y then of_nat c else glyph t i j)"
    using put_char_law [OF Cons.prems, of k y c] by blast
  obtain t2 where t2: "for_each (\<lambda>(x, c). put_char dev x y c) (List.enumerate (Suc k) cs) t1 = Ret t2" "ok t2"
      "\<And>i j. on_screen i j \<Longrightarrow> glyph t2 i j =
        (if j = y \<and> Suc k \<le> i \<and> i < Suc k + length cs then of_nat (cs ! (i - Suc k)) else glyph t1 i j)"
    using Cons.IH [OF t1(2), of "Suc k"] by blast
  have "glyph t2 i j = (if j = y \<and> k \<le> i \<and> i < k + length (c # cs) then of_nat ((c # cs) ! (i - k)) else glyph t i j)"
    if "on_screen i j" for i j
    using t1(3) [OF that] t2(3) [OF that] by (cases "i = k") (auto simp: nth_Cons' Suc_diff_le)
  then show ?case using t1(1) t2(1,2) by auto
qed auto

lemma draw_lines_show:
  "ok t \<Longrightarrow> \<exists>t'. for_each (draw_line dev) (List.enumerate k ls) t = Ret t' \<and> ok t'
    \<and> (\<forall>i j. on_screen i j \<longrightarrow> glyph t' i j =
        (if k \<le> j \<and> j < k + length ls \<and> i < length (chars (ls ! (j - k)))
         then of_nat (chars (ls ! (j - k)) ! i) else glyph t i j))"
proof (induction ls arbitrary: k t)
  case (Cons l ls)
  obtain t1 where t1: "draw_line dev (k, l) t = Ret t1" "ok t1"
      "\<And>i j. on_screen i j \<Longrightarrow> glyph t1 i j = (if j = k \<and> i < length (chars l) then of_nat (chars l ! i) else glyph t i j)"
    using draw_line_shows [OF Cons.prems, of k 0 "chars l"] by (auto simp: draw_line_def)
  obtain t2 where t2: "for_each (draw_line dev) (List.enumerate (Suc k) ls) t1 = Ret t2" "ok t2"
      "\<And>i j. on_screen i j \<Longrightarrow> glyph t2 i j =
        (if Suc k \<le> j \<and> j < Suc k + length ls \<and> i < length (chars (ls ! (j - Suc k)))
         then of_nat (chars (ls ! (j - Suc k)) ! i) else glyph t1 i j)"
    using Cons.IH [OF t1(2), of "Suc k"] by blast
  have "glyph t2 i j = (if k \<le> j \<and> j < k + length (l # ls) \<and> i < length (chars ((l # ls) ! (j - k)))
      then of_nat (chars ((l # ls) ! (j - k)) ! i) else glyph t i j)" if "on_screen i j" for i j
    using t1(3) [OF that] t2(3) [OF that] by (cases "j = k") (auto simp: nth_Cons' Suc_diff_le)
  then show ?case using t1(1) t2(1,2) by auto
qed auto

text \<open>After drawing, every cell above the last row shows the character of the text there, or a blank.\<close>

lemma draw_shows:
  assumes "ok t"
  shows "\<exists>t'. draw dev e t = Ret t' \<and> ok t'
    \<and> (\<forall>i < fst (dimensions dev). \<forall>j < snd (dimensions dev) - 1. glyph t' i j =
        (if j < length (ed_lines e) \<and> i < length (chars (ed_lines e ! j))
         then of_nat (chars (ed_lines e ! j) ! i) else 0x20))
    \<and> (cursor_x e < fst (dimensions dev) \<longrightarrow> cursor_y e < snd (dimensions dev) \<longrightarrow> cursor t' = (cursor_x e, cursor_y e))"
proof -
  obtain t1 where t1: "term_clear dev t = Ret t1" "ok t1"
      "\<And>i j. i < fst (dimensions dev) \<Longrightarrow> j < snd (dimensions dev) - 1 \<Longrightarrow> glyph t1 i j = 0x20"
    using clear_law [OF assms] by blast
  obtain t2 where t2: "for_each (draw_line dev) (List.enumerate 0 (ed_lines e)) t1 = Ret t2" "ok t2"
      "\<And>i j. on_screen i j \<Longrightarrow> glyph t2 i j = (if j < length (ed_lines e) \<and> i < length (chars (ed_lines e ! j))
         then of_nat (chars (ed_lines e ! j) ! i) else glyph t1 i j)"
    using draw_lines_show [OF t1(2), of 0 "ed_lines e"] by auto
  obtain t3 where t3: "move_cursor dev (cursor_x e) (cursor_y e) t2 = Ret t3" "ok t3"
      "\<And>i j. on_screen i j \<Longrightarrow> glyph t3 i j = glyph t2 i j"
      "cursor_x e < fst (dimensions dev) \<longrightarrow> cursor_y e < snd (dimensions dev) \<longrightarrow> cursor t3 = (cursor_x e, cursor_y e)"
    using cursor_law [OF t2(2), of "cursor_x e" "cursor_y e"] by blast
  have "draw dev e t = Ret t3" using t1(1) t2(1) t3(1) by (simp add: draw_def)
  then show ?thesis using t1(3) t2(3) t3(2-4) by auto
qed

end

section \<open>The VGA terminal\<close>

definition vga_ok :: "vga_terminal \<Rightarrow> bool" where
  "vga_ok t \<longleftrightarrow> wf_writer (term_writer t)"

definition vga_glyph :: "vga_terminal \<Rightarrow> nat \<Rightarrow> nat \<Rightarrow> u8" where
  "vga_glyph t x y = ascii_character (buffer (term_writer t) ! y ! x)"

definition vga_cursor :: "vga_terminal \<Rightarrow> nat \<times> nat" where
  "vga_cursor t =
    (let pos = unat (crtc_regs t 0x0E) * 256 + unat (crtc_regs t 0x0F) in (pos mod 80, pos div 80))"

lemma vga_put_char:
  assumes "vga_ok t"
  shows "\<exists>t'. put_char vga_device x y c t = Ret t' \<and> vga_ok t'
    \<and> (\<forall>i<80. \<forall>j<25. vga_glyph t' i j = (if i = x \<and> j = y then of_nat c else vga_glyph t i j))"
proof (cases "x < 80 \<and> y < 25")
  case True
  let ?w = "term_writer t"
  let ?row = "(buffer ?w ! y)[x := \<lparr>ascii_character = of_nat c, color_code = 0x0F\<rparr>]"
  have wf: "wf_vga (buffer ?w)" using assms by (simp add: vga_ok_def wf_writer_def)
  then have "put_char vga_device x y c t = Ret (t\<lparr>term_writer := ?w\<lparr>buffer := (buffer ?w)[y := ?row]\<rparr>\<rparr>)"
    using True by (simp add: vga_device_def on_writer_def write_char_at_def with_buffer_def cell_write_ok dims)
  moreover have "vga_glyph (t\<lparr>term_writer := ?w\<lparr>buffer := (buffer ?w)[y := ?row]\<rparr>\<rparr>) i j
      = (if i = x \<and> j = y then of_nat c else vga_glyph t i j)" if "i < 80" "j < 25" for i j
    using that wf True by (auto simp: vga_glyph_def nth_list_update)
  ultimately show ?thesis
    using wf True assms by (auto simp: vga_ok_def wf_writer_def wf_cell_write)
next
  case False
  then have "put_char vga_device x y c t = Ret t"
    by (auto simp: vga_device_def on_writer_def write_char_at_def dims)
  then show ?thesis using assms False by auto
qed

lemma vga_clear:
  assumes "vga_ok t"
  shows "\<exists>t'. term_clear vga_device t = Ret t' \<and> vga_ok t' \<and> (\<forall>i<80. \<forall>j<24. vga_glyph t' i j = 0x20)"
proof -
  let ?w = "term_writer t"
  let ?b = "replicate 24 (replicate 80 (blank_char (writer_color ?w))) @ [buffer ?w ! 24]"
  have wf: "wf_vga (buffer ?w)" using assms by (simp add: vga_ok_def wf_writer_def)
  have "term_clear vga_device t = Ret (t\<lparr>term_writer := ?w\<lparr>buffer := ?b\<rparr>\<rparr>)"
    using writer_clear_eq [OF wf] by (simp add: vga_device_def on_writer_def clear_screen_def)
  moreover have "wf_vga ?b" using wf by (simp add: wf_vga_def)
  moreover have "?b ! j ! i = blank_char (writer_color ?w)" if "i < 80" "j < 24" for i j
    using that by (simp add: nth_append)
  ultimately show ?thesis
    using assms by (auto simp: vga_ok_def wf_writer_def vga_glyph_def blank_char_def)
qed

lemma vga_move_cursor:
  "\<exists>t'. move_cursor vga_device x y t = Ret t' \<and> term_writer t' = term_writer t
    \<and> (x < 80 \<longrightarrow> y < 25 \<longrightarrow> vga_cursor t' = (x, y))"
proof -
  let ?p = "y * 80 + x"
  have "vga_cursor (fold crtc_out (update_cursor x y) t) = (x, y)" if "x < 80" "y < 25"
  proof -
    have p: "?p div 256 < 256" "?p mod 80 = x" "?p div 80 = y" "?p div 256 * 256 + ?p mod 256 = ?p"
      using that by auto
    then have "unat (of_nat (?p div 256 mod 256) :: u8) * 256 + unat (of_nat (?p mod 256) :: u8) = ?p"
      by (simp add: unat_of_nat_small)
    then show ?thesis
      using p(2,3) by (simp add: vga_cursor_def update_cursor_def crtc_out_def BUFFER_WIDTH_def Let_def)
  qed
  moreover have "term_writer (fold crtc_out (update_cursor x y) t) = term_writer t"
    by (simp add: update_cursor_def crtc_out_def Let_def)
  ultimately show ?thesis by (simp add: vga_device_def)
qed

interpretation vt: terminal_laws vga_device vga_ok vga_glyph vga_cursor
proof
  have d: "dimensions vga_device = (80, 25)" by (simp add: vga_device_def)
  show "\<exists>t'. put_char vga_device x y c t = Ret t' \<and> vga_ok t' \<and> (\<forall>i < fst (dimensions vga_device).
      \<forall>j < snd (dimensions vga_device). vga_glyph t' i j = (if i = x \<and> j = y then of_nat c else vga_glyph t i j))"
    if "vga_ok t" for t x y c
    using vga_put_char [OF that] by (simp add: d)
  show "\<exists>t'. term_clear vga_device t = Ret t' \<and> vga_ok t'
      \<and> (\<forall>i < fst (dimensions vga_device). \<forall>j < snd (dimensions vga_device) - 1. vga_glyph t' i j = 0x20)"
    if "vga_ok t" for t
    using vga_clear [OF that] by (simp add: d)
  show "\<exists>t'. move_cursor vga_device x y t = Ret t' \<and> vga_ok t'
      \<and> (\<forall>i < fst (dimensions vga_device). \<forall>j < snd (dimensions vga_device). vga_glyph t' i j = vga_glyph t i j)
      \<and> (x < fst (dimensions vga_device) \<longrightarrow> y < snd (dimensions vga_device) \<longrightarrow> vga_cursor t' = (x, y))"
    if "vga_ok t" for t x y
    using vga_move_cursor [of x y t] that by (auto simp: d vga_ok_def vga_glyph_def)
qed

section \<open>Properties\<close>



end
