(* ===== verification/Editor_Session.thy ===== *)
theory Editor_Session
  imports Editor File_Store
begin

text \<open>
  An editing session (\<^verbatim>\<open>run_editor\<close>): the file name from the arguments, loading, the key loop, drawing, and
  saving on Escape. The decoder of the \<^verbatim>\<open>pc_keyboard\<close> crate is a parameter.
\<close>

section \<open>File names\<close>

definition split_dot :: "string \<Rightarrow> (string \<times> string) option" where
  "split_dot tok =
    (if CHR ''.'' \<in> set tok
     then Some (takeWhile (\<lambda>c. c \<noteq> CHR ''.'') tok, tl (dropWhile (\<lambda>c. c \<noteq> CHR ''.'') tok)) else None)"

definition editor_names :: "string list \<Rightarrow> string \<times> string" where
  "editor_names args =
    (case drop 1 args of
       [] \<Rightarrow> (''UNNAMED'', ''TXT'')
     | tok # rest \<Rightarrow>
         (case split_dot tok of
            Some ne \<Rightarrow> ne
          | None \<Rightarrow> (tok, (case rest of [] \<Rightarrow> ''TXT'' | e # _ \<Rightarrow> e))))"

definition format_fat16_name :: "string \<Rightarrow> string \<Rightarrow> u8 list \<times> u8 list" where
  "format_fat16_name name_str ext_str =
    (copy_at (replicate 8 0x20) 0 (map to_ascii_uppercase (take 8 (as_bytes name_str))),
     copy_at (replicate 3 0x20) 0 (map to_ascii_uppercase (take 3 (as_bytes ext_str))))"

section \<open>Loading and saving\<close>

definition editor_load :: "bpb option \<Rightarrow> disk \<Rightarrow> u8 list \<Rightarrow> u8 list \<Rightarrow> string outcome" where
  "editor_load fs dk name ext =
    (case fs of
       None \<Rightarrow> Ret ''''
     | Some b \<Rightarrow>
         obind (find_file b dk name ext) (\<lambda>entry.
         case entry of
           None \<Rightarrow> Ret ''''
         | Some e \<Rightarrow> obind (read_file b dk e) (\<lambda>bytes. Ret (from_utf8_lossy bytes))))"

definition editor_save :: "bpb option \<Rightarrow> u8 list \<Rightarrow> u8 list \<Rightarrow> editor \<Rightarrow> disk \<Rightarrow> disk outcome" where
  "editor_save fs name ext e dk =
    (case fs of
       None \<Rightarrow> Ret dk
     | Some b \<Rightarrow>
         let bytes_to_write = as_bytes (join [newline] (ed_lines e))
         in obind (find_file b dk name ext) (\<lambda>entry.
            case entry of
              Some _ \<Rightarrow> obind (overwrite_file b name ext bytes_to_write dk) (\<lambda>(_, dk'). Ret dk')
            | None \<Rightarrow> obind (write_new_file b name ext bytes_to_write dk) (\<lambda>(_, dk'). Ret dk')))"

section \<open>The key loop\<close>

text \<open>One decoded key; \<open>None\<close> is Escape.\<close>

definition editor_key :: "decoded_key \<Rightarrow> editor \<Rightarrow> editor option outcome" where
  "editor_key key e =
    (case key of
       Unicode character \<Rightarrow>
         if character = 0x1b then Ret None
         else obind (if character = 8 then ed_backspace e else insert_char character e) (\<lambda>e'. Ret (Some e'))
     | RawKey raw_key \<Rightarrow>
         obind (case raw_key of
                  ArrowLeft \<Rightarrow> move_cursor_left e
                | ArrowRight \<Rightarrow> move_cursor_right e
                | ArrowUp \<Rightarrow> move_cursor_up e
                | ArrowDown \<Rightarrow> move_cursor_down e
                | _ \<Rightarrow> Ret e) (\<lambda>e'. Ret (Some e')))"

text \<open>
  The inner loop over the queued events: whether Escape was typed, the events left, the decoder, the buffer,
  and whether a redraw is needed.
\<close>

fun editor_events :: "('k \<Rightarrow> key_event \<Rightarrow> decoded_key option \<times> 'k) \<Rightarrow> key_event list \<Rightarrow> 'k \<Rightarrow> editor \<Rightarrow> bool
    \<Rightarrow> (bool \<times> key_event list \<times> 'k \<times> editor \<times> bool) outcome" where
  "editor_events dec [] kb e redraw = Ret (False, [], kb, e, redraw)"
| "editor_events dec (ev # evs) kb e redraw =
    (case dec kb ev of
       (None, kb') \<Rightarrow> editor_events dec evs kb' e redraw
     | (Some key, kb') \<Rightarrow>
         obind (editor_key key e) (\<lambda>r.
         case r of None \<Rightarrow> Ret (True, evs, kb', e, redraw)
         | Some e' \<Rightarrow> editor_events dec evs kb' e' True))"

text \<open>
  One round of the outer loop up to the yield: \<open>Inl\<close> when the session is over, with the saved disk.
\<close>

definition editor_round :: "('k \<Rightarrow> key_event \<Rightarrow> decoded_key option \<times> 'k) \<Rightarrow> bpb option \<Rightarrow> u8 list \<Rightarrow> u8 list
    \<Rightarrow> key_event list \<Rightarrow> 'k \<Rightarrow> editor \<Rightarrow> vga_terminal \<Rightarrow> disk
    \<Rightarrow> ((key_event list \<times> vga_terminal \<times> disk) + ('k \<times> editor \<times> vga_terminal)) outcome" where
  "editor_round dec fs name ext evs kb e t dk =
    obind (editor_events dec evs kb e False) (\<lambda>(left, rest, kb', e', redraw).
      if left then
        obind (on_writer clear_screen t) (\<lambda>t'.
        obind (editor_save fs name ext e' dk) (\<lambda>dk'. Ret (Inl (rest, t', dk'))))
      else obind (if redraw then draw vga_device e' t else Ret t) (\<lambda>t'. Ret (Inr (kb', e', t'))))"

fun editor_loop :: "('k \<Rightarrow> key_event \<Rightarrow> decoded_key option \<times> 'k) \<Rightarrow> bpb option \<Rightarrow> u8 list \<Rightarrow> u8 list
    \<Rightarrow> key_event list list \<Rightarrow> 'k \<Rightarrow> editor \<Rightarrow> vga_terminal \<Rightarrow> disk
    \<Rightarrow> ((key_event list list \<times> vga_terminal \<times> disk) + ('k \<times> editor \<times> vga_terminal)) outcome" where
  "editor_loop dec fs name ext [] kb e t dk = Ret (Inr (kb, e, t))"
| "editor_loop dec fs name ext (evs # batches) kb e t dk =
    obind (editor_round dec fs name ext evs kb e t dk) (\<lambda>r.
      case r of Inl (rest, t', dk') \<Rightarrow> Ret (Inl (rest # batches, t', dk'))
      | Inr (kb', e', t') \<Rightarrow> editor_loop dec fs name ext batches kb' e' t' dk)"

text \<open>
  The session over the batches of events found in the queue at each round. When it ends, the rest of the
  queue and the batches still to come are left.
\<close>

definition run_editor :: "('k \<Rightarrow> key_event \<Rightarrow> decoded_key option \<times> 'k) \<Rightarrow> 'k \<Rightarrow> bpb option \<Rightarrow> string list
    \<Rightarrow> key_event list list \<Rightarrow> vga_terminal \<Rightarrow> disk
    \<Rightarrow> ((key_event list list \<times> vga_terminal \<times> disk) + ('k \<times> editor \<times> vga_terminal)) outcome" where
  "run_editor dec kb fs args batches t dk =
    (let (name_arg, ext_arg) = editor_names args;
         (fat_name, fat_ext) = format_fat16_name name_arg ext_arg
     in obind (editor_load fs dk fat_name fat_ext) (\<lambda>initial_data.
        let e = editor_new initial_data
        in obind (draw vga_device e t) (\<lambda>t1. editor_loop dec fs fat_name fat_ext batches kb e t1 dk)))"

section \<open>Editing keys\<close>

text \<open>
  The gap text a key leads to. The vertical arrows move the gap without changing the text; where
  they put it is stated by \<open>move_up_refines\<close> and \<open>move_down_refines\<close>.
\<close>

definition gap_step :: "decoded_key \<Rightarrow> string \<times> string \<Rightarrow> string \<times> string \<Rightarrow> bool" where
  "gap_step key g g' =
    (case key of
       Unicode c \<Rightarrow> g' = (if c = 8 then (butlast (fst g), snd g) else (fst g @ [char_of c], snd g))
     | RawKey ArrowLeft \<Rightarrow> g' = (if fst g = [] then g else (butlast (fst g), last (fst g) # snd g))
     | RawKey ArrowRight \<Rightarrow> g' = (if snd g = [] then g else (fst g @ [hd (snd g)], tl (snd g)))
     | RawKey ArrowUp \<Rightarrow> fst g' @ snd g' = fst g @ snd g
     | RawKey ArrowDown \<Rightarrow> fst g' @ snd g' = fst g @ snd g
     | RawKey _ \<Rightarrow> g' = g)"

definition plain_key :: "decoded_key \<Rightarrow> bool" where
  "plain_key key \<longleftrightarrow> (case key of Unicode c \<Rightarrow> c < 0x80 \<and> c \<noteq> 0x1b | RawKey _ \<Rightarrow> True)"

lemma left_gap:
  assumes "ed_inv e"
  shows "\<exists>e'. move_cursor_left e = Ret e' \<and> ed_inv e' \<and> gap_step (RawKey ArrowLeft) (before e, after e) (before e', after e')"
proof -
  obtain e' where e': "move_cursor_left e = Ret e'" "ed_inv e'" "ed_lines e' = ed_lines e"
      "before e' = butlast (before e)" "before e \<noteq> [] \<longrightarrow> after e' = last (before e) # after e"
    using move_left_refines [OF assms] by blast
  then have "before e' @ after e' = before e @ after e"
    using before_after [OF assms] before_after [OF e'(2)] by simp
  then show ?thesis using e' by (auto simp: gap_step_def)
qed

lemma right_gap:
  assumes "ed_inv e"
  shows "\<exists>e'. move_cursor_right e = Ret e' \<and> ed_inv e' \<and> gap_step (RawKey ArrowRight) (before e, after e) (before e', after e')"
proof -
  obtain e' where e': "move_cursor_right e = Ret e'" "ed_inv e'" "ed_lines e' = ed_lines e"
      "after e' = tl (after e)" "after e \<noteq> [] \<longrightarrow> before e' = before e @ [hd (after e)]"
    using move_right_refines [OF assms] by blast
  then have "before e' @ after e' = before e @ after e"
    using before_after [OF assms] before_after [OF e'(2)] by simp
  then show ?thesis using e' by (auto simp: gap_step_def)
qed

lemma vertical_gap:
  assumes "ed_inv e"
  shows "\<exists>e'. move_cursor_up e = Ret e' \<and> ed_inv e' \<and> gap_step (RawKey ArrowUp) (before e, after e) (before e', after e')"
    "\<exists>e'. move_cursor_down e = Ret e' \<and> ed_inv e' \<and> gap_step (RawKey ArrowDown) (before e, after e) (before e', after e')"
  using move_up_refines [OF assms] move_down_refines [OF assms] before_after [OF assms] before_after
  by (force simp: gap_step_def)+

lemma editor_key_refines:
  assumes "ed_inv e" "plain_key key"
  shows "\<exists>e'. editor_key key e = Ret (Some e') \<and> ed_inv e' \<and> gap_step key (before e, after e) (before e', after e')"
proof (cases key)
  case (Unicode c)
  then have c: "c < 0x80" "c \<noteq> 0x1b" using assms(2) by (simp_all add: plain_key_def)
  then show ?thesis
    using Unicode insert_char_refines [OF assms(1) c(1)] backspace_refines [OF assms(1)]
    by (auto simp: editor_key_def gap_step_def)
next
  case (RawKey k)
  then show ?thesis
    using left_gap [OF assms(1)] right_gap [OF assms(1)] vertical_gap [OF assms(1)] assms(1)
    by (cases k) (auto simp: editor_key_def gap_step_def)
qed

text \<open>Sequences of keys, and of gap texts.\<close>

fun editor_keys :: "decoded_key list \<Rightarrow> editor \<Rightarrow> editor option outcome" where
  "editor_keys [] e = Ret (Some e)"
| "editor_keys (k # ks) e = obind (editor_key k e) (\<lambda>r. case r of None \<Rightarrow> Ret None | Some e' \<Rightarrow> editor_keys ks e')"

inductive gap_steps :: "decoded_key list \<Rightarrow> string \<times> string \<Rightarrow> string \<times> string \<Rightarrow> bool" where
  gap_done: "gap_steps [] g g"
| gap_next: "gap_step k g g1 \<Longrightarrow> gap_steps ks g1 g2 \<Longrightarrow> gap_steps (k # ks) g g2"

lemma editor_keys_refine:
  "ed_inv e \<Longrightarrow> \<forall>k\<in>set ks. plain_key k \<Longrightarrow>
    \<exists>e'. editor_keys ks e = Ret (Some e') \<and> ed_inv e' \<and> gap_steps ks (before e, after e) (before e', after e')"
proof (induction ks arbitrary: e)
  case (Cons k ks)
  obtain e1 where e1: "editor_key k e = Ret (Some e1)" "ed_inv e1" "gap_step k (before e, after e) (before e1, after e1)"
    using editor_key_refines [OF Cons.prems(1), of k] Cons.prems(2) by auto
  then show ?case using Cons.IH [OF e1(2)] Cons.prems(2) by (auto intro: gap_next)
qed (auto intro: gap_done)

lemma editor_new_inv:
  assumes "ascii data"
  shows "ed_inv (editor_new data)"
proof -
  have "\<forall>l\<in>set (split_on newline s). ascii l \<and> newline \<notin> set l" if "ascii s" for s
    using that by (induction s) (auto split: list.split)
  note p = this [OF assms]
  have "\<forall>l\<in>set (str_lines data). ascii l \<and> newline \<notin> set l"
  proof
    fix l assume "l \<in> set (str_lines data)"
    then consider m where "m \<in> set (split_on newline data)" "l = strip_cr m" | "l \<in> set (split_on newline data)"
      using last_in_set [OF split_on_ne, of newline data]
      by (auto simp: str_lines_def Let_def split: if_splits dest: in_set_butlastD)
    then show "ascii l \<and> newline \<notin> set l"
    proof cases
      case 1
      have "set l \<subseteq> set m" using 1(2) by (auto simp: strip_cr_def dest: in_set_butlastD)
      then show ?thesis using p 1(1) by (auto simp: ascii_def)
    qed (use p in auto)
  qed
  then show ?thesis by (auto simp: editor_new_def ed_inv_def Let_def)
qed

section \<open>Saving and loading again\<close>

lemma editor_save_files:
  assumes "fs_inv b dk" and "name_ok name ext" and "room_for b dk name ext (length (join [newline] (ed_lines e)))"
  shows "\<exists>dk'. editor_save (Some b) name ext e dk = Ret dk' \<and> fs_inv b dk'
    \<and> files b dk' = (files b dk)((name, ext) \<mapsto> as_bytes (join [newline] (ed_lines e)))"
proof -
  let ?data = "as_bytes (join [newline] (ed_lines e))"
  have "editor_save (Some b) name ext e dk = obind (obind (find_file b dk name ext) (\<lambda>entry.
      case entry of Some _ \<Rightarrow> overwrite_file b name ext ?data dk | None \<Rightarrow> write_new_file b name ext ?data dk)) (\<lambda>(_, dk'). Ret dk')"
    unfolding editor_save_def Let_def obind_assoc by (auto intro!: arg_cong [of _ _ "obind _"] split: option.split)
  moreover have "room_for b dk name ext (length ?data)" using assms(3) by (simp add: as_bytes_def)
  ultimately show ?thesis using vol.save [OF assms(1,2), of ?data] by auto
qed

lemma editor_load_files:
  assumes "fs_inv b dk" and "files b dk (name, ext) = Some (as_bytes s)" and "utf8 s"
  shows "editor_load (Some b) dk name ext = Ret s"
  using vol.load [OF assms(1,2), of "Ret ''''" "\<lambda>bytes. Ret (from_utf8_lossy bytes)"] assms(3)
  by (simp add: editor_load_def from_utf8_lossy_as_bytes)

lemma uppercase_plain:
  assumes "unat v < 128" "unat v \<noteq> 0"
  shows "to_ascii_uppercase v \<noteq> 0x00 \<and> to_ascii_uppercase v \<noteq> 0xE5"
proof (cases "97 \<le> v \<and> v \<le> 122")
  case True
  then have "unat (v - 32) = unat v - 32" "97 \<le> unat v"
    by (auto simp: word_le_nat_alt unat_sub_small)
  then show ?thesis using True assms(1) by (auto simp: to_ascii_uppercase_def)
next
  case False
  then show ?thesis using assms by (auto simp: to_ascii_uppercase_def)
qed

lemma format_fat16_name_ok:
  assumes "ascii n" "char_of (0 :: nat) \<notin> set n" "format_fat16_name n x = (name, ext)"
  shows "name_ok name ext"
proof -
  have n: "name = copy_at (replicate 8 0x20) 0 (map to_ascii_uppercase (take 8 (as_bytes n)))"
    "ext = copy_at (replicate 3 0x20) 0 (map to_ascii_uppercase (take 3 (as_bytes x)))"
    using assms(3) by (simp_all add: format_fat16_name_def)
  have "name ! 0 \<noteq> 0x00 \<and> name ! 0 \<noteq> 0xE5"
  proof (cases n)
    case Nil
    then show ?thesis unfolding n by (simp add: as_bytes_def)
  next
    case (Cons c cs)
    have "of_char c \<noteq> (0 :: nat)" using assms(2) Cons char_of_char [of c] by (metis list.set_intros(1))
    moreover have "of_char c < (128 :: nat)" using assms(1) Cons by (simp add: ascii_def)
    ultimately have "to_ascii_uppercase (of_char c) \<noteq> 0x00 \<and> to_ascii_uppercase (of_char c) \<noteq> 0xE5"
      using uppercase_plain [of "of_char c"] by (simp add: unat_of_char)
    then show ?thesis unfolding n Cons by (simp add: as_bytes_def nth_copy_at)
  qed
  then show ?thesis by (simp add: name_ok_def n as_bytes_def)
qed

section \<open>Properties\<close>

text \<open>
  C17: in an editor opened on ASCII text, any sequence of ASCII characters, backspaces and arrow keys is
  handled without a panic: the cursor stays inside the buffer, and the text before and after the cursor
  changes as a plain text with a gap does, one key after the other.
\<close>

theorem editing_refines_gap_text:
  assumes "ascii data" and "\<forall>k\<in>set ks. plain_key k"
  shows "\<exists>e. editor_keys ks (editor_new data) = Ret (Some e) \<and> ed_inv e
    \<and> gap_steps ks ([], join [newline] (ed_lines (editor_new data))) (before e, after e)"
proof -
  note inv = editor_new_inv [OF assms(1)]
  have "before (editor_new data) = []" by (rule before_0) (simp_all add: editor_new_def Let_def)
  then show ?thesis using editor_keys_refine [OF inv assms(2)] before_after [OF inv] by simp
qed

theorem editing_refines_gap_text_witness:
  "\<exists>e. editor_keys [Unicode 104, Unicode 10, RawKey ArrowLeft, Unicode 8, RawKey ArrowUp] (editor_new ''ab'') = Ret (Some e)
    \<and> ed_inv e"
proof -
  have "ascii ''ab''" by code_simp
  moreover have "\<forall>k\<in>set [Unicode 104, Unicode 10, RawKey ArrowLeft, Unicode 8, RawKey ArrowUp]. plain_key k"
    by (simp add: plain_key_def)
  ultimately show ?thesis using editing_refines_gap_text by blast
qed



text \<open>Two keys that are not ASCII panic: the column counts characters but is used as a byte offset.\<close>

lemma non_ascii_keys_panic: "editor_keys [Unicode 0xE9, Unicode 0xE9] (editor_new []) = Panic Char_Boundary"
  by code_simp

end
