(* ===== verification/Pong.thy ===== *)
theory Pong
  imports Vga_Buffer Input
begin

text \<open>
  The game (\<^verbatim>\<open>pong.rs\<close>). One frame is one round of the loop in \<^verbatim>\<open>PongGame::run\<close>, from the events that are
  in the queue when it starts to the win check. The canvas is the screen memory, which is passed along.
\<close>

record pong_game =
  ball_x :: int
  ball_y :: int
  ball_dx :: int
  ball_dy :: int
  paddle1_y :: int
  paddle2_y :: int
  w_pressed :: bool
  s_pressed :: bool
  up_pressed :: bool
  down_pressed :: bool

definition pong_new :: pong_game where
  "pong_new = \<lparr>ball_x = 40, ball_y = 12, ball_dx = 1, ball_dy = 1, paddle1_y = 10, paddle2_y = 10,
     w_pressed = False, s_pressed = False, up_pressed = False, down_pressed = False\<rparr>"

text \<open>What one key event does; \<open>None\<close> is leaving the game.\<close>

definition pong_key :: "key_event \<Rightarrow> pong_game \<Rightarrow> pong_game option" where
  "pong_key k g =
    (case (key_code k, key_state k) of
       (Key_W, Down) \<Rightarrow> Some (g\<lparr>w_pressed := True\<rparr>)
     | (Key_W, Up) \<Rightarrow> Some (g\<lparr>w_pressed := False\<rparr>)
     | (Key_S, Down) \<Rightarrow> Some (g\<lparr>s_pressed := True\<rparr>)
     | (Key_S, Up) \<Rightarrow> Some (g\<lparr>s_pressed := False\<rparr>)
     | (Key_O, Down) \<Rightarrow> Some (g\<lparr>up_pressed := True\<rparr>)
     | (Key_O, Up) \<Rightarrow> Some (g\<lparr>up_pressed := False\<rparr>)
     | (Key_L, Down) \<Rightarrow> Some (g\<lparr>down_pressed := True\<rparr>)
     | (Key_L, Up) \<Rightarrow> Some (g\<lparr>down_pressed := False\<rparr>)
     | (Escape, Down) \<Rightarrow> None
     | _ \<Rightarrow> Some g)"

text \<open>The event loop: the flag says that the player left the game; later events stay in the queue.\<close>

fun pong_keys :: "key_event list \<Rightarrow> pong_game \<Rightarrow> bool \<times> key_event list \<times> pong_game" where
  "pong_keys [] g = (False, [], g)"
| "pong_keys (k # ks) g = (case pong_key k g of None \<Rightarrow> (True, ks, g) | Some g' \<Rightarrow> pong_keys ks g')"

definition paddle_height :: int where
  "paddle_height = 5"

definition move_paddle :: "bool \<Rightarrow> bool \<Rightarrow> int \<Rightarrow> int outcome" where
  "move_paddle up down y =
    (let y1 = (if up then saturating_sub y 1 else y)
     in if down \<and> y1 < 24 - paddle_height then isize_ret (y1 + 1) else Ret y1)"

definition draw_paddle :: "nat \<Rightarrow> int \<Rightarrow> vga \<Rightarrow> vga outcome" where
  "draw_paddle x y = for_each (\<lambda>offset buf.
     obind (isize_ret (y + offset)) (\<lambda>current_y.
       if current_y \<ge> 0 \<and> current_y < 25
       then set_char x (as_usize current_y) 124 (color_code_new Cyan Black) buf else Ret buf)) [0, 1, 2, 3, 4]"

definition near_paddle :: "int \<Rightarrow> int \<Rightarrow> bool outcome" where
  "near_paddle paddle y =
     obind (isize_ret (paddle - 4)) (\<lambda>lo. obind (isize_ret (paddle + 4)) (\<lambda>hi. Ret (lo \<le> y \<and> y < hi)))"

text \<open>The three parts of \<^verbatim>\<open>PongGame::update\<close>: paddles, drawing, ball.\<close>

definition update_paddles :: "pong_game \<Rightarrow> pong_game outcome" where
  "update_paddles g =
    obind (move_paddle (w_pressed g) (s_pressed g) (paddle1_y g)) (\<lambda>p1.
    obind (move_paddle (up_pressed g) (down_pressed g) (paddle2_y g)) (\<lambda>p2.
    Ret (g\<lparr>paddle1_y := p1, paddle2_y := p2\<rparr>)))"

definition pong_draw :: "pong_game \<Rightarrow> vga \<Rightarrow> vga outcome" where
  "pong_draw g buf =
    obind (canvas_clear buf) (\<lambda>b1.
    obind (draw_paddle 2 (paddle1_y g) b1) (\<lambda>b2.
    obind (draw_paddle 76 (paddle2_y g) b2) (\<lambda>b3.
    set_char (as_usize (ball_x g)) (as_usize (ball_y g)) 79 (color_code_new White Black) b3)))"

definition update_ball :: "pong_game \<Rightarrow> pong_game outcome" where
  "update_ball g =
    obind (isize_ret (ball_x g + ball_dx g)) (\<lambda>x.
    obind (isize_ret (ball_y g + ball_dy g)) (\<lambda>y.
    obind (if y \<le> 0 \<or> y \<ge> 24 then isize_ret (- ball_dy g) else Ret (ball_dy g)) (\<lambda>dy.
    obind (if 0 \<le> x \<and> x < 5
           then obind (near_paddle (paddle1_y g) y) (\<lambda>hit.
                  if hit \<and> ball_dx g < 0 then isize_ret (- ball_dx g) else Ret (ball_dx g))
           else Ret (ball_dx g)) (\<lambda>dx1.
    obind (if 76 \<le> x \<and> x < 80
           then obind (near_paddle (paddle2_y g) y) (\<lambda>hit.
                  if hit \<and> dx1 > 0 then isize_ret (- dx1) else Ret dx1)
           else Ret dx1) (\<lambda>dx2.
    Ret (g\<lparr>ball_x := x, ball_y := y, ball_dx := dx2, ball_dy := dy\<rparr>))))))"

definition pong_update :: "pong_game \<Rightarrow> vga \<Rightarrow> (pong_game \<times> vga) outcome" where
  "pong_update g buf =
    obind (update_paddles g) (\<lambda>g1.
    obind (pong_draw g1 buf) (\<lambda>b.
    obind (update_ball g1) (\<lambda>g2. Ret (g2, b))))"

text \<open>
  One frame, on the events in the queue and the batches of events that arrive at the yields to come: the
  message the game ends with, if it does, the queue and the batches left then, the game and the screen. The
  yield between the update and the win check brings the next batch; the delay loop touches nothing.
\<close>

definition pong_frame ::
  "key_event list \<Rightarrow> key_event list list \<Rightarrow> pong_game \<Rightarrow> vga
    \<Rightarrow> (string option \<times> key_event list list \<times> pong_game \<times> vga) outcome" where
  "pong_frame keys later g buf =
    (case pong_keys keys g of (left, rest, g1) \<Rightarrow>
     if left then obind (canvas_clear buf) (\<lambda>b. Ret (Some ''Game Exited'', rest # later, g1, b))
     else obind (pong_update g1 buf) (\<lambda>(g2, b).
       if ball_x g2 < 1 then obind (canvas_clear b) (\<lambda>b1. Ret (Some ''player 2 wins!'', later, g2, b1))
       else if ball_x g2 > 79 then obind (canvas_clear b) (\<lambda>b1. Ret (Some ''player 1 wins!'', later, g2, b1))
       else Ret (None, later, g2, b)))"

text \<open>The game over the batches of events found in the queue at each frame; \<open>None\<close> if it has not ended.\<close>

fun pong_run :: "key_event list list \<Rightarrow> pong_game \<Rightarrow> vga
    \<Rightarrow> (string option \<times> key_event list list \<times> pong_game \<times> vga) outcome" where
  "pong_run [] g buf = Ret (None, [], g, buf)"
| "pong_run (keys # batches) g buf =
    obind (pong_frame keys batches g buf) (\<lambda>(res, left, g1, b).
      case res of Some msg \<Rightarrow> Ret (Some msg, left, g1, b) | None \<Rightarrow> pong_run batches g1 b)"

section \<open>The invariant\<close>

text \<open>
  Between frames: the ball is on the screen and heads back from the top and bottom rows, it moves by one
  cell, and the paddles are not below the bottom row. Nothing bounds the paddles above, so the margin to
  the smallest \<^verbatim>\<open>isize\<close> is part of the state.
\<close>

definition pong_inv :: "pong_game \<Rightarrow> bool" where
  "pong_inv g \<longleftrightarrow> 1 \<le> ball_x g \<and> ball_x g \<le> 79 \<and> 0 \<le> ball_y g \<and> ball_y g \<le> 24
     \<and> ball_dx g \<in> {- 1, 1} \<and> ball_dy g \<in> {- 1, 1}
     \<and> (ball_y g = 0 \<longrightarrow> ball_dy g = 1) \<and> (ball_y g = 24 \<longrightarrow> ball_dy g = - 1)
     \<and> paddle1_y g \<le> 19 \<and> paddle2_y g \<le> 19"

definition paddles_above :: "int \<Rightarrow> pong_game \<Rightarrow> bool" where
  "paddles_above m g \<longleftrightarrow> m \<le> paddle1_y g \<and> m \<le> paddle2_y g"

text \<open>The part of the state the keys do not touch.\<close>

definition play :: "pong_game \<Rightarrow> int list" where
  "play g = [ball_x g, ball_y g, ball_dx g, ball_dy g, paddle1_y g, paddle2_y g]"

lemma play_pong_key: "pong_key k g = Some g' \<Longrightarrow> play g' = play g"
  by (cases "key_code k"; cases "key_state k") (auto simp: pong_key_def play_def)

lemma play_pong_keys: "pong_keys ks g = (left, rest, g') \<Longrightarrow> play g' = play g"
  by (induction ks g rule: pong_keys.induct) (auto split: option.splits dest: play_pong_key)

lemma pong_keys_inv:
  "pong_keys ks g = (left, rest, g') \<Longrightarrow> pong_inv g' = pong_inv g \<and> paddles_above m g' = paddles_above m g
     \<and> ball_x g' = ball_x g"
  using play_pong_keys [of ks g left rest g'] by (simp add: play_def pong_inv_def paddles_above_def)

lemma move_paddle_Ret:
  assumes "isize_min < y" "y \<le> 19"
  shows "\<exists>y'. move_paddle up down y = Ret y' \<and> y - 1 \<le> y' \<and> y' \<le> 19"
  using assms by (auto simp: move_paddle_def saturating_sub_def paddle_height_def isize_min_def isize_max_def)

lemma draw_paddle_Ret:
  assumes "wf_vga buf" "isize_min \<le> y" "y \<le> 19"
  shows "\<exists>b. draw_paddle x y buf = Ret b \<and> wf_vga b"
  unfolding draw_paddle_def
proof (rule for_each_inv [where P = wf_vga])
  fix offset :: int and b assume "offset \<in> set [0, 1, 2, 3, 4]" "wf_vga b"
  then show "\<exists>b'. obind (isize_ret (y + offset)) (\<lambda>current_y. if current_y \<ge> 0 \<and> current_y < 25
      then set_char x (as_usize current_y) 124 (color_code_new Cyan Black) b else Ret b) = Ret b' \<and> wf_vga b'"
    using assms(2,3) wf_set_char by (auto simp: isize_min_def isize_max_def)
qed (rule assms(1))

lemma near_paddle_Ret: "isize_min + 4 \<le> p \<Longrightarrow> p \<le> 19 \<Longrightarrow> near_paddle p y = Ret (p - 4 \<le> y \<and> y < p + 4)"
  by (simp add: near_paddle_def isize_min_def isize_max_def)

lemma update_ball_Ret:
  assumes "pong_inv g" "paddles_above (isize_min + 4) g"
  shows "\<exists>g'. update_ball g = Ret g'
    \<and> (pong_inv g' \<longleftrightarrow> 1 \<le> ball_x g' \<and> ball_x g' \<le> 79)
    \<and> paddle1_y g' = paddle1_y g \<and> paddle2_y g' = paddle2_y g"
proof -
  define x y where "x = ball_x g + ball_dx g" and "y = ball_y g + ball_dy g"
  note I = assms(1) [unfolded pong_inv_def] assms(2) [unfolded paddles_above_def]
  have r: "isize_ret x = Ret x" "isize_ret y = Ret y"
    using I by (auto simp: x_def y_def isize_ret_def isize_min_def isize_max_def)
  have neg: "isize_ret (- v) = Ret (- v)" if "v \<in> {- 1, 1}" for v
    using that by (auto simp: isize_ret_def isize_min_def isize_max_def)
  have dx: "\<exists>d'\<in>{- 1, 1}. (if c then obind (near_paddle p y) (\<lambda>hit. if hit \<and> q then isize_ret (- d) else Ret d) else Ret d) = Ret d'"
    if "d \<in> {- 1, 1}" "isize_min + 4 \<le> p" "p \<le> 19" for c p q d
    using that near_paddle_Ret [OF that(2,3), of y] neg [OF that(1)] by auto
  obtain dx1 where dx1: "(if 0 \<le> x \<and> x < 5 then obind (near_paddle (paddle1_y g) y) (\<lambda>hit.
      if hit \<and> ball_dx g < 0 then isize_ret (- ball_dx g) else Ret (ball_dx g)) else Ret (ball_dx g)) = Ret dx1" "dx1 \<in> {- 1, 1}"
    using dx [of "ball_dx g" "paddle1_y g"] I by blast
  obtain dx2 where dx2: "(if 76 \<le> x \<and> x < 80 then obind (near_paddle (paddle2_y g) y) (\<lambda>hit.
      if hit \<and> dx1 > 0 then isize_ret (- dx1) else Ret dx1) else Ret dx1) = Ret dx2" "dx2 \<in> {- 1, 1}"
    using dx [OF dx1(2), of "paddle2_y g"] I by blast
  define dy where "dy = (if y \<le> 0 \<or> y \<ge> 24 then - ball_dy g else ball_dy g)"
  have dy: "(if y \<le> 0 \<or> y \<ge> 24 then isize_ret (- ball_dy g) else Ret (ball_dy g)) = Ret dy"
      "dy \<in> {- 1, 1}" "y = 0 \<Longrightarrow> dy = 1" "y = 24 \<Longrightarrow> dy = - 1" "0 \<le> y" "y \<le> 24"
    using I neg [of "ball_dy g"] by (auto simp: y_def dy_def)
  have "update_ball g = Ret (g\<lparr>ball_x := x, ball_y := y, ball_dx := dx2, ball_dy := dy\<rparr>)"
    unfolding update_ball_def x_def [symmetric] y_def [symmetric] r obind_simps dy(1) dx1(1) dx2(1) ..
  then show ?thesis using dy dx2(2) I by (auto simp: pong_inv_def)
qed

lemma update_paddles_Ret:
  assumes "pong_inv g" "paddles_above (m + 1) g" "isize_min \<le> m"
  shows "\<exists>g'. update_paddles g = Ret g' \<and> pong_inv g' \<and> paddles_above m g' \<and> ball_x g' = ball_x g"
proof -
  have b: "isize_min < paddle1_y g" "paddle1_y g \<le> 19" "isize_min < paddle2_y g" "paddle2_y g \<le> 19"
    using assms by (simp_all add: pong_inv_def paddles_above_def)
  obtain p1 where "move_paddle (w_pressed g) (s_pressed g) (paddle1_y g) = Ret p1" "paddle1_y g - 1 \<le> p1" "p1 \<le> 19"
    using move_paddle_Ret [OF b(1,2)] by blast
  moreover obtain p2 where "move_paddle (up_pressed g) (down_pressed g) (paddle2_y g) = Ret p2" "paddle2_y g - 1 \<le> p2" "p2 \<le> 19"
    using move_paddle_Ret [OF b(3,4)] by blast
  ultimately show ?thesis using assms by (simp add: update_paddles_def pong_inv_def paddles_above_def)
qed

lemma pong_draw_Ret:
  assumes "wf_vga buf" "pong_inv g" "paddles_above isize_min g"
  shows "\<exists>b. pong_draw g buf = Ret b \<and> wf_vga b"
proof -
  obtain b1 where b1: "canvas_clear buf = Ret b1" "wf_vga b1" using wf_canvas_clear [OF assms(1)] by blast
  obtain b2 where b2: "draw_paddle 2 (paddle1_y g) b1 = Ret b2" "wf_vga b2"
    using draw_paddle_Ret [OF b1(2), of "paddle1_y g"] assms by (auto simp: pong_inv_def paddles_above_def)
  obtain b3 where "draw_paddle 76 (paddle2_y g) b2 = Ret b3" "wf_vga b3"
    using draw_paddle_Ret [OF b2(2), of "paddle2_y g"] assms by (auto simp: pong_inv_def paddles_above_def)
  then show ?thesis using b1(1) b2(1) wf_set_char by (simp add: pong_draw_def)
qed

text \<open>One frame returns; either the game goes on, or it ends with the screen cleared.\<close>

lemma pong_frame_Ret:
  assumes inv: "pong_inv g" and pad: "paddles_above (isize_min + 5) g" and wf: "wf_vga buf"
    and m: "paddles_above (m + 1) g" "isize_min + 4 \<le> m"
  shows "\<exists>res left g' b. pong_frame keys later g buf = Ret (res, left, g', b) \<and> wf_vga b
    \<and> (res = None \<longrightarrow> pong_inv g' \<and> paddles_above m g')
    \<and> (\<forall>msg. res = Some msg \<longrightarrow> msg \<in> {''Game Exited'', ''player 1 wins!'', ''player 2 wins!''}
          \<and> b = replicate 25 (replicate 80 (blank_char (color_code_new Black Black))))"
proof -
  obtain left rest g1 where k: "pong_keys keys g = (left, rest, g1)" by (cases "pong_keys keys g") auto
  note k' = pong_keys_inv [OF k]
  have cl: "canvas_clear v = Ret (replicate 25 (replicate 80 (blank_char (color_code_new Black Black))))"
    "wf_vga (replicate 25 (replicate 80 (blank_char (color_code_new Black Black))))" if "wf_vga v" for v
    using canvas_clear_eq [OF that] by (simp_all add: wf_vga_def)
  show ?thesis
  proof (cases left)
    case True
    then show ?thesis using k cl [OF wf] by (simp add: pong_frame_def)
  next
    case False
    obtain g2 where g2: "update_paddles g1 = Ret g2" "pong_inv g2" "paddles_above m g2"
      using update_paddles_Ret [of g1 m] k' inv m by auto
    have pa: "paddles_above (isize_min + 4) g2" "paddles_above isize_min g2"
      using g2(3) m(2) by (auto simp: paddles_above_def)
    obtain b where b: "pong_draw g2 buf = Ret b" "wf_vga b" using pong_draw_Ret [OF wf g2(2) pa(2)] by blast
    obtain g3 where g3: "update_ball g2 = Ret g3" "pong_inv g3 \<longleftrightarrow> 1 \<le> ball_x g3 \<and> ball_x g3 \<le> 79"
        "paddle1_y g3 = paddle1_y g2" "paddle2_y g3 = paddle2_y g2"
      using update_ball_Ret [OF g2(2) pa(1)] by blast
    have "pong_update g1 buf = Ret (g3, b)" using g2(1) b(1) g3(1) by (simp add: pong_update_def)
    then show ?thesis
      using False k cl [OF b(2)] b(2) g3(2-4) g2(3) by (auto simp: pong_frame_def paddles_above_def)
  qed
qed

lemma pong_run_Ret:
  "pong_inv g \<Longrightarrow> paddles_above (isize_min + 5 + int (length batches)) g \<Longrightarrow> wf_vga buf \<Longrightarrow>
    \<exists>res left g' b. pong_run batches g buf = Ret (res, left, g', b) \<and> wf_vga b \<and> (res = None \<longrightarrow> pong_inv g')
      \<and> (\<forall>msg. res = Some msg \<longrightarrow> msg \<in> {''Game Exited'', ''player 1 wins!'', ''player 2 wins!''}
          \<and> b = replicate 25 (replicate 80 (blank_char (color_code_new Black Black))))"
proof (induction batches arbitrary: g buf)
  case (Cons keys batches)
  have pad: "paddles_above (isize_min + 5) g"
      "paddles_above (isize_min + 5 + int (length batches) + 1) g"
    using Cons.prems(2) by (auto simp: paddles_above_def)
  obtain res left g1 b where f: "pong_frame keys batches g buf = Ret (res, left, g1, b)" "wf_vga b"
      "res = None \<longrightarrow> pong_inv g1 \<and> paddles_above (isize_min + 5 + int (length batches)) g1"
      "\<forall>msg. res = Some msg \<longrightarrow> msg \<in> {''Game Exited'', ''player 1 wins!'', ''player 2 wins!''}
         \<and> b = replicate 25 (replicate 80 (blank_char (color_code_new Black Black)))"
    using pong_frame_Ret [OF Cons.prems(1) pad(1) Cons.prems(3) pad(2), of keys batches] by auto
  show ?case
  proof (cases res)
    case None
    then show ?thesis using f(1-3) Cons.IH [of g1 b] by simp
  next
    case (Some msg)
    then show ?thesis using f by auto
  qed
qed simp

text \<open>A frame in which no key is held moves only the ball.\<close>

definition idle :: "pong_game \<Rightarrow> bool" where
  "idle g \<longleftrightarrow> \<not> w_pressed g \<and> \<not> s_pressed g \<and> \<not> up_pressed g \<and> \<not> down_pressed g"

definition verdict :: "pong_game \<Rightarrow> string option" where
  "verdict g = (if ball_x g < 1 then Some ''player 2 wins!''
     else if ball_x g > 79 then Some ''player 1 wins!'' else None)"

lemma idle_frame:
  assumes "idle g" "pong_inv g" "paddles_above isize_min g" "wf_vga buf" "update_ball g = Ret g'"
  shows "\<exists>b. pong_frame [] later g buf = Ret (verdict g', later, g', b) \<and> wf_vga b"
proof -
  obtain b where b: "pong_draw g buf = Ret b" "wf_vga b" using pong_draw_Ret [OF assms(4,2,3)] by blast
  have "update_paddles g = Ret g" using assms(1) by (simp add: update_paddles_def move_paddle_def idle_def)
  then have "pong_update g buf = Ret (g', b)" using b(1) assms(5) by (simp add: pong_update_def)
  then show ?thesis
    using b(2) wf_canvas_clear [OF b(2)] by (auto simp: pong_frame_def verdict_def)
qed

text \<open>The positions the ball goes through, and the verdict when the game ends.\<close>

fun ball_run :: "nat \<Rightarrow> pong_game \<Rightarrow> string option" where
  "ball_run 0 g = None"
| "ball_run (Suc n) g =
    (case update_ball g of
       Ret g' \<Rightarrow> (case verdict g' of Some msg \<Rightarrow> Some msg | None \<Rightarrow> ball_run n g')
     | _ \<Rightarrow> None)"

lemma idle_update_ball: "update_ball g = Ret g' \<Longrightarrow> idle g \<Longrightarrow> idle g'"
  unfolding update_ball_def by (auto simp: idle_def elim!: obind_RetE)

lemma idle_run:
  "idle g \<Longrightarrow> pong_inv g \<Longrightarrow> paddles_above (isize_min + 4) g \<Longrightarrow> wf_vga buf \<Longrightarrow>
    \<exists>left g' b. pong_run (replicate n []) g buf = Ret (ball_run n g, left, g', b)"
proof (induction n arbitrary: g buf)
  case (Suc n)
  obtain g1 where g1: "update_ball g = Ret g1" "pong_inv g1 \<longleftrightarrow> 1 \<le> ball_x g1 \<and> ball_x g1 \<le> 79"
      "paddle1_y g1 = paddle1_y g" "paddle2_y g1 = paddle2_y g"
    using update_ball_Ret [OF Suc.prems(2,3)] by blast
  have p: "paddles_above isize_min g" "paddles_above (isize_min + 4) g1"
    using Suc.prems(3) g1(3,4) by (auto simp: paddles_above_def)
  obtain b where b: "pong_frame [] (replicate n []) g buf = Ret (verdict g1, replicate n [], g1, b)" "wf_vga b"
    using idle_frame [OF Suc.prems(1,2) p(1) Suc.prems(4) g1(1)] by blast
  show ?case
  proof (cases "verdict g1")
    case None
    then have "pong_inv g1" using g1(2) by (auto simp: verdict_def split: if_splits)
    then show ?thesis
      using Suc.IH [OF idle_update_ball [OF g1(1) Suc.prems(1)] _ p(2) b(2)] b(1) None g1(1) by simp
  next
    case (Some msg)
    then show ?thesis using b(1) g1(1) by simp
  qed
qed simp

text \<open>Nothing stops a paddle at the top row.\<close>

lemma paddle_leaves_screen:
  assumes "w_pressed g" "\<not> s_pressed g" "\<not> up_pressed g" "\<not> down_pressed g" "paddle1_y g = 0"
  shows "update_paddles g = Ret (g\<lparr>paddle1_y := - 1\<rparr>)"
  using assms by (simp add: update_paddles_def move_paddle_def saturating_sub_def isize_min_def isize_max_def)

section \<open>Properties\<close>

lemma pong_new_inv: "pong_inv pong_new" "idle pong_new"
  by (simp_all add: pong_inv_def pong_new_def idle_def)

text \<open>
  C30: the game is safe: whatever keys arrive, for as many as 2 to the 62 frames, no frame panics
  or writes outside the screen. It is either still running, with the ball on the screen, or it has ended
  with one of its three messages and a cleared screen.
\<close>

theorem pong_safe:
  assumes "length batches \<le> 2 ^ 62" "wf_vga buf"
  shows "\<exists>res left g b. pong_run batches pong_new buf = Ret (res, left, g, b) \<and> wf_vga b
    \<and> (case res of
         None \<Rightarrow> 1 \<le> ball_x g \<and> ball_x g \<le> 79 \<and> 0 \<le> ball_y g \<and> ball_y g \<le> 24
       | Some msg \<Rightarrow> msg \<in> {''Game Exited'', ''player 1 wins!'', ''player 2 wins!''}
           \<and> b = replicate 25 (replicate 80 (blank_char (color_code_new Black Black))))"
proof -
  have "paddles_above (isize_min + 5 + int (length batches)) pong_new"
    using assms(1) by (simp add: paddles_above_def pong_new_def isize_min_def)
  from pong_run_Ret [OF pong_new_inv(1) this assms(2)] obtain res left g b where
    "pong_run batches pong_new buf = Ret (res, left, g, b)" "wf_vga b" "res = None \<longrightarrow> pong_inv g"
    "\<forall>msg. res = Some msg \<longrightarrow> msg \<in> {''Game Exited'', ''player 1 wins!'', ''player 2 wins!''}
       \<and> b = replicate 25 (replicate 80 (blank_char (color_code_new Black Black)))" by blast
  then show ?thesis by (cases res) (auto simp: pong_inv_def)
qed

theorem pong_safe_witness:
  "\<exists>res left g b. pong_run [[\<lparr>key_code = Escape, key_state = Down\<rparr>]] pong_new (buffer blank_writer) = Ret (res, left, g, b)
     \<and> wf_vga b"
proof -
  have "wf_vga (buffer blank_writer)" using wf_blank_writer by (simp add: wf_writer_def)
  then show ?thesis
    using pong_safe [of "[[\<lparr>key_code = Escape, key_state = Down\<rparr>]]" "buffer blank_writer"] by auto
qed

text \<open>
  The game ends: left alone, with both players away, it is still running after 39 frames and
  the first player wins in the fortieth.
\<close>

theorem idle_game_ends:
  assumes "wf_vga buf"
  shows "(\<exists>left g b. pong_run (replicate 39 []) pong_new buf = Ret (None, left, g, b))
    \<and> (\<exists>left g b. pong_run (replicate 40 []) pong_new buf = Ret (Some ''player 1 wins!'', left, g, b))"
proof -
  have "paddles_above (isize_min + 4) pong_new" by (simp add: paddles_above_def pong_new_def isize_min_def)
  note run = idle_run [OF pong_new_inv(2,1) this assms]
  have "ball_run 39 pong_new = None" "ball_run 40 pong_new = Some ''player 1 wins!''" by code_simp+
  then show ?thesis using run [of 39] run [of 40] by metis
qed

theorem idle_game_ends_witness:
  "\<exists>left g b. pong_run (replicate 40 []) pong_new (buffer blank_writer) = Ret (Some ''player 1 wins!'', left, g, b)"
proof -
  have "wf_vga (buffer blank_writer)" using wf_blank_writer by (simp add: wf_writer_def)
  then show ?thesis using idle_game_ends by blast
qed

end
