(* ===== verification/Shell.thy ===== *)
theory Shell
  imports Rust_String
begin

text \<open>
  The command line (\<^verbatim>\<open>shell.rs\<close>): the line being typed and the commands entered so far.
\<close>

record shell =
  current_cmd :: string
  past_cmd :: "string list list"

definition shell_init :: shell where
  "shell_init = \<lparr>current_cmd = '''', past_cmd = []\<rparr>"

text \<open>\<^verbatim>\<open>char as char\<close> reads the byte as the scalar with that number.\<close>

definition shell_add :: "u8 \<Rightarrow> shell \<Rightarrow> shell" where
  "shell_add c s = s\<lparr>current_cmd := current_cmd s @ encode_utf8 (unat c)\<rparr>"

definition shell_backspace :: "shell \<Rightarrow> shell" where
  "shell_backspace s = s\<lparr>current_cmd := string_pop (current_cmd s)\<rparr>"

definition getcmd :: "shell \<Rightarrow> string list option" where
  "getcmd s =
    (if current_cmd s = '''' then None
     else let params = split_whitespace (current_cmd s)
          in if params = [] then None else Some params)"

definition shell_clear :: "shell \<Rightarrow> shell" where
  "shell_clear s =
    (let s1 = (case getcmd s of Some curr_cmd \<Rightarrow> s\<lparr>past_cmd := past_cmd s @ [curr_cmd]\<rparr> | None \<Rightarrow> s)
     in s1\<lparr>current_cmd := ''''\<rparr>)"

text \<open>The text \<^verbatim>\<open>history\<close> prints.\<close>

definition shell_history :: "shell \<Rightarrow> string" where
  "shell_history s = concat (map (\<lambda>i. concat (map (\<lambda>j. j @ '' '') i) @ [newline]) (past_cmd s))"

section \<open>Typing\<close>

definition wf_shell :: "shell \<Rightarrow> bool" where
  "wf_shell s \<longleftrightarrow> utf8 (current_cmd s) \<and> (\<forall>cmd\<in>set (past_cmd s). cmd \<noteq> [] \<and> [] \<notin> set cmd)"

lemma wf_shell_init: "wf_shell shell_init"
  using utf8_ascii [of "[]"] by (simp add: wf_shell_def shell_init_def)

lemma scalar_u8: "scalar (unat (c :: u8))"
  using unat_u8_less [of c] by (simp add: scalar_def)

lemma utf8_encode: "scalar c \<Longrightarrow> utf8 (encode_utf8 c)"
  using utf8_of_chars [of "[c]"] by simp

lemma chars_encode: "scalar c \<Longrightarrow> chars (encode_utf8 c) = [c]"
  using chars_of_chars [of "[c]"] by simp

lemma shell_add_chars:
  assumes "wf_shell s"
  shows "wf_shell (shell_add c s)" "chars (current_cmd (shell_add c s)) = chars (current_cmd s) @ [unat c]"
  using assms utf8_encode [OF scalar_u8, of c] chars_encode [OF scalar_u8, of c]
  by (simp_all add: wf_shell_def shell_add_def utf8_append chars_append)

lemma scalar_butlast: "list_all scalar cs \<Longrightarrow> list_all scalar (butlast cs)"
  by (auto simp: list_all_iff dest: in_set_butlastD)

lemma shell_backspace_chars:
  assumes "wf_shell s"
  shows "wf_shell (shell_backspace s)" "chars (current_cmd (shell_backspace s)) = butlast (chars (current_cmd s))"
proof -
  have "list_all scalar (butlast (chars (current_cmd s)))"
    using assms by (intro scalar_butlast scalar_chars) (simp add: wf_shell_def)
  then show "wf_shell (shell_backspace s)"
    "chars (current_cmd (shell_backspace s)) = butlast (chars (current_cmd s))"
    using assms by (simp_all add: wf_shell_def shell_backspace_def string_pop_def utf8_of_chars chars_of_chars)
qed

lemma split_whitespace_result:
  assumes "utf8 t" "w \<in> set (split_whitespace t)"
  shows "w \<noteq> []"
  using assms words_of_result [of _ is_whitespace "chars t" "[]"]
  by (force simp: split_whitespace_def neq_Nil_conv)

lemma shell_clear_wf: "wf_shell s \<Longrightarrow> wf_shell (shell_clear s)"
  using split_whitespace_result utf8_ascii [of "[]"]
  by (auto simp: wf_shell_def shell_clear_def getcmd_def Let_def split: option.split if_splits)

text \<open>Words of ASCII text joined by spaces are split again.\<close>

definition plain_word :: "string \<Rightarrow> bool" where
  "plain_word w \<longleftrightarrow> w \<noteq> [] \<and> (\<forall>c\<in>set w. 33 \<le> (of_char c :: nat) \<and> (of_char c :: nat) < 127)"

lemma map_join: "map f (join sep ws) = join (map f sep) (map (map f) ws)"
  by (induction sep ws rule: join.induct) auto

lemma split_whitespace_join:
  assumes "\<forall>w\<in>set ws. plain_word w"
  shows "split_whitespace (join '' '' ws) = ws"
proof -
  have a: "\<forall>w\<in>set ws. ascii w" using assms by (fastforce simp: plain_word_def ascii_def)
  have "words_of is_whitespace (join [0x20] (map (map of_char) ws)) [] = map (map of_char) ws"
    using assms by (intro words_of_join) (fastforce simp: plain_word_def is_whitespace_def)+
  then have "split_whitespace (join '' '' ws) = map of_chars (map (map of_char) ws)"
    using chars_ascii [OF ascii_join [of "'' ''" ws]] a by (simp add: split_whitespace_def map_join)
  also have "\<dots> = ws" using a by (simp add: comp_def of_chars_ascii map_idI)
  finally show ?thesis .
qed

section \<open>Properties\<close>

text \<open>What a sequence of keys means: a byte types that character, \<open>None\<close> is the erase key.\<close>

definition key_step :: "u8 option \<Rightarrow> shell \<Rightarrow> shell" where
  "key_step k = (case k of Some c \<Rightarrow> shell_add c | None \<Rightarrow> shell_backspace)"

definition line_step :: "u8 option \<Rightarrow> rchar list \<Rightarrow> rchar list" where
  "line_step k cs = (case k of Some c \<Rightarrow> cs @ [unat c] | None \<Rightarrow> butlast cs)"

lemma key_steps:
  "wf_shell s \<Longrightarrow> wf_shell (fold key_step ks s)
     \<and> chars (current_cmd (fold key_step ks s)) = fold line_step ks (chars (current_cmd s))"
proof (induction ks arbitrary: s)
  case (Cons k ks)
  show ?case
    using Cons shell_add_chars [OF Cons.prems] shell_backspace_chars [OF Cons.prems]
    by (cases k) (simp_all add: key_step_def line_step_def)
qed simp

text \<open>
  The line editor is right for every sequence of keys, although it keeps UTF-8 bytes: the line holds
  exactly the characters typed and not erased, one erase key taking back one character, of one byte or two.
\<close>

theorem typing_line:
  "chars (current_cmd (fold key_step ks shell_init)) = fold line_step ks []
   \<and> current_cmd (fold key_step ks shell_init) = of_chars (fold line_step ks [])"
proof -
  have "wf_shell (fold key_step ks shell_init)"
      "chars (current_cmd (fold key_step ks shell_init)) = fold line_step ks (chars '''')"
    using key_steps [OF wf_shell_init, of ks] by (auto simp: shell_init_def)
  moreover have "chars '''' = []" by code_simp
  ultimately show ?thesis using of_chars_chars [of "current_cmd (fold key_step ks shell_init)"]
    by (simp add: wf_shell_def)
qed

text \<open>
  A command line of plain words separated by single spaces is taken apart into exactly these
  words, entered into the history as the last command, and the line is empty again.
\<close>

theorem command_line_words:
  assumes "ws \<noteq> []" "\<forall>w\<in>set ws. plain_word w" "current_cmd s = join '' '' ws"
  shows "getcmd s = Some ws \<and> past_cmd (shell_clear s) = past_cmd s @ [ws] \<and> current_cmd (shell_clear s) = ''''"
proof -
  have "getcmd s = Some ws"
    using assms split_whitespace_join [OF assms(2)]
    by (cases ws rule: remdups_adj.cases) (auto simp: getcmd_def plain_word_def)
  then show ?thesis by (simp add: shell_clear_def)
qed

theorem command_line_words_witness:
  "getcmd (fold shell_add (as_bytes ''cat notes.txt'') shell_init) = Some [''cat'', ''notes.txt'']"
proof -
  have "current_cmd (fold shell_add (as_bytes ''cat notes.txt'') shell_init) = join '' '' [''cat'', ''notes.txt'']"
    by code_simp
  moreover have "\<forall>w\<in>set [''cat'', ''notes.txt'']. plain_word w" by (simp add: plain_word_def)
  ultimately show ?thesis using command_line_words [of "[''cat'', ''notes.txt'']"] by blast
qed

end
