(* ===== verification/Bounded_Queue.thy ===== *)
theory Bounded_Queue
  imports Prelude
begin

text \<open>
  The bounded queue the executor and the keyboard use, \<^verbatim>\<open>ArrayQueue\<close> of the \<^verbatim>\<open>crossbeam-queue\<close> crate. The crate
  is not part of the sources, so its operations are an argument; \<open>bounded_fifo\<close> states its documented
  behaviour, and the lists of at most a given length show that it can be met.
\<close>

record ('a, 'q) queue_ops =
  q_new :: "nat \<Rightarrow> 'q"
  q_push :: "'a \<Rightarrow> 'q \<Rightarrow> 'q option"
  q_pop :: "'q \<Rightarrow> ('a \<times> 'q) option"

definition bounded_fifo :: "('a, 'q) queue_ops \<Rightarrow> ('q \<Rightarrow> 'a list) \<Rightarrow> ('q \<Rightarrow> nat) \<Rightarrow> bool" where
  "bounded_fifo Q items capacity \<longleftrightarrow>
     (\<forall>n. items (q_new Q n) = [] \<and> capacity (q_new Q n) = n)
   \<and> (\<forall>x q. if length (items q) < capacity q
            then \<exists>q'. q_push Q x q = Some q' \<and> items q' = items q @ [x] \<and> capacity q' = capacity q
            else q_push Q x q = None)
   \<and> (\<forall>q. case items q of
            [] \<Rightarrow> q_pop Q q = None
          | x # xs \<Rightarrow> \<exists>q'. q_pop Q q = Some (x, q') \<and> items q' = xs \<and> capacity q' = capacity q)"

definition list_queue :: "('a, nat \<times> 'a list) queue_ops" where
  "list_queue =
    \<lparr>q_new = (\<lambda>n. (n, [])),
     q_push = (\<lambda>x (n, xs). if length xs < n then Some (n, xs @ [x]) else None),
     q_pop = (\<lambda>(n, xs). case xs of [] \<Rightarrow> None | x # r \<Rightarrow> Some (x, n, r))\<rparr>"

lemma list_queue_fifo: "bounded_fifo list_queue snd fst"
  by (auto simp: bounded_fifo_def list_queue_def split: list.splits)

lemma fifo_new:
  assumes "bounded_fifo Q items capacity"
  shows "items (q_new Q n) = []" "capacity (q_new Q n) = n"
  using assms by (simp_all add: bounded_fifo_def)

lemma fifo_push:
  assumes "bounded_fifo Q items capacity"
  shows "(length (items q) < capacity q \<and> (\<exists>q'. q_push Q x q = Some q' \<and> items q' = items q @ [x] \<and> capacity q' = capacity q))
    \<or> (\<not> length (items q) < capacity q \<and> q_push Q x q = None)"
  using assms unfolding bounded_fifo_def by metis

lemma fifo_push_Some:
  assumes "bounded_fifo Q items capacity" "q_push Q x q = Some q'"
  shows "items q' = items q @ [x]" "capacity q' = capacity q" "length (items q) < capacity q"
  using fifo_push [OF assms(1), of q x] assms(2) by auto

lemma fifo_pop_None:
  assumes "bounded_fifo Q items capacity"
  shows "q_pop Q q = None \<longleftrightarrow> items q = []"
proof -
  have "case items q of [] \<Rightarrow> q_pop Q q = None
      | x # xs \<Rightarrow> \<exists>q'. q_pop Q q = Some (x, q') \<and> items q' = xs \<and> capacity q' = capacity q"
    using assms unfolding bounded_fifo_def by blast
  then show ?thesis by (cases "items q") auto
qed

lemma fifo_pop_Some:
  assumes "bounded_fifo Q items capacity" "q_pop Q q = Some (x, q')"
  shows "items q = x # items q'" "capacity q' = capacity q"
proof -
  have "case items q of [] \<Rightarrow> q_pop Q q = None
      | x # xs \<Rightarrow> \<exists>q'. q_pop Q q = Some (x, q') \<and> items q' = xs \<and> capacity q' = capacity q"
    using assms(1) unfolding bounded_fifo_def by blast
  then show "items q = x # items q'" "capacity q' = capacity q" using assms(2) by (cases "items q"; auto)+
qed

end
