(* ===== verification/Keyboard.thy ===== *)
theory Keyboard
  imports Bounded_Queue Input
begin

text \<open>
  Keyboard input (\<^verbatim>\<open>task/keyboard.rs\<close>): the interrupt handler puts scancodes into a bounded queue and wakes the
  keyboard task, which decodes them into the key event queue. The queue and the \<^verbatim>\<open>AtomicWaker\<close> belong to crates
  and are arguments. \<open>kb_step\<close> interleaves the handler with the steps of \<^verbatim>\<open>poll_next\<close>, at any of which the
  interrupt can come.
\<close>

section \<open>The handler's side\<close>

text \<open>\<^verbatim>\<open>AtomicWaker\<close>: registering a waker, and waking, which tells whether there was one to wake.\<close>

record 'v waker_ops =
  aw_register :: "'v \<Rightarrow> 'v"
  aw_wake :: "'v \<Rightarrow> bool \<times> 'v"

definition takes_waker :: "'v waker_ops \<Rightarrow> bool" where
  "takes_waker A \<longleftrightarrow> (\<forall>v. fst (aw_wake A (aw_register A v)))"

datatype scancode_result = Queued bool | Queue_Full | Queue_Uninitialized

text \<open>
  \<^verbatim>\<open>add_scancode\<close>: the queue and the waker after it, and what it did: whether a task was woken, or the warning
  it prints.
\<close>

definition add_scancode :: "(u8, 'q) queue_ops \<Rightarrow> 'v waker_ops \<Rightarrow> u8 \<Rightarrow> 'q option \<Rightarrow> 'v \<Rightarrow> scancode_result \<times> 'q option \<times> 'v" where
  "add_scancode Q A scancode queue waker = (case queue of
      Some q \<Rightarrow> (case q_push Q scancode q of
          None \<Rightarrow> (Queue_Full, Some q, waker)
        | Some q' \<Rightarrow> (case aw_wake A waker of (woken, waker') \<Rightarrow> (Queued woken, Some q', waker')))
    | None \<Rightarrow> (Queue_Uninitialized, None, waker))"

definition scancode_warning :: "scancode_result \<Rightarrow> string option" where
  "scancode_warning r = (case r of
      Queued _ \<Rightarrow> None
    | Queue_Full \<Rightarrow> Some ''WARNING: scancode queue full; dropping keyboard input''
    | Queue_Uninitialized \<Rightarrow> Some ''WARNING: scancode queue uninitialized'')"

text \<open>\<^verbatim>\<open>add_processed_char\<close>: no code initializes its queue.\<close>

definition add_processed_char :: "(u8, 'q) queue_ops \<Rightarrow> u8 \<Rightarrow> 'q option \<Rightarrow> 'q option" where
  "add_processed_char Q c queue = (case queue of
      Some q \<Rightarrow> (case q_push Q c q of Some q' \<Rightarrow> Some q' | None \<Rightarrow> Some q)
    | None \<Rightarrow> None)"

section \<open>The task's side\<close>

definition scancode_stream_new :: "(u8, 'q) queue_ops \<Rightarrow> 'q option \<Rightarrow> 'q option outcome" where
  "scancode_stream_new Q queue = (case queue of
      None \<Rightarrow> Ret (Some (q_new Q 100))
    | Some _ \<Rightarrow> Panic (Panic_Msg ''ScancodeStream::new should only be called once''))"

text \<open>\<^verbatim>\<open>poll_next\<close> without an interrupt in between: \<open>None\<close> is \<^verbatim>\<open>Pending\<close>.\<close>

definition poll_next :: "(u8, 'q) queue_ops \<Rightarrow> 'v waker_ops \<Rightarrow> 'q option \<Rightarrow> 'v \<Rightarrow> (u8 option \<times> 'q option \<times> 'v) outcome" where
  "poll_next Q A queue waker = (case queue of
      None \<Rightarrow> Panic (Panic_Msg ''scancode queue not initialized'')
    | Some q \<Rightarrow> (case q_pop Q q of
          Some (scancode, q') \<Rightarrow> Ret (Some scancode, Some q', waker)
        | None \<Rightarrow> (let waker' = aw_register A waker in case q_pop Q q of
              Some (scancode, q') \<Rightarrow> Ret (Some scancode, Some q', waker')
            | None \<Rightarrow> Ret (None, Some q, waker'))))"

text \<open>
  The loop of \<^verbatim>\<open>print_keypresses\<close> on the scancodes it receives: the decoder is the \<^verbatim>\<open>pc_keyboard\<close> crate; a byte
  gives an error, nothing yet, or an event, which goes to the end of the queue.
\<close>

fun decode_all :: "('d \<Rightarrow> u8 \<Rightarrow> (unit + key_event option) \<times> 'd) \<Rightarrow> u8 list \<Rightarrow> 'd \<Rightarrow> key_event list \<Rightarrow> 'd \<times> key_event list" where
  "decode_all add_byte [] kb events = (kb, events)"
| "decode_all add_byte (scancode # rest) kb events = (case add_byte kb scancode of
      (Inr (Some key_event), kb') \<Rightarrow> decode_all add_byte rest kb' (push_key key_event events)
    | (_, kb') \<Rightarrow> decode_all add_byte rest kb' events)"

text \<open>
  One poll of that loop: it takes scancodes until none is left, and is then suspended with its waker registered. The
  queue holds at most 100 of them, so without interrupts meanwhile 101 rounds are enough.
\<close>

fun keyboard_poll :: "nat \<Rightarrow> (u8, 'q) queue_ops \<Rightarrow> 'v waker_ops \<Rightarrow> ('d \<Rightarrow> u8 \<Rightarrow> (unit + key_event option) \<times> 'd)
    \<Rightarrow> 'q option \<Rightarrow> 'v \<Rightarrow> 'd \<Rightarrow> key_event list \<Rightarrow> ('q option \<times> 'v \<times> 'd \<times> key_event list) outcome" where
  "keyboard_poll 0 Q A add_byte queue waker kb events = Hang"
| "keyboard_poll (Suc n) Q A add_byte queue waker kb events = obind (poll_next Q A queue waker) (\<lambda>(next, queue', waker').
     case next of
       None \<Rightarrow> Ret (queue', waker', kb, events)
     | Some scancode \<Rightarrow> (case add_byte kb scancode of
           (Inr (Some key_event), kb') \<Rightarrow> keyboard_poll n Q A add_byte queue' waker' kb' (push_key key_event events)
         | (_, kb') \<Rightarrow> keyboard_poll n Q A add_byte queue' waker' kb' events))"

section \<open>The two sides interleaved\<close>

text \<open>
  Where the keyboard task is: before the first look at the queue, before registering its waker, before the
  second look, or suspended. \<open>kb_ready\<close> says that its id is in the executor's queue.
\<close>

datatype kb_pc = First_Look | Registering | Second_Look | Suspended

record ('q, 'v) kb_state =
  kb_queue :: 'q
  kb_waker :: 'v
  kb_pc :: kb_pc
  kb_ready :: bool
  kb_accepted :: "u8 list"
  kb_delivered :: "u8 list"

definition kb_start :: "(u8, 'q) queue_ops \<Rightarrow> 'v \<Rightarrow> ('q, 'v) kb_state" where
  "kb_start Q v = \<lparr>kb_queue = q_new Q 100, kb_waker = v, kb_pc = First_Look, kb_ready = False,
                   kb_accepted = [], kb_delivered = []\<rparr>"

text \<open>A look at the queue: a scancode is delivered and the task asks for the next, or it goes on.\<close>

definition look :: "(u8, 'q) queue_ops \<Rightarrow> kb_pc \<Rightarrow> ('q, 'v) kb_state \<Rightarrow> ('q, 'v) kb_state" where
  "look Q next s = (case q_pop Q (kb_queue s) of
      Some (scancode, q') \<Rightarrow> s\<lparr>kb_queue := q', kb_pc := First_Look, kb_delivered := kb_delivered s @ [scancode]\<rparr>
    | None \<Rightarrow> s\<lparr>kb_pc := next\<rparr>)"

definition interrupt :: "(u8, 'q) queue_ops \<Rightarrow> 'v waker_ops \<Rightarrow> u8 \<Rightarrow> ('q, 'v) kb_state \<Rightarrow> ('q, 'v) kb_state" where
  "interrupt Q A scancode s = (case add_scancode Q A scancode (Some (kb_queue s)) (kb_waker s) of
      (Queued woken, Some q', v') \<Rightarrow>
        s\<lparr>kb_queue := q', kb_waker := v', kb_ready := (kb_ready s \<or> woken), kb_accepted := kb_accepted s @ [scancode]\<rparr>
    | _ \<Rightarrow> s)"

inductive kb_step :: "(u8, 'q) queue_ops \<Rightarrow> 'v waker_ops \<Rightarrow> ('q, 'v) kb_state \<Rightarrow> ('q, 'v) kb_state \<Rightarrow> bool" for Q A where
  first_look: "kb_pc s = First_Look \<Longrightarrow> kb_step Q A s (look Q Registering s)"
| register: "kb_pc s = Registering \<Longrightarrow> kb_step Q A s (s\<lparr>kb_waker := aw_register A (kb_waker s), kb_pc := Second_Look\<rparr>)"
| second_look: "kb_pc s = Second_Look \<Longrightarrow> kb_step Q A s (look Q Suspended s)"
| resume: "kb_pc s = Suspended \<Longrightarrow> kb_ready s \<Longrightarrow> kb_step Q A s (s\<lparr>kb_ready := False, kb_pc := First_Look\<rparr>)"
| key_interrupt: "kb_step Q A s (interrupt Q A scancode s)"

inductive_cases kb_stepE: "kb_step Q A s s'"

inductive kb_steps :: "(u8, 'q) queue_ops \<Rightarrow> 'v waker_ops \<Rightarrow> ('q, 'v) kb_state \<Rightarrow> ('q, 'v) kb_state \<Rightarrow> bool" for Q A where
  kb_refl: "kb_steps Q A s s"
| kb_trans: "kb_steps Q A s s1 \<Longrightarrow> kb_step Q A s1 s2 \<Longrightarrow> kb_steps Q A s s2"

section \<open>The invariant\<close>

definition kb_inv :: "('q \<Rightarrow> u8 list) \<Rightarrow> ('q \<Rightarrow> nat) \<Rightarrow> 'v waker_ops \<Rightarrow> ('q, 'v) kb_state \<Rightarrow> bool" where
  "kb_inv items capacity A s \<longleftrightarrow>
     kb_delivered s @ items (kb_queue s) = kb_accepted s \<and> length (items (kb_queue s)) \<le> 100
   \<and> capacity (kb_queue s) = 100
   \<and> (kb_pc s \<in> {Second_Look, Suspended} \<longrightarrow> fst (aw_wake A (kb_waker s)) \<or> kb_ready s)
   \<and> (kb_pc s = Suspended \<longrightarrow> items (kb_queue s) = [] \<or> kb_ready s)"

lemma look_inv:
  assumes "bounded_fifo Q items capacity" "kb_inv items capacity A s"
    and "next = Registering \<or> next = Suspended \<and> kb_pc s = Second_Look"
  shows "kb_inv items capacity A (look Q next s)"
proof (cases "q_pop Q (kb_queue s)")
  case None
  then show ?thesis using assms fifo_pop_None [OF assms(1), of "kb_queue s"] by (auto simp: look_def kb_inv_def)
next
  case (Some p)
  obtain scancode q' where p: "q_pop Q (kb_queue s) = Some (scancode, q')" using Some by (cases p) auto
  show ?thesis using assms(2) p fifo_pop_Some [OF assms(1) p] by (auto simp: look_def kb_inv_def)
qed

lemma interrupt_inv:
  assumes "bounded_fifo Q items capacity" "kb_inv items capacity A s"
  shows "kb_inv items capacity A (interrupt Q A scancode s)"
proof (cases "q_push Q scancode (kb_queue s)")
  case None
  then show ?thesis using assms(2) by (simp add: interrupt_def add_scancode_def)
next
  case (Some q')
  obtain woken v' where w: "aw_wake A (kb_waker s) = (woken, v')" by fastforce
  show ?thesis
    using assms(2) Some w fifo_push_Some [OF assms(1) Some]
    by (auto simp: interrupt_def add_scancode_def kb_inv_def)
qed

lemma kb_step_inv:
  assumes "bounded_fifo Q items capacity" "takes_waker A" "kb_step Q A s s'" "kb_inv items capacity A s"
  shows "kb_inv items capacity A s'"
  using assms(3)
proof cases
  case first_look
  then show ?thesis using look_inv [OF assms(1,4)] by simp
next
  case register
  then show ?thesis using assms(2,4) by (auto simp: kb_inv_def takes_waker_def)
next
  case second_look
  then show ?thesis using look_inv [OF assms(1,4)] by simp
next
  case resume
  then show ?thesis using assms(4) by (auto simp: kb_inv_def)
next
  case key_interrupt
  then show ?thesis using interrupt_inv [OF assms(1,4)] by simp
qed

lemma kb_steps_inv:
  assumes "bounded_fifo Q items capacity" "takes_waker A" "kb_steps Q A s s'" "kb_inv items capacity A s"
  shows "kb_inv items capacity A s'"
  using assms(3,4) by (induction rule: kb_steps.induct) (auto intro: kb_step_inv [OF assms(1,2)])

lemma kb_start_inv: "bounded_fifo Q items capacity \<Longrightarrow> kb_inv items capacity A (kb_start Q v)"
  by (simp add: kb_inv_def kb_start_def fifo_new)

text \<open>Without an interrupt in between, the steps of the relation are \<open>poll_next\<close>.\<close>

definition after_poll :: "u8 option \<times> 'q option \<times> 'v \<Rightarrow> ('q, 'v) kb_state \<Rightarrow> ('q, 'v) kb_state" where
  "after_poll r s = (case r of (res, queue, v) \<Rightarrow>
     s\<lparr>kb_queue := the queue, kb_waker := v,
       kb_pc := (if res = None then Suspended else First_Look),
       kb_delivered := kb_delivered s @ (case res of None \<Rightarrow> [] | Some c \<Rightarrow> [c])\<rparr>)"

lemma poll_next_steps:
  assumes "kb_pc s = First_Look" "poll_next Q A (Some (kb_queue s)) (kb_waker s) = Ret r"
  shows "kb_steps Q A s (after_poll r s)"
proof (cases "q_pop Q (kb_queue s)")
  case None
  let ?s1 = "s\<lparr>kb_pc := Registering\<rparr>"
  let ?s2 = "?s1\<lparr>kb_waker := aw_register A (kb_waker s), kb_pc := Second_Look\<rparr>"
  have "kb_step Q A s ?s1" using first_look [OF assms(1), of Q A] None by (simp add: look_def)
  moreover have "kb_step Q A ?s1 ?s2" using register [of ?s1 Q A] by simp
  moreover have "look Q Suspended ?s2 = after_poll r s"
    using assms(2) None by (cases s) (auto simp: poll_next_def look_def after_poll_def)
  then have "kb_step Q A ?s2 (after_poll r s)" using second_look [of ?s2 Q A] by simp
  ultimately show ?thesis by (meson kb_refl kb_trans)
next
  case (Some p)
  then obtain c q' where p: "q_pop Q (kb_queue s) = Some (c, q')" by (cases p) auto
  then have "look Q Registering s = after_poll r s"
    using assms by (cases s) (auto simp: poll_next_def look_def after_poll_def)
  then show ?thesis using first_look [OF assms(1), of Q A] by (metis kb_refl kb_trans)
qed

section \<open>Properties\<close>

definition flag_waker :: "bool waker_ops" where
  "flag_waker = \<lparr>aw_register = (\<lambda>_. True), aw_wake = (\<lambda>v. (v, False))\<rparr>"

lemma flag_waker_takes: "takes_waker flag_waker"
  by (simp add: takes_waker_def flag_waker_def)

text \<open>
  C9: no wake-up is lost and no scancode either. However interrupts interleave with the keyboard task, the
  scancodes the handler could queue are the ones delivered so far followed by the ones in the queue, in
  order; at most 100 wait; and when the task is suspended while scancodes wait, it is in the executor's queue.
\<close>

theorem no_lost_wakeup:
  assumes "bounded_fifo Q items capacity" and "takes_waker A" and "kb_steps Q A (kb_start Q v) s"
  shows "kb_accepted s = kb_delivered s @ items (kb_queue s) \<and> length (items (kb_queue s)) \<le> 100
    \<and> (kb_pc s = Suspended \<and> items (kb_queue s) \<noteq> [] \<longrightarrow> kb_ready s)"
  using kb_steps_inv [OF assms kb_start_inv [OF assms(1)]] by (auto simp: kb_inv_def)

theorem no_lost_wakeup_witness:
  "\<exists>s. kb_steps list_queue flag_waker (kb_start list_queue False) s \<and> kb_pc s = Suspended
    \<and> snd (kb_queue s) = [0x1E] \<and> kb_ready s"
proof -
  let ?s0 = "kb_start list_queue False"
  let ?s1 = "look list_queue Registering ?s0"
  let ?s2 = "?s1\<lparr>kb_waker := aw_register flag_waker (kb_waker ?s1), kb_pc := Second_Look\<rparr>"
  let ?s3 = "look list_queue Suspended ?s2"
  let ?s4 = "interrupt list_queue flag_waker 0x1E ?s3"
  have "kb_step list_queue flag_waker ?s0 ?s1" by (rule first_look) (simp add: kb_start_def)
  moreover have "kb_step list_queue flag_waker ?s1 ?s2"
    by (rule register) (simp add: look_def kb_start_def list_queue_def)
  moreover have "kb_step list_queue flag_waker ?s2 ?s3" by (rule second_look) simp
  moreover have "kb_step list_queue flag_waker ?s3 ?s4" by (rule key_interrupt)
  ultimately have st: "kb_steps list_queue flag_waker ?s0 ?s4" by (meson kb_refl kb_trans)
  have "kb_pc ?s4 = Suspended" "snd (kb_queue ?s4) = [0x1E]"
    by (simp_all add: interrupt_def add_scancode_def look_def kb_start_def list_queue_def flag_waker_def)
  then show ?thesis using st no_lost_wakeup [OF list_queue_fifo flag_waker_takes st] by auto
qed



end
