(* ===== verification/Machine.thy ===== *)
theory Machine
  imports Keyboard Vga_Buffer
begin

text \<open>
  The machine around the kernel: what it does to the processor and the devices, in program order
  (\<open>machine_event\<close>), the descriptor tables (\<^verbatim>\<open>gdt.rs\<close>), the interrupt handlers and their table (\<^verbatim>\<open>interrupts.rs\<close>),
  start-up, the exit device and the test runner (\<^verbatim>\<open>lib.rs\<close>), and the serial port (\<^verbatim>\<open>serial.rs\<close>), whose driver, the
  \<^verbatim>\<open>uart_16550\<close> crate, is a parameter.
\<close>

datatype machine_event =
    Disk_Flush
  | Interrupts_Off
  | Interrupts_On
  | Load_GDT
  | Set_CS nat
  | Load_TSS nat
  | Load_IDT
  | Init_PICS
  | End_Of_Interrupt u8
  | Out16 u16 u16
  | Out32 u16 u32
  | Enable_And_Halt
  | Halt_Forever

section \<open>Descriptor tables\<close>

definition DOUBLE_FAULT_IST_INDEX :: nat where
  "DOUBLE_FAULT_IST_INDEX = 0"

text \<open>The interrupt stack table of the task state segment, given where the static stack lies; stacks grow down.\<close>

definition tss_stack_table :: "nat \<Rightarrow> nat \<Rightarrow> nat option" where
  "tss_stack_table stack_start = [DOUBLE_FAULT_IST_INDEX \<mapsto> stack_start + 4096 * 5]"

datatype descriptor = Kernel_Code_Segment | Tss_Segment

record gdt_selectors =
  code_selector :: nat
  tss_selector :: nat

text \<open>The table type is that of the \<^verbatim>\<open>x86_64\<close> crate: \<open>add_entry\<close> gives the selector of the new entry.\<close>

definition gdt :: "(descriptor \<Rightarrow> 'g \<Rightarrow> nat \<times> 'g) \<Rightarrow> 'g \<Rightarrow> 'g \<times> gdt_selectors" where
  "gdt add_entry new =
    (let (code, g1) = add_entry Kernel_Code_Segment new; (tss, g2) = add_entry Tss_Segment g1
     in (g2, \<lparr>code_selector = code, tss_selector = tss\<rparr>))"

definition gdt_init :: "gdt_selectors \<Rightarrow> machine_event list" where
  "gdt_init s = [Load_GDT, Set_CS (code_selector s), Load_TSS (tss_selector s)]"

section \<open>Interrupts\<close>

definition PIC_1_OFFSET :: u8 where
  "PIC_1_OFFSET = 32"

definition PIC_2_OFFSET :: u8 where
  "PIC_2_OFFSET = PIC_1_OFFSET + 8"

datatype interrupt_index = Irq_Timer | Irq_Keyboard | Irq_Ata_Primary | Irq_Ata_Secondary

primrec index_u8 :: "interrupt_index \<Rightarrow> u8" where
  "index_u8 Irq_Timer = PIC_1_OFFSET"
| "index_u8 Irq_Keyboard = PIC_1_OFFSET + 1"
| "index_u8 Irq_Ata_Primary = PIC_1_OFFSET + 14"
| "index_u8 Irq_Ata_Secondary = PIC_1_OFFSET + 15"

definition index_usize :: "interrupt_index \<Rightarrow> nat" where
  "index_usize i = unat (index_u8 i)"

datatype handler =
    Breakpoint_Handler | Double_Fault_Handler | Page_Fault_Handler
  | Timer_Handler | Keyboard_Handler | Ata_Handler

datatype idt_slot = Slot_Breakpoint | Slot_Double_Fault | Slot_Page_Fault | Slot_Index nat

text \<open>The handler of a slot, with the index of the stack it switches to, if any.\<close>

definition idt :: "idt_slot \<Rightarrow> (handler \<times> nat option) option" where
  "idt =
    [Slot_Breakpoint \<mapsto> (Breakpoint_Handler, None),
     Slot_Double_Fault \<mapsto> (Double_Fault_Handler, Some DOUBLE_FAULT_IST_INDEX),
     Slot_Index (index_usize Irq_Timer) \<mapsto> (Timer_Handler, None),
     Slot_Index (index_usize Irq_Keyboard) \<mapsto> (Keyboard_Handler, None),
     Slot_Index (index_usize Irq_Ata_Primary) \<mapsto> (Ata_Handler, None),
     Slot_Page_Fault \<mapsto> (Page_Fault_Handler, None)]"

definition init_idt :: "machine_event list" where
  "init_idt = [Load_IDT]"

definition timer_interrupt_handler :: "machine_event list" where
  "timer_interrupt_handler = [End_Of_Interrupt (index_u8 Irq_Timer)]"

definition ata_interrupt_handler :: "machine_event list" where
  "ata_interrupt_handler = [End_Of_Interrupt (index_u8 Irq_Ata_Primary)]"

text \<open>The scancode read from port \<^verbatim>\<open>0x60\<close>, the scancode queue, the waker and the screen.\<close>

definition keyboard_interrupt_handler :: "(u8, 'q) queue_ops \<Rightarrow> 'v waker_ops \<Rightarrow> u8 \<Rightarrow> 'q option \<Rightarrow> 'v \<Rightarrow> writer
    \<Rightarrow> ('q option \<times> 'v \<times> writer \<times> machine_event list) outcome" where
  "keyboard_interrupt_handler Q A scancode queue waker w =
    (case add_scancode Q A scancode queue waker of (r, queue', waker') \<Rightarrow>
     obind (case scancode_warning r of None \<Rightarrow> Ret w | Some msg \<Rightarrow> println msg w) (\<lambda>w'.
     Ret (queue', waker', w', [End_Of_Interrupt (index_u8 Irq_Keyboard)])))"

text \<open>
  The exception handlers print what the processor reports: the stack frame, the address and the error code,
  as their \<^verbatim>\<open>Debug\<close> texts.
\<close>

definition breakpoint_handler :: "string \<Rightarrow> writer \<Rightarrow> writer outcome" where
  "breakpoint_handler stack_frame w = println (''EXCEPTION: BREAKPOINT'' @ [newline] @ stack_frame) w"

definition page_fault_handler :: "string \<Rightarrow> string \<Rightarrow> string \<Rightarrow> writer \<Rightarrow> (writer \<times> machine_event list) outcome" where
  "page_fault_handler cr2 error_code stack_frame w =
    obind (for_each println [''EXCEPTION: PAGE FAULT'', ''Accessed Address: '' @ cr2, ''Error Code: '' @ error_code, stack_frame] w)
      (\<lambda>w'. Ret (w', [Halt_Forever]))"

definition double_fault_handler :: "string \<Rightarrow> 'a outcome" where
  "double_fault_handler stack_frame = Panic (Panic_Msg (''EXCEPTION: DOUBLE FAULT'' @ [newline] @ stack_frame))"

section \<open>Start-up, exit and tests\<close>

definition machine_init :: "gdt_selectors \<Rightarrow> machine_event list" where
  "machine_init s = gdt_init s @ init_idt @ [Init_PICS, Interrupts_On]"

definition hlt_loop :: "machine_event list" where
  "hlt_loop = [Halt_Forever]"

datatype qemu_exit_code = Exit_Success | Exit_Failed

primrec exit_code_u32 :: "qemu_exit_code \<Rightarrow> u32" where
  "exit_code_u32 Exit_Success = 0x10"
| "exit_code_u32 Exit_Failed = 0x11"

definition exit_qemu :: "qemu_exit_code \<Rightarrow> machine_event list" where
  "exit_qemu exit_code = [Out32 0xf4 (exit_code_u32 exit_code)]"

section \<open>The serial port\<close>

text \<open>The port driver; the first component of a write says whether it succeeded.\<close>

record 's uart =
  uart_new :: "u16 \<Rightarrow> 's"
  uart_init :: "'s \<Rightarrow> 's"
  uart_write_fmt :: "string \<Rightarrow> 's \<Rightarrow> bool \<times> 's"

text \<open>What the driver's documentation promises: every text that is free of the two erasing characters is sent as it is.\<close>

definition serial_text :: "string \<Rightarrow> bool" where
  "serial_text s \<longleftrightarrow> CHR 0x08 \<notin> set s \<and> CHR 0x7F \<notin> set s"

definition uart_sends :: "'s uart \<Rightarrow> ('s \<Rightarrow> string) \<Rightarrow> bool" where
  "uart_sends U sent \<longleftrightarrow> (\<forall>s p. serial_text s \<longrightarrow> fst (uart_write_fmt U s p) \<and> sent (snd (uart_write_fmt U s p)) = sent p @ s)"

text \<open>The static is made and initialised by its first use.\<close>

definition SERIAL1 :: "'s uart \<Rightarrow> 's option \<Rightarrow> 's" where
  "SERIAL1 U port = (case port of None \<Rightarrow> uart_init U (uart_new U 0x3F8) | Some serial_port \<Rightarrow> serial_port)"

definition serial_print :: "'s uart \<Rightarrow> string \<Rightarrow> 's option \<Rightarrow> 's option outcome" where
  "serial_print U s port = (case uart_write_fmt U s (SERIAL1 U port) of (ok, port') \<Rightarrow>
     if ok then Ret (Some port') else Panic (Panic_Msg ''Printing to serial failed: Error''))"

definition serial_println :: "'s uart \<Rightarrow> string \<Rightarrow> 's option \<Rightarrow> 's option outcome" where
  "serial_println U s = serial_print U (s @ [newline])"

lemma serial_print_sends:
  assumes "uart_sends U sent" "serial_text s"
  shows "\<exists>p. serial_print U s port = Ret (Some p) \<and> sent p = sent (SERIAL1 U port) @ s"
proof -
  have "fst (uart_write_fmt U s (SERIAL1 U port)) \<and> sent (snd (uart_write_fmt U s (SERIAL1 U port))) = sent (SERIAL1 U port) @ s"
    using assms unfolding uart_sends_def by blast
  then show ?thesis by (simp add: serial_print_def split_beta)
qed

lemma SERIAL1_made [simp]: "SERIAL1 U (Some p) = p"
  by (simp add: SERIAL1_def)

section \<open>Running tests\<close>

text \<open>A test is its name and what its function does to the screen; the port and the screen are the state.\<close>

definition testable_run :: "'s uart \<Rightarrow> string \<times> (writer \<Rightarrow> writer outcome) \<Rightarrow> 's option \<times> writer \<Rightarrow> ('s option \<times> writer) outcome" where
  "testable_run U test st = (case st of (port, w) \<Rightarrow>
    obind (serial_print U (fst test @ ''...'' @ [CHR 0x09]) port) (\<lambda>port1.
    obind (snd test w) (\<lambda>w'.
    obind (serial_println U ''[ok]'' port1) (\<lambda>port2. Ret (port2, w')))))"

definition test_runner :: "'s uart \<Rightarrow> (string \<times> (writer \<Rightarrow> writer outcome)) list \<Rightarrow> 's option \<times> writer
    \<Rightarrow> (('s option \<times> writer) \<times> machine_event list) outcome" where
  "test_runner U tests st =
    obind (serial_println U (''Running '' @ nat_str (length tests) @ '' tests'') (fst st)) (\<lambda>port.
    obind (for_each (testable_run U) tests (port, snd st)) (\<lambda>st'.
    Ret (st', exit_qemu Exit_Success)))"

definition test_panic_handler :: "'s uart \<Rightarrow> string \<Rightarrow> 's option \<Rightarrow> writer \<Rightarrow> ('s option \<times> writer \<times> machine_event list) outcome" where
  "test_panic_handler U info port w =
    obind (serial_print U ([CHR 0x1b] @ ''[31m'' @ info @ [CHR 0x1b] @ ''[0m'') port) (\<lambda>port'.
    obind (write_string info (set_color (color_code_new Red Black) w)) (\<lambda>w'.
    Ret (port', w', exit_qemu Exit_Failed)))"

end
