(* ===== verification/Power_Off.thy ===== *)
theory Power_Off
  imports Machine
begin

text \<open>
  Powering off (\<^verbatim>\<open>power.rs\<close>), as the sequence of effects on the machine in program order. The disk flush is
  \<open>flush_cache\<close> of \<open>Ide\<close>.
\<close>

definition teardown :: "machine_event list" where
  "teardown = [Disk_Flush, Interrupts_Off]"

text \<open>The events of \<^verbatim>\<open>shutdown\<close> and the screen, should the machine still run then.\<close>

definition shutdown :: "writer \<Rightarrow> (machine_event list \<times> writer) outcome" where
  "shutdown w =
    (let events = teardown @ [Out16 0x604 0x2000, Out16 0xB004 0x2000, Out16 0x4004 0x3400] @ exit_qemu Exit_Success
     in obind (println ''It is now safe to power off your computer.'' w) (\<lambda>w'. Ret (events @ hlt_loop, w')))"

end
