(* ===== verification/F64.thy ===== *)
theory F64
  imports Rust_String Complex_Main
begin

text \<open>
  Rust's \<^verbatim>\<open>f64\<close>, the numbers of the Lisp interpreter: IEEE binary64 values with round to nearest even, the
  conversions to and from \<^verbatim>\<open>i64\<close>, \<^verbatim>\<open>str::parse\<close> and \<^verbatim>\<open>Display\<close> with the shortest digits that read back. A finite
  number is a sign, a mantissa below \<open>2 ^ 53\<close> and an exponent, in the canonical form \<open>f64_ok\<close>; there is one
  NaN, since nothing here can tell them apart.
\<close>

section \<open>Numbers and rounding\<close>

datatype f64 = Not_A_Number | Infinite bool | Finite bool nat int

definition f64_zero :: "bool \<Rightarrow> f64" where
  "f64_zero neg = Finite neg 0 (- 1074)"

definition f64_ok :: "f64 \<Rightarrow> bool" where
  "f64_ok x = (case x of
      Finite _ m e \<Rightarrow> m < 2 ^ 53 \<and> - 1074 \<le> e \<and> e \<le> 971 \<and> (2 ^ 52 \<le> m \<or> e = - 1074)
    | _ \<Rightarrow> True)"

fun bit_len :: "nat \<Rightarrow> nat" where
  "bit_len n = (if n = 0 then 0 else Suc (bit_len (n div 2)))"

declare bit_len.simps [simp del]

text \<open>The quotient \<open>n / d\<close> over \<open>2 ^ e\<close>, again as a quotient.\<close>

definition scaled :: "nat \<Rightarrow> nat \<Rightarrow> int \<Rightarrow> nat \<times> nat" where
  "scaled n d e = (if 0 \<le> e then (n, d * 2 ^ nat e) else (n * 2 ^ nat (- e), d))"

definition rne :: "nat \<Rightarrow> nat \<Rightarrow> nat" where
  "rne n d = (let q = n div d; r = n mod d in if d < 2 * r \<or> 2 * r = d \<and> odd q then q + 1 else q)"

definition ratio_exp :: "nat \<Rightarrow> nat \<Rightarrow> int" where
  "ratio_exp n d =
    (let e = int (bit_len n) - int (bit_len d) - 53; (a, b) = scaled n d e
     in max (- 1074) (if b * 2 ^ 53 \<le> a then e + 1 else e))"

definition pack :: "bool \<Rightarrow> nat \<Rightarrow> int \<Rightarrow> f64" where
  "pack neg m e =
    (let (m', e') = (if m = 2 ^ 53 then (2 ^ 52, e + 1) else (m, e))
     in if 971 < e' then Infinite neg else Finite neg m' e')"

definition round_ratio :: "bool \<Rightarrow> nat \<Rightarrow> nat \<Rightarrow> f64" where
  "round_ratio neg n d =
    (if n = 0 then f64_zero neg
     else let e = ratio_exp n d; (a, b) = scaled n d e in pack neg (rne a b) e)"

definition round_dyadic :: "bool \<Rightarrow> nat \<Rightarrow> int \<Rightarrow> f64" where
  "round_dyadic neg m e = (if 0 \<le> e then round_ratio neg (m * 2 ^ nat e) 1 else round_ratio neg m (2 ^ nat (- e)))"

section \<open>Arithmetic\<close>

text \<open>The signed mantissa of a finite number over a smaller exponent.\<close>

definition at_exp :: "bool \<Rightarrow> nat \<Rightarrow> int \<Rightarrow> int \<Rightarrow> int" where
  "at_exp neg m e g = (if neg then - 1 else 1) * int m * 2 ^ nat (e - g)"

fun f64_neg :: "f64 \<Rightarrow> f64" where
  "f64_neg Not_A_Number = Not_A_Number"
| "f64_neg (Infinite s) = Infinite (\<not> s)"
| "f64_neg (Finite s m e) = Finite (\<not> s) m e"

fun f64_add :: "f64 \<Rightarrow> f64 \<Rightarrow> f64" where
  "f64_add Not_A_Number _ = Not_A_Number"
| "f64_add _ Not_A_Number = Not_A_Number"
| "f64_add (Infinite s) (Infinite t) = (if s = t then Infinite s else Not_A_Number)"
| "f64_add (Infinite s) (Finite _ _ _) = Infinite s"
| "f64_add (Finite _ _ _) (Infinite t) = Infinite t"
| "f64_add (Finite s m e) (Finite t n f) =
    (let g = min e f; v = at_exp s m e g + at_exp t n f g
     in if v = 0 then f64_zero (s \<and> t) else round_dyadic (v < 0) (nat \<bar>v\<bar>) g)"

definition f64_sub :: "f64 \<Rightarrow> f64 \<Rightarrow> f64" where
  "f64_sub a b = f64_add a (f64_neg b)"

fun f64_mul :: "f64 \<Rightarrow> f64 \<Rightarrow> f64" where
  "f64_mul Not_A_Number _ = Not_A_Number"
| "f64_mul _ Not_A_Number = Not_A_Number"
| "f64_mul (Infinite s) (Infinite t) = Infinite (s \<noteq> t)"
| "f64_mul (Infinite s) (Finite t n _) = (if n = 0 then Not_A_Number else Infinite (s \<noteq> t))"
| "f64_mul (Finite s m _) (Infinite t) = (if m = 0 then Not_A_Number else Infinite (s \<noteq> t))"
| "f64_mul (Finite s m e) (Finite t n f) = round_dyadic (s \<noteq> t) (m * n) (e + f)"

fun f64_div :: "f64 \<Rightarrow> f64 \<Rightarrow> f64" where
  "f64_div Not_A_Number _ = Not_A_Number"
| "f64_div _ Not_A_Number = Not_A_Number"
| "f64_div (Infinite _) (Infinite _) = Not_A_Number"
| "f64_div (Infinite s) (Finite t _ _) = Infinite (s \<noteq> t)"
| "f64_div (Finite s _ _) (Infinite t) = f64_zero (s \<noteq> t)"
| "f64_div (Finite s m e) (Finite t n f) =
    (if n = 0 then if m = 0 then Not_A_Number else Infinite (s \<noteq> t)
     else if f \<le> e then round_ratio (s \<noteq> t) (m * 2 ^ nat (e - f)) n
     else round_ratio (s \<noteq> t) m (n * 2 ^ nat (f - e)))"

fun f64_less :: "f64 \<Rightarrow> f64 \<Rightarrow> bool" where
  "f64_less Not_A_Number _ = False"
| "f64_less _ Not_A_Number = False"
| "f64_less (Infinite s) (Infinite t) = (s \<and> \<not> t)"
| "f64_less (Infinite s) (Finite _ _ _) = s"
| "f64_less (Finite _ _ _) (Infinite t) = (\<not> t)"
| "f64_less (Finite s m e) (Finite t n f) = (at_exp s m e (min e f) < at_exp t n f (min e f))"

fun f64_eq :: "f64 \<Rightarrow> f64 \<Rightarrow> bool" where
  "f64_eq Not_A_Number _ = False"
| "f64_eq _ Not_A_Number = False"
| "f64_eq (Infinite s) (Infinite t) = (s = t)"
| "f64_eq (Infinite s) (Finite _ _ _) = False"
| "f64_eq (Finite _ _ _) (Infinite t) = False"
| "f64_eq (Finite s m e) (Finite t n f) = (at_exp s m e (min e f) = at_exp t n f (min e f))"

definition f64_le :: "f64 \<Rightarrow> f64 \<Rightarrow> bool" where
  "f64_le a b \<longleftrightarrow> f64_less a b \<or> f64_eq a b"

section \<open>Casts\<close>

definition i64_min :: int where
  "i64_min = - (2 ^ 63)"

definition i64_max :: int where
  "i64_max = 2 ^ 63 - 1"

text \<open>\<^verbatim>\<open>as i64\<close> truncates towards zero and saturates; NaN becomes 0.\<close>

fun f64_to_i64 :: "f64 \<Rightarrow> int" where
  "f64_to_i64 Not_A_Number = 0"
| "f64_to_i64 (Infinite neg) = (if neg then i64_min else i64_max)"
| "f64_to_i64 (Finite neg m e) =
    (let v = int (if 0 \<le> e then m * 2 ^ nat e else m div 2 ^ nat (- e))
     in if neg then max i64_min (- v) else min i64_max v)"

definition f64_of_int :: "int \<Rightarrow> f64" where
  "f64_of_int i = round_ratio (i < 0) (nat \<bar>i\<bar>) 1"

section \<open>Reading\<close>

text \<open>The digits of an exponent count only while its value is below \<open>0x10000\<close>.\<close>

definition exp_val :: "string \<Rightarrow> nat" where
  "exp_val ds = fold (\<lambda>c v. if v < 0x10000 then 10 * v + (of_char c - 48) else v) ds 0"

definition parse_scientific :: "string \<Rightarrow> (int \<times> string) option" where
  "parse_scientific s =
    (let neg = (s \<noteq> [] \<and> hd s = CHR ''-'');
         s1 = (if s \<noteq> [] \<and> (hd s = CHR ''-'' \<or> hd s = CHR ''+'') then tl s else s)
     in if s1 \<noteq> [] \<and> is_digit (hd s1)
        then let v = int (exp_val (takeWhile is_digit s1)) in Some (if neg then - v else v, dropWhile is_digit s1)
        else None)"

text \<open>The digits of a number, as a mantissa and a power of ten.\<close>

definition parse_number :: "string \<Rightarrow> (nat \<times> int) option" where
  "parse_number s =
    (let whole = takeWhile is_digit s; s1 = dropWhile is_digit s;
         dot = (s1 \<noteq> [] \<and> hd s1 = CHR ''.'');
         frac = (if dot then takeWhile is_digit (tl s1) else []);
         s2 = (if dot then dropWhile is_digit (tl s1) else s1)
     in if whole = [] \<and> frac = [] then None
        else if s2 = [] then Some (digits_val (whole @ frac), - int (length frac))
        else if hd s2 = CHR ''e'' \<or> hd s2 = CHR ''E'' then
          (case parse_scientific (tl s2) of
             Some (x, []) \<Rightarrow> Some (digits_val (whole @ frac), x - int (length frac))
           | _ \<Rightarrow> None)
        else None)"

definition lower :: "char \<Rightarrow> char" where
  "lower c = (if 65 \<le> (of_char c :: nat) \<and> (of_char c :: nat) \<le> 90 then char_of (of_char c + 32 :: nat) else c)"

definition parse_inf_nan :: "bool \<Rightarrow> string \<Rightarrow> f64 option" where
  "parse_inf_nan neg s =
    (let t = map lower s
     in if t = ''nan'' then Some Not_A_Number
        else if t = ''inf'' \<or> t = ''infinity'' then Some (Infinite neg) else None)"

definition round_decimal :: "bool \<Rightarrow> nat \<Rightarrow> int \<Rightarrow> f64" where
  "round_decimal neg m x = (if 0 \<le> x then round_ratio neg (m * 10 ^ nat x) 1 else round_ratio neg m (10 ^ nat (- x)))"

definition parse_f64 :: "string \<Rightarrow> f64 option" where
  "parse_f64 s =
    (if s = [] then None
     else let neg = (hd s = CHR ''-'');
              s1 = (if hd s = CHR ''-'' \<or> hd s = CHR ''+'' then tl s else s)
          in if s1 = [] then None
             else case parse_number s1 of
                    Some (m, x) \<Rightarrow> Some (round_decimal neg m x)
                  | None \<Rightarrow> parse_inf_nan neg s1)"

section \<open>Printing\<close>

text \<open>
  One position of the digit search: \<open>v = m * 2 ^ e\<close> in units of \<open>10 ^ j\<close>, all in quarters of the last place.
  The number just below or just above \<open>v\<close> that is a multiple of \<open>10 ^ j\<close> and inside the rounding interval,
  the nearer one if both are.
\<close>

definition quarter :: "int \<Rightarrow> int \<Rightarrow> nat \<times> nat" where
  "quarter e j = ((if 2 \<le> e then 2 ^ nat (e - 2) else 1) * (if j < 0 then 10 ^ nat (- j) else 1),
                  (if 2 \<le> e then 1 else 2 ^ nat (2 - e)) * (if j < 0 then 1 else 10 ^ nat j))"

definition digits_at :: "nat \<Rightarrow> int \<Rightarrow> int \<Rightarrow> nat option" where
  "digits_at m e j =
    (let (a, b) = quarter e j; q = (4 * m * a) div b; r = (4 * m * a) mod b;
         minus = (if m = 2 ^ 52 then 1 else 2);
         down = (if even m then r \<le> minus * a else r < minus * a);
         up = (if even m then b - r \<le> 2 * a else b - r < 2 * a)
     in if up \<and> (\<not> down \<or> b \<le> 2 * r) then Some (q + 1) else if down then Some q else None)"

fun shortest :: "nat \<Rightarrow> int \<Rightarrow> nat \<Rightarrow> nat \<times> int" where
  "shortest m e 0 = (case digits_at m e (- 1074) of Some q \<Rightarrow> (q, - 1074) | None \<Rightarrow> (0, 0))"
| "shortest m e (Suc k) =
    (case digits_at m e (int (Suc k) - 1074) of Some q \<Rightarrow> (q, int (Suc k) - 1074) | None \<Rightarrow> shortest m e k)"

definition show_decimal :: "nat \<Rightarrow> int \<Rightarrow> string" where
  "show_decimal q j =
    (if 0 \<le> j then nat_str q @ replicate (nat j) (CHR ''0'')
     else let s = nat_str q; f = nat (- j)
          in if length s \<le> f then ''0.'' @ replicate (f - length s) (CHR ''0'') @ s
             else take (length s - f) s @ ''.'' @ drop (length s - f) s)"

fun show_f64 :: "f64 \<Rightarrow> string" where
  "show_f64 Not_A_Number = ''NaN''"
| "show_f64 (Infinite neg) = (if neg then ''-inf'' else ''inf'')"
| "show_f64 (Finite neg m e) =
    (if neg then ''-'' else '''') @
    (if m = 0 then ''0'' else case shortest m e 1383 of (q, j) \<Rightarrow> show_decimal q j)"

end
