(* ===== verification/F64_Laws.thy ===== *)
theory F64_Laws
  imports F64
begin

text \<open>
  Rounding, and what it gives: canonical results, numbers that read back from what they print, and exact
  arithmetic on whole numbers below \<open>2 ^ 53\<close>.
\<close>

section \<open>Rounding as a function of the exact quotient\<close>

abbreviation pow2 :: "int \<Rightarrow> real" where
  "pow2 e \<equiv> 2 powi e"

lemma pow2_pos [simp]: "0 < pow2 e"
  by simp

lemma pow2_nat: "0 \<le> e \<Longrightarrow> pow2 e = 2 ^ nat e"
  by (simp add: power_int_def)

lemma pow2_neg: "e \<le> 0 \<Longrightarrow> pow2 e = 1 / 2 ^ nat (- e)"
  by (cases "e = 0") (simp_all add: power_int_def field_simps)

lemma pow2_Suc: "pow2 (e + 1) = 2 * pow2 e"
  by (simp add: power_int_add)

lemma pow2_add: "pow2 e * pow2 f = pow2 (e + f)"
  by (simp add: power_int_add)

lemma pow2_mono: "e \<le> f \<Longrightarrow> pow2 e \<le> pow2 f"
  by (rule power_int_increasing) simp_all

lemma bit_len_bounds: "0 < n \<Longrightarrow> 0 < bit_len n \<and> 2 ^ (bit_len n - 1) \<le> n \<and> n < 2 ^ bit_len n"
proof (induction n rule: bit_len.induct)
  case (1 n)
  have s: "bit_len n = Suc (bit_len (n div 2))" using 1(2) by (simp add: bit_len.simps)
  show ?case
  proof (cases "n = 1")
    case True
    then show ?thesis by (simp add: s bit_len.simps)
  next
    case False
    then have "0 < n div 2" using 1(2) by linarith
    then have "0 < bit_len (n div 2)" "2 ^ (bit_len (n div 2) - 1) \<le> n div 2" "n div 2 < 2 ^ bit_len (n div 2)"
      using 1 by auto
    then show ?thesis unfolding s by (cases "bit_len (n div 2)") auto
  qed
qed

lemma scaled_val:
  assumes "scaled n d e = (a, b)" "0 < d"
  shows "0 < b" "real a / real b = real n / real d / pow2 e"
  using assms by (auto simp: scaled_def pow2_nat pow2_neg split: if_splits)

lemma ratio_bounds:
  assumes "0 < n" "0 < d"
  defines "k \<equiv> int (bit_len n) - int (bit_len d)"
  shows "pow2 (k - 1) < real n / real d" "real n / real d < pow2 (k + 1)"
proof -
  note n = bit_len_bounds [OF assms(1)] and d = bit_len_bounds [OF assms(2)]
  have nb: "pow2 (int (bit_len n) - 1) \<le> real n" "real n < pow2 (int (bit_len n))"
    using n by (auto simp: pow2_nat nat_diff_distrib simp flip: of_nat_power)
  have db: "pow2 (int (bit_len d) - 1) \<le> real d" "real d < pow2 (int (bit_len d))"
    using d by (auto simp: pow2_nat nat_diff_distrib simp flip: of_nat_power)
  have "pow2 (k - 1) * real d < pow2 (k - 1) * pow2 (int (bit_len d))" using db by simp
  also have "\<dots> = pow2 (int (bit_len n) - 1)" unfolding pow2_add k_def by (simp add: algebra_simps)
  finally show "pow2 (k - 1) < real n / real d" using nb(1) assms(2) by (simp add: field_simps)
  have "pow2 (int (bit_len n)) = pow2 (k + 1) * pow2 (int (bit_len d) - 1)"
    unfolding pow2_add k_def by (simp add: algebra_simps)
  also have "\<dots> \<le> pow2 (k + 1) * real d" using db by simp
  finally have "real n < pow2 (k + 1) * real d" by (rule less_le_trans [OF nb(2)])
  then show "real n / real d < pow2 (k + 1)" using assms(2) by (subst pos_divide_less_eq) simp_all
qed

text \<open>The exponent of the rounded number: the quotient fits into 53 bits and has the top bit, if not subnormal.\<close>

definition exp_fits :: "real \<Rightarrow> int \<Rightarrow> bool" where
  "exp_fits y e \<longleftrightarrow> - 1074 \<le> e \<and> y < 2 ^ 53 * pow2 e \<and> (2 ^ 52 * pow2 e \<le> y \<or> e = - 1074)"

lemma exp_fits_unique:
  assumes "exp_fits y e" "exp_fits y f"
  shows "e = f"
proof -
  have "\<not> e < f" if "exp_fits y e" "exp_fits y f" for e f
  proof
    assume "e < f"
    then have "2 * pow2 e \<le> pow2 f" using pow2_mono [of "e + 1" f] by (simp add: pow2_Suc)
    then show False using that \<open>e < f\<close> by (auto simp: exp_fits_def)
  qed
  from this [OF assms] this [OF assms(2,1)] show ?thesis by simp
qed

lemma ratio_exp_fits:
  assumes "0 < n" "0 < d"
  shows "exp_fits (real n / real d) (ratio_exp n d)"
proof -
  define k where "k = int (bit_len n) - int (bit_len d)"
  let ?y = "real n / real d"
  obtain a b where ab: "scaled n d (k - 53) = (a, b)" by fastforce
  note v = scaled_val [OF ab assms(2)]
  have e: "ratio_exp n d = max (- 1074) (if b * 2 ^ 53 \<le> a then k - 52 else k - 53)"
    using ab by (simp add: ratio_exp_def k_def)
  have "b * 2 ^ 53 \<le> a \<longleftrightarrow> real b * 2 ^ 53 \<le> real a" 
    using of_nat_le_iff [where 'a = real, of "b * 2 ^ 53" a] by simp
  also have "\<dots> \<longleftrightarrow> 2 ^ 53 \<le> real a / real b" using v(1) by (simp add: field_simps)
  finally have c: "b * 2 ^ 53 \<le> a \<longleftrightarrow> 2 ^ 53 * pow2 (k - 53) \<le> ?y" unfolding v(2) pos_le_divide_eq [OF pow2_pos] .
  have lo: "2 ^ 52 * pow2 (k - 53) < ?y" and hi: "?y < 2 ^ 53 * pow2 (k - 52)"
    using ratio_bounds [OF assms] by (simp_all add: k_def power_int_diff power_int_add mult.commute)
  have s: "pow2 (k - 52) = 2 * pow2 (k - 53)" using pow2_Suc [of "k - 53"] by simp
  have "exp_fits ?y (max (- 1074) f)" if "2 ^ 52 * pow2 f \<le> ?y" "?y < 2 ^ 53 * pow2 f" for f
  proof (cases "f < - 1074")
    case True
    then have m: "max (- 1074) f = - 1074" by simp
    have "2 ^ 53 * pow2 f \<le> 2 ^ 53 * pow2 (- 1074)"
      by (rule mult_left_mono [OF pow2_mono]) (use True in simp_all)
    from less_le_trans [OF that(2) this] show ?thesis unfolding m exp_fits_def by blast
  qed (use that in \<open>simp add: exp_fits_def\<close>)
  then show ?thesis using c lo hi s unfolding e by auto
qed

lemma rne_eq:
  assumes b: "0 < b" and lo: "2 * (m * b) \<le> 2 * a + b" and hi: "2 * a \<le> 2 * (m * b) + b"
    and tie: "2 * (m * b) = 2 * a + b \<or> 2 * a = 2 * (m * b) + b \<Longrightarrow> even m"
  shows "rne a b = m"
proof (cases "m * b \<le> a")
  case True
  have "a div b = m" by (rule div_nat_eqI) (use True hi b in \<open>auto simp: algebra_simps\<close>)
  moreover from this have a: "a = m * b + a mod b" using div_mult_mod_eq [of a b] by simp
  have "2 * (a mod b) \<le> b" "2 * (a mod b) = b \<Longrightarrow> even m" using hi tie a by linarith+
  ultimately show ?thesis by (auto simp: rne_def Let_def)
next
  case False
  then obtain j where m: "m = Suc j" by (cases m) auto
  have "a div b = j" by (rule div_nat_eqI) (use False lo b in \<open>auto simp: m algebra_simps\<close>)
  moreover from this have "a mod b = a - j * b" by (simp add: minus_div_mult_eq_mod [symmetric])
  ultimately show ?thesis using lo tie False by (auto simp: rne_def Let_def m algebra_simps)
qed

lemma rne_real:
  assumes "0 < b" "real m - 1 / 2 \<le> real a / real b" "real a / real b \<le> real m + 1 / 2"
    and "real m - 1 / 2 = real a / real b \<or> real a / real b = real m + 1 / 2 \<Longrightarrow> even m"
  shows "rne a b = m"
proof (rule rne_eq)
  have "real (2 * (m * b)) \<le> real (2 * a + b)" "real (2 * a) \<le> real (2 * (m * b) + b)"
    using assms(1-3) by (simp_all add: field_simps)
  then show "2 * (m * b) \<le> 2 * a + b" "2 * a \<le> 2 * (m * b) + b" by (simp_all only: of_nat_le_iff)
  assume "2 * (m * b) = 2 * a + b \<or> 2 * a = 2 * (m * b) + b"
  then have "real (2 * (m * b)) = real (2 * a + b) \<or> real (2 * a) = real (2 * (m * b) + b)" by presburger
  then show "even m" using assms(1) by (intro assms(4)) (auto simp: field_simps)
qed fact

section \<open>Numbers near a canonical one round to it\<close>

definition mag :: "nat \<Rightarrow> int \<Rightarrow> real" where
  "mag m e = real m * pow2 e"

text \<open>The rounding interval of a canonical mantissa and exponent, closed for an even mantissa.\<close>

definition rounds_to :: "real \<Rightarrow> nat \<Rightarrow> int \<Rightarrow> bool" where
  "rounds_to y m e \<longleftrightarrow>
     (let lo = (if m = 2 ^ 52 then 1 / 4 else 1 / 2) * pow2 e; hi = 1 / 2 * pow2 e
      in mag m e - lo \<le> y \<and> y \<le> mag m e + hi \<and> (odd m \<longrightarrow> mag m e - lo < y \<and> y < mag m e + hi))"

lemma rne_scaled:
  assumes "scaled n d e = (a, b)" "0 < d" "real n / real d = z * pow2 e"
    and "real m - 1 / 2 \<le> z" "z \<le> real m + 1 / 2" "real m - 1 / 2 = z \<or> z = real m + 1 / 2 \<Longrightarrow> even m"
  shows "rne a b = m"
proof (rule rne_real)
  have "real a / real b = z" using scaled_val [OF assms(1,2)] assms(3) by simp
  then show "real m - 1 / 2 \<le> real a / real b" "real a / real b \<le> real m + 1 / 2"
      "real m - 1 / 2 = real a / real b \<or> real a / real b = real m + 1 / 2 \<Longrightarrow> even m"
    using assms(4-6) by simp_all
qed (rule scaled_val [OF assms(1,2)])

lemma round_ratio_at:
  assumes "0 < n" "0 < d" "exp_fits (z * pow2 e) e" "real n / real d = z * pow2 e"
    and "real m - 1 / 2 \<le> z" "z \<le> real m + 1 / 2" "real m - 1 / 2 = z \<or> z = real m + 1 / 2 \<Longrightarrow> even m"
  shows "round_ratio neg n d = pack neg m e"
proof -
  have e: "ratio_exp n d = e"
    using exp_fits_unique [OF ratio_exp_fits [OF assms(1,2)]] assms(3,4) by simp
  obtain a b where ab: "scaled n d e = (a, b)" by fastforce
  show ?thesis
    using assms(1) rne_scaled [OF ab assms(2,4-7)] by (simp add: round_ratio_def e ab)
qed

lemma round_ratio_near:
  assumes ok: "f64_ok (Finite neg m e)" and m: "0 < m" and d: "0 < d"
    and y: "rounds_to (real n / real d) m e"
  shows "round_ratio neg n d = Finite neg m e"
proof -
  define z where "z = real n / real d / pow2 e"
  have z: "real n / real d = z * pow2 e" by (simp add: z_def)
  have c: "m < 2 ^ 53" "- 1074 \<le> e" "e \<le> 971" "2 ^ 52 \<le> m \<or> e = - 1074"
    using ok by (simp_all add: f64_ok_def)
  have b: "real m - (if m = 2 ^ 52 then 1 / 4 else 1 / 2) \<le> z" "z \<le> real m + 1 / 2"
      "odd m \<longrightarrow> real m - (if m = 2 ^ 52 then 1 / 4 else 1 / 2) < z \<and> z < real m + 1 / 2"
    using y unfolding rounds_to_def mag_def z Let_def left_diff_distrib [symmetric] distrib_right [symmetric]
    by simp_all
  have "real (m + 1) \<le> real (2 ^ 53)" using c(1) by (simp only: of_nat_le_iff)
  then have m53: "real m + 1 / 2 < 2 ^ 53" by simp
  have zp: "0 < z" using b(1) m by (auto split: if_splits)
  then have "0 < real n / real d" unfolding z by simp
  then have n: "0 < n" by (cases n) auto
  have p: "pack neg m e = Finite neg m e" using c by (simp add: pack_def)
  show ?thesis
  proof (cases "2 ^ 52 \<le> z \<or> e = - 1074")
    case True
    have "exp_fits (z * pow2 e) e" unfolding exp_fits_def using True c(2) b(2) m53 by auto
    moreover have "real m - 1 / 2 \<le> z" "real m - 1 / 2 = z \<or> z = real m + 1 / 2 \<Longrightarrow> even m"
      using b by (auto split: if_splits)
    ultimately show ?thesis using round_ratio_at [OF n d _ z] b(2) p by metis
  next
    case False
    have m52: "m = 2 ^ 52" using False b(1) c(4) by (auto split: if_splits)
    have e1: "z * pow2 e = 2 * z * pow2 (e - 1)" using pow2_Suc [of "e - 1"] by simp
    have q: "real (2 ^ 53) - 1 / 2 \<le> 2 * z" "2 * z \<le> real (2 ^ 53) + 1 / 2" using b(1) False by (simp_all add: m52)
    have "exp_fits (2 * z * pow2 (e - 1)) (e - 1)"
      unfolding exp_fits_def using False c(2) q by (auto simp: m52)
    from round_ratio_at [OF n d this, of "2 ^ 53"] have "round_ratio neg n d = pack neg (2 ^ 53) (e - 1)"
      using q z e1 by simp
    then show ?thesis using c(3) by (simp add: pack_def m52)
  qed
qed

section \<open>The shortest digits are in the rounding interval\<close>

lemma quarter_val:
  assumes "quarter e j = (a, b)"
  shows "0 < a" "0 < b" "pow2 (e - 2) = real a / real b * 10 powi j"
proof -
  have "(10 :: real) powi j = (if j < 0 then 1 / 10 ^ nat (- j) else 10 ^ nat j)"
    by (simp add: power_int_def field_simps)
  then show "0 < a" "0 < b" "pow2 (e - 2) = real a / real b * 10 powi j"
    using assms by (auto simp: quarter_def pow2_nat pow2_neg split: if_splits)
qed

lemma digits_at_rounds:
  assumes q: "digits_at m e j = Some q" and m: "0 < m"
  shows "rounds_to (real q * 10 powi j) m e"
proof -
  obtain a b where ab: "quarter e j = (a, b)" by fastforce
  define f r where "f = (4 * m * a) div b" and "r = (4 * m * a) mod b"
  define u where "u = (10 :: real) powi j / real b"
  define minus :: nat where "minus = (if m = 2 ^ 52 then 1 else 2)"
  note v = quarter_val [OF ab]
  have u: "0 < u" using v(2) by (simp add: u_def)
  have t: "(10 :: real) powi j = real b * u" using v(2) by (simp add: u_def)
  have ue: "pow2 e = 4 * real a * u"
    using v(3) pow2_add [of "e - 2" 2] by (simp add: u_def field_simps)
  have "real (f * b + r) = real (4 * m * a)" unfolding f_def r_def by simp
  then have fr: "real f * real b + real r = 4 * real m * real a" by simp
  have rb: "r < b" using v(2) by (simp add: r_def)
  have mg: "mag m e = (real f * real b + real r) * u" unfolding mag_def ue fr by simp
  define A B where "A = real (minus * a) * u" and "B = real (2 * a) * u"
  have low: "(if m = 2 ^ 52 then 1 / 4 else 1 / 2) * pow2 e = A" by (simp add: ue minus_def A_def)
  have high: "1 / 2 * pow2 e = B" by (simp add: ue B_def)
  have AB: "0 < A" "0 < B" using u v(1) by (simp_all add: A_def B_def minus_def)
  have "q = f \<and> (if even m then r \<le> minus * a else r < minus * a)
      \<or> q = f + 1 \<and> (if even m then b - r \<le> 2 * a else b - r < 2 * a)"
    using q ab by (auto simp: digits_at_def f_def r_def minus_def Let_def split: if_splits)
  then consider (down) "q = f" "r \<le> minus * a" "odd m \<Longrightarrow> r < minus * a"
    | (up) "q = f + 1" "b - r \<le> 2 * a" "odd m \<Longrightarrow> b - r < 2 * a"
    by (cases "even m") (auto intro: less_imp_le)
  then show ?thesis
  proof cases
    case down
    have "real q * 10 powi j = mag m e - real r * u" unfolding mg t down(1) by (simp add: algebra_simps)
    moreover have "real r \<le> real (minus * a)" "odd m \<Longrightarrow> real r < real (minus * a)"
      by (rule of_nat_mono [OF down(2)], rule of_nat_less_iff [THEN iffD2], rule down(3))
    then have "real r * u \<le> A" "odd m \<Longrightarrow> real r * u < A" unfolding A_def using u by simp_all
    moreover have "0 \<le> real r * u" using u by simp
    ultimately show ?thesis unfolding rounds_to_def Let_def low high using AB by auto
  next
    case up
    define w where "w = real (b - r) * u"
    have "real q * 10 powi j = mag m e + w"
      unfolding mg t up(1) w_def using rb by (simp add: algebra_simps of_nat_diff)
    moreover have "real (b - r) \<le> real (2 * a)" "odd m \<Longrightarrow> real (b - r) < real (2 * a)"
      by (rule of_nat_mono [OF up(2)], rule of_nat_less_iff [THEN iffD2], rule up(3))
    then have "w \<le> B" "odd m \<Longrightarrow> w < B" unfolding B_def w_def using u by simp_all
    moreover have "0 < w" unfolding w_def using u rb by simp
    ultimately show ?thesis unfolding rounds_to_def Let_def low high using AB by auto
  qed
qed

lemma digits_at_low:
  assumes "0 \<le> e + int p"
  shows "digits_at m e (- int p) \<noteq> None"
proof -
  obtain a b where ab: "quarter e (- int p) = (a, b)" by fastforce
  have "b dvd 4 * a"
  proof (cases "2 \<le> e")
    case False
    have "nat (2 - e) \<le> 2 + p" using assms by linarith
    then have "(2 :: nat) ^ nat (2 - e) dvd 2 ^ (2 + p)" by (rule le_imp_power_dvd)
    also have "(2 :: nat) ^ (2 + p) = 4 * 2 ^ p" by (simp add: power_add)
    also have "\<dots> dvd 4 * (2 * 5) ^ p" unfolding power_mult_distrib by (rule mult_dvd_mono) simp_all
    finally have "(2 :: nat) ^ nat (2 - e) dvd 4 * 10 ^ p" by simp
    moreover have "quarter e (- int p) = (10 ^ p, 2 ^ nat (2 - e))"
      using False by (cases "p = 0") (simp_all add: quarter_def)
    ultimately show ?thesis using ab by simp
  qed (use ab in \<open>auto simp: quarter_def split: if_splits\<close>)
  then have "b dvd 4 * m * a" by (metis dvd_mult mult.assoc mult.left_commute)
  then have "(4 * m * a) mod b = 0" by simp
  moreover have "0 < a" using quarter_val [OF ab] by simp
  ultimately show ?thesis by (auto simp: digits_at_def ab Let_def)
qed

lemma shortest_rounds:
  assumes "- 1074 \<le> e" "0 < m"
  shows "shortest m e k = (q, j) \<Longrightarrow> rounds_to (real q * 10 powi j) m e"
proof (induction k)
  case 0
  obtain q' where q': "digits_at m e (- 1074) = Some q'" using digits_at_low [of e 1074 m] assms by auto
  then have "q = q'" "j = - 1074" using 0 by simp_all
  then show ?case using digits_at_rounds [OF q' assms(2)] by blast
next
  case (Suc k)
  show ?case
  proof (cases "digits_at m e (int (Suc k) - 1074)")
    case (Some q')
    then have "q = q'" "j = int (Suc k) - 1074" using Suc.prems by simp_all
    then show ?thesis using digits_at_rounds [OF Some assms(2)] by blast
  qed (use Suc in simp)
qed

section \<open>What is printed reads back\<close>

lemma takeWhile_digits: "list_all is_digit ds \<Longrightarrow> takeWhile is_digit (ds @ CHR ''.'' # s) = ds
    \<and> dropWhile is_digit (ds @ CHR ''.'' # s) = CHR ''.'' # s"
  by (simp add: list_all_iff takeWhile_append dropWhile_append is_digit_def)

lemma all_digits: "list_all is_digit ds \<Longrightarrow> takeWhile is_digit ds = ds \<and> dropWhile is_digit ds = []"
  by (simp add: list_all_iff takeWhile_eq_all_conv)

lemma list_all_take_drop: "list_all P xs \<Longrightarrow> list_all P (take n xs) \<and> list_all P (drop n xs)"
  by (metis append_take_drop_id list_all_append)

lemma parse_number_whole:
  assumes "list_all is_digit ds" "ds \<noteq> []"
  shows "parse_number ds = Some (digits_val ds, 0)"
  using assms by (simp add: parse_number_def all_digits Let_def)

lemma parse_number_point:
  assumes "list_all is_digit ds" "list_all is_digit fs" "fs \<noteq> []"
  shows "parse_number (ds @ CHR ''.'' # fs) = Some (digits_val (ds @ fs), - int (length fs))"
  using assms by (simp add: parse_number_def takeWhile_digits all_digits Let_def)

lemma zeros_digits: "list_all is_digit (replicate n (CHR ''0''))"
  by (simp add: list_all_iff is_digit_def)

lemma parse_show_decimal:
  "\<exists>m x. parse_number (show_decimal q j) = Some (m, x) \<and> real m * 10 powi x = real q * 10 powi j"
proof (cases "0 \<le> j")
  case True
  have "parse_number (show_decimal q j) = Some (q * 10 ^ nat j, 0)"
    using True parse_number_whole [of "nat_str q @ replicate (nat j) (CHR ''0'')"]
    by (simp add: show_decimal_def nat_str_digits zeros_digits digits_val_append digits_val_nat_str digits_val_zeros)
  then show ?thesis using True by (simp add: power_int_def)
next
  case False
  define f where "f = nat (- j)"
  have f: "0 < f" "j = - int f" using False by (auto simp: f_def)
  show ?thesis
  proof (cases "length (nat_str q) \<le> f")
    case True
    let ?fs = "replicate (f - length (nat_str q)) (CHR ''0'') @ nat_str q"
    have "show_decimal q j = ''0'' @ CHR ''.'' # ?fs" using False True by (simp add: show_decimal_def f_def Let_def)
    moreover have "length ?fs = f" using True by simp
    moreover have "digits_val (''0'' @ ?fs) = q"
      using digits_val_append [of "''0''" ?fs] digits_val_append [of "replicate (f - length (nat_str q)) (CHR ''0'')" "nat_str q"]
      by (simp add: digits_val_nat_str digits_val_zeros) (simp add: digits_val_def)
    ultimately show ?thesis
      using parse_number_point [of "''0''" ?fs] f by (simp add: nat_str_digits zeros_digits is_digit_def)
  next
    case long: False
    let ?k = "length (nat_str q) - f"
    have "show_decimal q j = take ?k (nat_str q) @ CHR ''.'' # drop ?k (nat_str q)"
      using False long by (simp add: show_decimal_def f_def Let_def)
    moreover have "length (drop ?k (nat_str q)) = f" using long by simp
    moreover from this f(1) have "drop ?k (nat_str q) \<noteq> []" by fastforce
    ultimately show ?thesis
      using parse_number_point [of "take ?k (nat_str q)" "drop ?k (nat_str q)"] f
        list_all_take_drop [OF nat_str_digits, of ?k q] by (simp add: digits_val_nat_str)
  qed
qed

lemma round_decimal_ratio:
  "\<exists>n d. round_decimal neg m x = round_ratio neg n d \<and> 0 < d \<and> real n / real d = real m * 10 powi x"
proof (cases "0 \<le> x")
  case True
  then show ?thesis by (intro exI [of _ "m * 10 ^ nat x"] exI [of _ "1 :: nat"]) (simp add: round_decimal_def power_int_def)
next
  case False
  then show ?thesis by (intro exI [of _ m] exI [of _ "10 ^ nat (- x)"]) (simp add: round_decimal_def power_int_def field_simps)
qed

lemma show_decimal_hd:
  "show_decimal q j \<noteq> [] \<and> hd (show_decimal q j) \<noteq> CHR ''-'' \<and> hd (show_decimal q j) \<noteq> CHR ''+''"
proof -
  obtain c s where c: "nat_str q = c # s" by (cases "nat_str q") auto
  then have "is_digit c" using nat_str_digits [of q] by simp
  then have "c \<noteq> CHR ''-'' \<and> c \<noteq> CHR ''+''" by (auto simp: is_digit_def)
  then show ?thesis by (cases "length (nat_str q) - nat (- j)") (auto simp: show_decimal_def c Let_def)
qed

lemma parse_show_finite:
  assumes "f64_ok (Finite neg m e)"
  shows "parse_f64 (show_f64 (Finite neg m e)) = Some (Finite neg m e)"
proof (cases "m = 0")
  case True
  then have "e = - 1074" using assms by (auto simp: f64_ok_def)
  have "parse_number ''0'' = Some (0, 0)" by code_simp
  with True \<open>e = - 1074\<close> show ?thesis
    by (cases neg) (simp_all add: parse_f64_def round_decimal_def round_ratio_def f64_zero_def)
next
  case False
  obtain q j where qj: "shortest m e 1383 = (q, j)" by fastforce
  have "- 1074 \<le> e" using assms by (simp add: f64_ok_def)
  from shortest_rounds [OF this _ qj] False have r: "rounds_to (real q * 10 powi j) m e" by simp
  obtain m' x where p: "parse_number (show_decimal q j) = Some (m', x)" "real m' * 10 powi x = real q * 10 powi j"
    using parse_show_decimal by blast
  obtain n d where nd: "round_decimal neg m' x = round_ratio neg n d" "0 < d" "real n / real d = real m' * 10 powi x"
    using round_decimal_ratio by blast
  have "round_ratio neg n d = Finite neg m e"
    using round_ratio_near [OF assms _ nd(2)] False r nd(3) p(2) by simp
  moreover have "show_f64 (Finite neg m e) = (if neg then ''-'' else []) @ show_decimal q j"
    unfolding show_f64.simps qj using False by simp
  ultimately show ?thesis
    using p(1) nd(1) show_decimal_hd [of q j] by (cases neg) (auto simp: parse_f64_def Let_def)
qed

section \<open>Every result is canonical\<close>

lemma rne_bounds:
  assumes "0 < b" "k * b \<le> a" "a < l * b"
  shows "k \<le> rne a b" "rne a b \<le> l"
proof -
  have "k \<le> a div b" using assms by (simp add: less_eq_div_iff_mult_less_eq)
  moreover have "a div b < l" using assms by (simp add: less_mult_imp_div_less)
  ultimately show "k \<le> rne a b" "rne a b \<le> l" by (auto simp: rne_def Let_def)
qed

lemma f64_ok_simps [simp]:
  "f64_ok Not_A_Number" "f64_ok (Infinite s)" "f64_ok (f64_zero s)"
  "f64_ok (Finite s m e) \<longleftrightarrow> m < 2 ^ 53 \<and> - 1074 \<le> e \<and> e \<le> 971 \<and> (2 ^ 52 \<le> m \<or> e = - 1074)"
  by (simp_all add: f64_ok_def f64_zero_def)

lemma pack_ok:
  assumes "m \<le> 2 ^ 53" "- 1074 \<le> e" "2 ^ 52 \<le> m \<or> e = - 1074"
  shows "f64_ok (pack neg m e)"
  using assms by (auto simp: pack_def Let_def)

lemma round_ratio_ok [simp]:
  assumes "0 < d"
  shows "f64_ok (round_ratio neg n d)"
proof (cases "n = 0")
  case False
  define e where "e = ratio_exp n d"
  obtain a b where ab: "scaled n d e = (a, b)" by fastforce
  note v = scaled_val [OF ab assms]
  have f: "exp_fits (real a / real b * pow2 e) e"
    using ratio_exp_fits [of n d] False assms unfolding v(2) e_def by simp
  have "real a < real (2 ^ 53 * b)" using f v(1) unfolding exp_fits_def by (simp add: field_simps)
  then have up: "a < 2 ^ 53 * b" by (simp only: of_nat_less_iff)
  have lo: "2 ^ 52 * b \<le> a \<or> e = - 1074"
  proof (cases "e = - 1074")
    case False
    then have "2 ^ 52 \<le> real a / real b"
      using f unfolding exp_fits_def mult_le_cancel_right_pos [OF pow2_pos] by blast
    then have "real (2 ^ 52 * b) \<le> real a" using v(1) by (simp add: field_simps)
    then have "2 ^ 52 * b \<le> a" by (simp only: of_nat_le_iff)
    then show ?thesis ..
  qed simp
  have "f64_ok (pack neg (rne a b) e)"
    using lo rne_bounds(2) [OF v(1) _ up, of 0] rne_bounds(1) [OF v(1) _ up] f
    by (intro pack_ok) (auto simp: exp_fits_def)
  then show ?thesis using False by (simp add: round_ratio_def e_def [symmetric] ab)
qed (simp add: round_ratio_def)

lemma round_dyadic_ok [simp]: "f64_ok (round_dyadic neg m e)"
  by (simp add: round_dyadic_def)

lemma f64_neg_ok [simp]: "f64_ok (f64_neg x) = f64_ok x"
  by (cases x) simp_all

lemma f64_add_ok [simp]: "f64_ok (f64_add x y)"
  by (cases x; cases y) (simp_all add: Let_def)

lemma f64_sub_ok [simp]: "f64_ok (f64_sub x y)"
  by (simp add: f64_sub_def)

lemma f64_mul_ok [simp]: "f64_ok (f64_mul x y)"
  by (cases x; cases y) simp_all

lemma f64_div_ok [simp]: "f64_ok (f64_div x y)"
  by (cases x; cases y) simp_all

lemma f64_of_int_ok [simp]: "f64_ok (f64_of_int i)"
  by (simp add: f64_of_int_def)

lemma parse_f64_ok: "parse_f64 s = Some x \<Longrightarrow> f64_ok x"
  by (auto simp: parse_f64_def parse_inf_nan_def round_decimal_def Let_def split: if_splits option.splits)

section \<open>Whole numbers\<close>

lemma round_exact:
  assumes "f64_ok (Finite neg m e)" "0 < m" "0 < d" "real n / real d = mag m e"
  shows "round_ratio neg n d = Finite neg m e"
  using assms by (intro round_ratio_near) (auto simp: rounds_to_def Let_def)

text \<open>The canonical form of a whole number below \<open>2 ^ 53\<close>.\<close>

definition is_whole :: "f64 \<Rightarrow> int \<Rightarrow> bool" where
  "is_whole x i \<longleftrightarrow> (\<exists>m e. x = Finite (i < 0) m e \<and> f64_ok x \<and> mag m e = real_of_int \<bar>i\<bar> \<and> (i \<noteq> 0 \<longrightarrow> e \<le> 0))"

lemma mag_zero_iff: "mag m e = 0 \<longleftrightarrow> m = 0"
  by (simp add: mag_def)

lemma is_whole_of_int:
  assumes "\<bar>i\<bar> < 2 ^ 53"
  shows "is_whole (f64_of_int i) i"
proof (cases "i = 0")
  case True
  then show ?thesis by (simp add: is_whole_def f64_of_int_def round_ratio_def f64_zero_def mag_def)
next
  case False
  define n where "n = nat \<bar>i\<bar>"
  have n: "0 < n" "n < 2 ^ 53" using False assms by (auto simp: n_def)
  define l where "l = bit_len n"
  have l: "0 < l" "2 ^ (l - 1) \<le> n" "n < 2 ^ l" using bit_len_bounds [OF n(1)] by (simp_all add: l_def)
  have "\<not> 53 < l" using l(2) n(2) power_increasing [of 53 "l - 1" "2 :: nat"] by fastforce
  define m where "m = n * 2 ^ (53 - l)"
  have e: "int l - 53 = - int (53 - l)" "int l - 53 \<le> 0" using \<open>\<not> 53 < l\<close> by simp_all
  have p: "2 ^ 52 = (2 :: nat) ^ (l - 1) * 2 ^ (53 - l)" "2 ^ 53 = (2 :: nat) ^ l * 2 ^ (53 - l)"
    using l(1) \<open>\<not> 53 < l\<close> by (simp_all flip: power_add)
  have "2 ^ 52 \<le> m" unfolding m_def p(1) by (rule mult_right_mono [OF l(2)]) simp
  have "m < 2 ^ 53" unfolding m_def p(2) by (rule mult_strict_right_mono [OF l(3)]) simp
  with \<open>2 ^ 52 \<le> m\<close> have ok: "f64_ok (Finite (i < 0) m (int l - 53))" using l(1) e by simp
  have mg: "mag m (int l - 53) = real n" unfolding mag_def m_def e(1) by (simp add: pow2_neg)
  have "f64_of_int i = Finite (i < 0) m (int l - 53)"
    unfolding f64_of_int_def n_def [symmetric] using mg n \<open>2 ^ 52 \<le> m\<close> by (intro round_exact [OF ok]) simp_all
  then show ?thesis using ok mg e(2) by (auto simp: is_whole_def n_def)
qed

lemma is_whole_round:
  assumes "is_whole x i" "0 < d" "real n / real d = real_of_int \<bar>i\<bar>" "i \<noteq> 0"
  shows "round_ratio (i < 0) n d = x"
proof -
  obtain m e where x: "x = Finite (i < 0) m e" "f64_ok x" "mag m e = real_of_int \<bar>i\<bar>"
    using assms(1) by (auto simp: is_whole_def)
  moreover have "0 < m" using x(3) assms(4) by (cases "m = 0") (auto simp: mag_def)
  ultimately show ?thesis using round_exact [OF _ _ assms(2)] assms(3) by simp
qed

lemma round_dyadic_whole:
  assumes "\<bar>i\<bar> < 2 ^ 53" "i \<noteq> 0" "real m * pow2 g = real_of_int \<bar>i\<bar>"
  shows "round_dyadic (i < 0) m g = f64_of_int i"
proof -
  note r = is_whole_round [OF is_whole_of_int [OF assms(1)] _ _ assms(2)]
  show ?thesis
    using r [of 1 "m * 2 ^ nat g"] r [of "2 ^ nat (- g)" m] assms(3)
    by (cases "0 \<le> g") (simp_all add: round_dyadic_def pow2_nat pow2_neg)
qed

lemma at_exp_val: "g \<le> e \<Longrightarrow> real_of_int (at_exp s m e g) * pow2 g = (if s then - 1 else 1) * mag m e"
  using pow2_add [of "e - g" g] by (simp add: at_exp_def mag_def pow2_nat)

lemma at_exp_whole:
  assumes "is_whole (Finite s m e) i" "g \<le> e"
  shows "real_of_int (at_exp s m e g) * pow2 g = real_of_int i"
  using assms by (auto simp: at_exp_val is_whole_def)

lemma f64_add_whole:
  assumes "is_whole x i" "is_whole y j" "\<bar>i + j\<bar> < 2 ^ 53"
  shows "f64_add x y = (if i + j = 0 then f64_zero (i < 0 \<and> j < 0) else f64_of_int (i + j))"
proof -
  obtain m e n f where xy: "x = Finite (i < 0) m e" "y = Finite (j < 0) n f"
    using assms(1,2) by (auto simp: is_whole_def)
  define g where "g = min e f"
  define v where "v = at_exp (i < 0) m e g + at_exp (j < 0) n f g"
  have "real_of_int v * pow2 g = real_of_int (i + j)"
    unfolding v_def of_int_add distrib_right using assms(1,2) unfolding xy
    by (simp add: at_exp_whole g_def)
  then have v: "real_of_int v * pow2 g = real_of_int (i + j)" .
  have sg: "v = 0 \<longleftrightarrow> i + j = 0" "v < 0 \<longleftrightarrow> i + j < 0"
    using v by (metis of_int_eq_0_iff mult_eq_0_iff pow2_pos less_irrefl, metis of_int_less_0_iff mult_less_0_iff pow2_pos less_asym)
  have "real (nat \<bar>v\<bar>) * pow2 g = \<bar>real_of_int v * pow2 g\<bar>" by (simp add: abs_mult)
  then have "real (nat \<bar>v\<bar>) * pow2 g = real_of_int \<bar>i + j\<bar>" unfolding v by simp
  from round_dyadic_whole [OF assms(3) _ this] show ?thesis
    unfolding xy f64_add.simps Let_def g_def [symmetric] v_def [symmetric] using sg by auto
qed

lemma f64_mul_whole:
  assumes "is_whole x i" "is_whole y j" "\<bar>i * j\<bar> < 2 ^ 53" "i * j \<noteq> 0"
  shows "f64_mul x y = f64_of_int (i * j)"
proof -
  obtain m e n f where xy: "x = Finite (i < 0) m e" "y = Finite (j < 0) n f"
      "mag m e = real_of_int \<bar>i\<bar>" "mag n f = real_of_int \<bar>j\<bar>"
    using assms(1,2) by (auto simp: is_whole_def)
  have "real (m * n) * pow2 (e + f) = mag m e * mag n f" by (simp add: mag_def flip: pow2_add)
  then have "real (m * n) * pow2 (e + f) = real_of_int \<bar>i * j\<bar>" by (simp add: xy abs_mult)
  moreover have "((i < 0) \<noteq> (j < 0)) = (i * j < 0)" using assms(4) by (auto simp: mult_less_0_iff)
  ultimately show ?thesis using round_dyadic_whole [OF assms(3,4)] by (simp add: xy)
qed

lemma f64_compare_whole:
  assumes "is_whole x i" "is_whole y j"
  shows "f64_less x y \<longleftrightarrow> i < j" "f64_eq x y \<longleftrightarrow> i = j"
proof -
  obtain m e n f where xy: "x = Finite (i < 0) m e" "y = Finite (j < 0) n f"
    using assms(1,2) by (auto simp: is_whole_def)
  define g where "g = min e f"
  have "real_of_int (at_exp (i < 0) m e g) * pow2 g = real_of_int i" "real_of_int (at_exp (j < 0) n f g) * pow2 g = real_of_int j"
    using assms unfolding xy by (simp_all add: at_exp_whole g_def)
  then have "at_exp (i < 0) m e g < at_exp (j < 0) n f g \<longleftrightarrow> i < j" "at_exp (i < 0) m e g = at_exp (j < 0) n f g \<longleftrightarrow> i = j"
    by (metis of_int_less_iff mult_less_cancel_right_pos pow2_pos, metis of_int_eq_iff mult_cancel_right pow2_pos less_irrefl)
  then show "f64_less x y \<longleftrightarrow> i < j" "f64_eq x y \<longleftrightarrow> i = j" by (simp_all add: xy flip: g_def)
qed

lemma f64_to_i64_whole:
  assumes "is_whole x i" "\<bar>i\<bar> < 2 ^ 53"
  shows "f64_to_i64 x = i"
proof -
  obtain m e where x: "x = Finite (i < 0) m e" "mag m e = real_of_int \<bar>i\<bar>" "i \<noteq> 0 \<longrightarrow> e \<le> 0"
    using assms(1) by (auto simp: is_whole_def)
  have "(if 0 \<le> e then m * 2 ^ nat e else m div 2 ^ nat (- e)) = nat \<bar>i\<bar>"
  proof (cases "0 \<le> e")
    case True
    then have "real (m * 2 ^ nat e) = real (nat \<bar>i\<bar>)" using x(2) by (simp add: mag_def pow2_nat)
    then have "m * 2 ^ nat e = nat \<bar>i\<bar>" by (simp only: of_nat_eq_iff)
    then show ?thesis using True by simp
  next
    case False
    then have "real m = real (nat \<bar>i\<bar> * 2 ^ nat (- e))" using x(2) by (simp add: mag_def pow2_neg field_simps)
    then have "m = nat \<bar>i\<bar> * 2 ^ nat (- e)" by (simp only: of_nat_eq_iff)
    then show ?thesis using False by simp
  qed
  then show ?thesis using assms(2) by (auto simp: x(1) Let_def i64_min_def i64_max_def)
qed

lemma nat_str_shift: "0 < q \<Longrightarrow> nat_str q @ replicate k (CHR ''0'') = nat_str (q * 10 ^ k)"
proof (induction k)
  case (Suc k)
  let ?p = "q * 10 ^ k"
  have "char_of (48 :: nat) = CHR ''0''" by code_simp
  then have "nat_str (10 * ?p) = nat_str ?p @ ''0''" using Suc.prems by (subst nat_str.simps) simp
  moreover have "nat_str q @ replicate (Suc k) (CHR ''0'') = (nat_str q @ replicate k (CHR ''0'')) @ ''0''"
    by (simp add: replicate_append_same)
  ultimately show ?case using Suc by (simp add: mult.left_commute)
qed simp

lemma digits_at_whole:
  assumes "mag m e = real n" "e \<le> 0"
  shows "digits_at m e 0 = Some n"
proof -
  define b :: nat where "b = 2 ^ nat (- e)"
  have "real m = real (n * b)" using assms by (simp add: mag_def pow2_neg field_simps b_def)
  then have m: "m = n * b" by (simp only: of_nat_eq_iff)
  have "nat (2 - e) = nat (- e) + 2" using assms(2) by linarith
  then have q: "quarter e 0 = (1, 4 * b)" using assms(2) by (simp add: quarter_def b_def power_add)
  have b: "0 < b" by (simp add: b_def)
  have "(4 * m * 1) div (4 * b) = n" "(4 * m * 1) mod (4 * b) = 0" using b by (simp_all add: m)
  then show ?thesis unfolding digits_at_def q using b by (simp add: Let_def)
qed

lemma digits_at_near:
  assumes "digits_at m e (int k) = Some q" "mag m e = real n" "e \<le> 0" "0 < m"
  shows "q * 10 ^ k = n"
proof -
  have "rounds_to (real q * 10 powi int k) m e" by (rule digits_at_rounds [OF assms(1,4)])
  moreover have "pow2 e \<le> 1" using pow2_mono [OF assms(3)] by simp
  ultimately have "real n - 1 / 2 \<le> real (q * 10 ^ k)" "real (q * 10 ^ k) \<le> real n + 1 / 2"
    using assms(2) pow2_pos [of e] by (auto simp: rounds_to_def Let_def split: if_splits)
  then show ?thesis by linarith
qed

lemma shortest_whole:
  assumes "mag m e = real n" "e \<le> 0" "0 < m"
  shows "\<exists>q j. shortest m e (1074 + k) = (q, int j) \<and> q * 10 ^ j = n"
proof (induction k)
  case 0
  have "1074 + 0 = Suc 1073" "int (Suc 1073) - 1074 = 0" by simp_all
  then show ?case using digits_at_whole [OF assms(1,2)] by (intro exI [of _ n] exI [of _ 0]) (simp only: shortest.simps, simp)
next
  case (Suc k)
  have s: "1074 + Suc k = Suc (1074 + k)" "int (Suc (1074 + k)) - 1074 = int (Suc k)" by simp_all
  show ?case
  proof (cases "digits_at m e (int (Suc k))")
    case None
    then show ?thesis using Suc unfolding s(1) shortest.simps s(2) by simp
  next
    case (Some q)
    then show ?thesis
      unfolding s(1) shortest.simps s(2) using digits_at_near [OF Some assms] by (intro exI [of _ q] exI [of _ "Suc k"]) simp
  qed
qed

lemma show_whole:
  assumes "is_whole x i"
  shows "show_f64 x = (if i < 0 then ''-'' else []) @ nat_str (nat \<bar>i\<bar>)"
proof -
  obtain m e where x: "x = Finite (i < 0) m e" "mag m e = real_of_int \<bar>i\<bar>" "i \<noteq> 0 \<longrightarrow> e \<le> 0"
    using assms by (auto simp: is_whole_def)
  show ?thesis
  proof (cases "m = 0")
    case True
    then have "i = 0" using x(2) by (simp add: mag_def)
    moreover have "nat_str 0 = ''0''" by code_simp
    ultimately show ?thesis using True by (simp add: x(1))
  next
    case False
    then have "i \<noteq> 0" using x(2) mag_zero_iff [of m e] by auto
    obtain q j where qj: "shortest m e (1074 + 309) = (q, int j)" "q * 10 ^ j = nat \<bar>i\<bar>"
      using shortest_whole [of m e "nat \<bar>i\<bar>" 309] x(2,3) False \<open>i \<noteq> 0\<close> by auto
    have "1074 + 309 = (1383 :: nat)" by simp
    note s = qj(1) [unfolded this]
    have "0 < q" using qj(2) \<open>i \<noteq> 0\<close> by (cases q) auto
    then show ?thesis
      unfolding x(1) show_f64.simps s using False nat_str_shift [of q j] qj(2) by (simp add: show_decimal_def)
  qed
qed

end
