(* ===== verification/BTree_Map.thy ===== *)
theory BTree_Map
  imports Prelude "HOL-Library.List_Lexorder" "HOL-Library.Char_ord"
begin

text \<open>
  Rust's \<^verbatim>\<open>BTreeMap\<close> as the list of its entries in ascending order of keys, which is the order its iterators
  have. The interface the interpreter, the command table and the executor rely on is the locale
  \<open>ordered_map\<close>.
\<close>

section \<open>The operations\<close>

type_synonym ('k, 'v) btree = "('k \<times> 'v) list"

fun bt_get :: "'k::linorder \<Rightarrow> ('k, 'v) btree \<Rightarrow> 'v option" where
  "bt_get k [] = None"
| "bt_get k ((j, w) # m) = (if k < j then None else if k = j then Some w else bt_get k m)"

fun bt_insert :: "'k::linorder \<Rightarrow> 'v \<Rightarrow> ('k, 'v) btree \<Rightarrow> ('k, 'v) btree" where
  "bt_insert k v [] = [(k, v)]"
| "bt_insert k v ((j, w) # m) =
    (if k < j then (k, v) # (j, w) # m else if k = j then (k, v) # m else (j, w) # bt_insert k v m)"

fun bt_remove :: "'k::linorder \<Rightarrow> ('k, 'v) btree \<Rightarrow> ('k, 'v) btree" where
  "bt_remove k [] = []"
| "bt_remove k ((j, w) # m) = (if k < j then (j, w) # m else if k = j then m else (j, w) # bt_remove k m)"

definition bt_keys :: "('k, 'v) btree \<Rightarrow> 'k list" where
  "bt_keys m = map fst m"

definition bt_ok :: "('k::linorder, 'v) btree \<Rightarrow> bool" where
  "bt_ok m \<longleftrightarrow> sorted_wrt (<) (map fst m)"

section \<open>The interface\<close>

locale ordered_map =
  fixes empty :: 'm
    and get :: "'k::linorder \<Rightarrow> 'm \<Rightarrow> 'v option"
    and ins :: "'k \<Rightarrow> 'v \<Rightarrow> 'm \<Rightarrow> 'm"
    and del :: "'k \<Rightarrow> 'm \<Rightarrow> 'm"
    and keys :: "'m \<Rightarrow> 'k list"
    and ok :: "'m \<Rightarrow> bool"
  assumes ok_empty: "ok empty"
    and ok_ins: "ok m \<Longrightarrow> ok (ins k v m)"
    and ok_del: "ok m \<Longrightarrow> ok (del k m)"
    and get_empty: "get j empty = None"
    and get_ins: "ok m \<Longrightarrow> get j (ins k v m) = (if j = k then Some v else get j m)"
    and get_del: "ok m \<Longrightarrow> get j (del k m) = (if j = k then None else get j m)"
    and set_keys: "ok m \<Longrightarrow> set (keys m) = {k. get k m \<noteq> None}"
    and keys_ascending: "ok m \<Longrightarrow> sorted_wrt (<) (keys m)"
begin

definition ins_all :: "('k \<times> 'v) list \<Rightarrow> 'm \<Rightarrow> 'm" where
  "ins_all kvs m = fold (\<lambda>(k, v). ins k v) kvs m"

lemma ok_ins_all: "ok m \<Longrightarrow> ok (ins_all kvs m)"
  unfolding ins_all_def by (induction kvs arbitrary: m) (auto simp: ok_ins)

lemma get_ins_all: "ok m \<Longrightarrow> get j (ins_all kvs m) = (case map_of (rev kvs) j of Some v \<Rightarrow> Some v | None \<Rightarrow> get j m)"
  unfolding ins_all_def
proof (induction kvs arbitrary: m)
  case (Cons p kvs)
  then show ?case
    by (cases p) (auto simp: ok_ins get_ins map_add_def split: option.splits)
qed simp

text \<open>The keys of a map depend on its contents only.\<close>

lemma keys_of_get:
  assumes "ok m" "ok m'" "\<And>k. get k m = None \<longleftrightarrow> get k m' = None"
  shows "keys m = keys m'"
proof (rule sorted_distinct_set_unique)
  show "sorted (keys m)" "sorted (keys m')"
    using assms(1,2) keys_ascending strict_sorted_imp_sorted by (auto simp: strict_sorted_iff)
  show "distinct (keys m)" "distinct (keys m')"
    using assms(1,2) keys_ascending by (auto simp: strict_sorted_iff)
  show "set (keys m) = set (keys m')" using assms by (simp add: set_keys)
qed

end

section \<open>The list of entries implements it\<close>

lemma set_bt_insert: "set (map fst (bt_insert k v m)) = insert k (set (map fst m))"
  by (induction k v m rule: bt_insert.induct) auto

lemma set_bt_remove: "set (bt_remove k m) \<subseteq> set m"
  by (induction k m rule: bt_remove.induct) auto

lemma bt_ok_insert [simp]: "bt_ok m \<Longrightarrow> bt_ok (bt_insert k v m)"
proof (induction k v m rule: bt_insert.induct)
  case (2 k v j w m)
  then show ?case using set_bt_insert [of k v m] by (auto simp: bt_ok_def)
qed (simp add: bt_ok_def)

lemma bt_ok_remove [simp]: "bt_ok m \<Longrightarrow> bt_ok (bt_remove k m)"
proof (induction k m rule: bt_remove.induct)
  case (2 k j w m)
  then show ?case using set_bt_remove [of k m] by (auto simp: bt_ok_def)
qed simp

lemma bt_get_insert [simp]: "bt_ok m \<Longrightarrow> bt_get j (bt_insert k v m) = (if j = k then Some v else bt_get j m)"
  by (induction k v m rule: bt_insert.induct) (auto simp: bt_ok_def)

lemma bt_get_absent: "bt_ok ((i, w) # m) \<Longrightarrow> j \<le> i \<Longrightarrow> bt_get j m = None"
  by (cases m) (auto simp: bt_ok_def)

lemma bt_get_remove [simp]: "bt_ok m \<Longrightarrow> bt_get j (bt_remove k m) = (if j = k then None else bt_get j m)"
proof (induction k m rule: bt_remove.induct)
  case (2 k i w m)
  have "bt_ok m" using 2(2) by (simp add: bt_ok_def)
  then show ?case using 2 bt_get_absent [OF 2(2), of j] by auto
qed simp

lemma bt_get_map_of: "bt_ok m \<Longrightarrow> bt_get k m = map_of m k"
proof (induction k m rule: bt_get.induct)
  case (2 k j w m)
  have "k < j \<Longrightarrow> map_of m k = None" using 2(2) by (auto simp: bt_ok_def map_of_eq_None_iff)
  then show ?case using 2 by (auto simp: bt_ok_def)
qed simp

lemma bt_set_keys: "bt_ok m \<Longrightarrow> set (bt_keys m) = {k. bt_get k m \<noteq> None}"
  by (auto simp: bt_get_map_of bt_keys_def map_of_eq_None_iff)

interpretation bt: ordered_map "[]" bt_get bt_insert bt_remove bt_keys bt_ok
  by unfold_locales (auto simp: bt_set_keys, auto simp: bt_ok_def bt_keys_def)

lemma bt_ok_Nil [simp]: "bt_ok []"
  by (rule bt.ok_empty)

lemma bt_get_in: "bt_get k m = Some v \<Longrightarrow> (k, v) \<in> set m"
  by (induction k m rule: bt_get.induct) (auto split: if_splits)

lemma set_bt_insert_values: "set (bt_insert k v m) \<subseteq> insert (k, v) (set m)"
  by (induction k v m rule: bt_insert.induct) auto

end
