(* ===== verification/Exec.thy ===== *)
theory Exec
  imports Prelude
begin

text \<open>
  Programs of the shell: what they report (\<^verbatim>\<open>programReturn.rs\<close>) and how they run on a world, the state of
  the kernel. A run may end, panic, power the machine off, or not end within the rounds it is granted;
  \<open>agrees\<close> compares two runs and carries an invariant through them.
\<close>

section \<open>What a program reports\<close>

record process_error =
  error_code :: string

definition error_str :: "process_error \<Rightarrow> string" where
  "error_str e = error_code e"

record success =
  success_code :: string
  print_code :: bool

definition is_print :: "success \<Rightarrow> bool" where
  "is_print s = print_code s"

definition success_str :: "success \<Rightarrow> string" where
  "success_str s = success_code s"

type_synonym command_result = "process_error + success"

definition failed :: "string \<Rightarrow> command_result" where
  "failed msg = Inl \<lparr>error_code = msg\<rparr>"

definition succeeded :: "string \<Rightarrow> bool \<Rightarrow> command_result" where
  "succeeded msg p = Inr \<lparr>success_code = msg, print_code = p\<rparr>"

section \<open>Runs\<close>

datatype ('a, 'w) run = Done 'a 'w | Crash panic | Powered_Off 'w | Unfinished

type_synonym ('a, 'w) prog = "'w \<Rightarrow> ('a, 'w) run"

definition ret :: "'a \<Rightarrow> ('a, 'w) prog" where
  "ret x = Done x"

definition pbind :: "('a, 'w) prog \<Rightarrow> ('a \<Rightarrow> ('b, 'w) prog) \<Rightarrow> ('b, 'w) prog" where
  "pbind m f = (\<lambda>w. case m w of Done x w' \<Rightarrow> f x w' | Crash p \<Rightarrow> Crash p | Powered_Off w' \<Rightarrow> Powered_Off w'
                   | Unfinished \<Rightarrow> Unfinished)"

definition lift_outcome :: "'a outcome \<Rightarrow> ('a, 'w) prog" where
  "lift_outcome r = (\<lambda>w. case r of Ret x \<Rightarrow> Done x w | Panic p \<Rightarrow> Crash p | Hang \<Rightarrow> Unfinished)"

definition unfinished :: "('a, 'w) prog" where
  "unfinished = (\<lambda>_. Unfinished)"

section \<open>Laws\<close>

lemma pbind_simps [simp]:
  "pbind (ret x) f = f x"
  "pbind unfinished f = unfinished"
  "pbind m ret = m"
  "pbind (pbind m f) g = pbind m (\<lambda>x. pbind (f x) g)"
  by (auto simp: pbind_def ret_def unfinished_def split: run.splits)

lemma pbind_Done [simp]: "m w = Done x w' \<Longrightarrow> pbind m f w = f x w'"
  by (simp add: pbind_def)

lemma ret_run [simp]: "ret x w = Done x w"
  by (simp add: ret_def)

lemma lift_outcome_simps [simp]:
  "lift_outcome (Ret x) = ret x"
  "lift_outcome (Panic p) w = Crash p"
  "lift_outcome Hang = unfinished"
  by (auto simp: lift_outcome_def ret_def unfinished_def)

lemma pbind_assoc: "pbind (pbind m f) g = pbind m (\<lambda>x. pbind (f x) g)"
  by (rule ext) (simp add: pbind_def split: run.split)

lemma pbind_ret: "pbind (ret x) f = f x"
  by (rule ext) (simp add: pbind_def ret_def)

lemma pbind_DoneE:
  assumes "pbind m f w = Done y v"
  obtains x u where "m w = Done x u" "f x u = Done y v"
  using assms by (auto simp: pbind_def split: run.splits)

section \<open>Agreement of runs\<close>

text \<open>
  \<open>agrees I m m'\<close>: started where \<open>I\<close> holds, \<open>m\<close> ends where \<open>I\<close> holds, and \<open>m'\<close> does the same as \<open>m\<close> unless \<open>m\<close> is cut
  short. With \<open>m'\<close> the same program granted more rounds this says that more rounds change nothing; with
  \<open>m' = m\<close> it says that \<open>m\<close> keeps the invariant \<open>I\<close>.
\<close>

definition agrees :: "('w \<Rightarrow> bool) \<Rightarrow> ('a, 'w) prog \<Rightarrow> ('a, 'w) prog \<Rightarrow> bool" where
  "agrees I m m' \<longleftrightarrow> (\<forall>w. I w \<longrightarrow> (m w = Unfinished \<or> m w = m' w)
     \<and> (\<forall>x v. m w = Done x v \<longrightarrow> I v) \<and> (\<forall>v. m w = Powered_Off v \<longrightarrow> I v))"

abbreviation keeps_inv :: "('w \<Rightarrow> bool) \<Rightarrow> ('a, 'w) prog \<Rightarrow> bool" where
  "keeps_inv I m \<equiv> agrees I m m"

named_theorems agree_laws

lemma agrees_ends [agree_laws]: "agrees I (ret x) (ret x)" "agrees I unfinished m" "agrees I (\<lambda>_. Crash p) (\<lambda>_. Crash p)"
  by (auto simp: agrees_def unfinished_def)

lemma agreesD:
  assumes "agrees I m m'" "I w"
  shows "m w = Unfinished \<or> m w = m' w" "m w = Done x v \<Longrightarrow> I v" "m w = Powered_Off v \<Longrightarrow> I v"
  using assms unfolding agrees_def by blast+

lemma agrees_pbind [agree_laws]:
  assumes m: "agrees I m m'" and f: "\<And>x. agrees I (f x) (f' x)"
  shows "agrees I (pbind m f) (pbind m' f')"
  unfolding agrees_def
proof (intro allI impI)
  fix w assume I: "I w"
  note m = agreesD [OF m I]
  show "(pbind m f w = Unfinished \<or> pbind m f w = pbind m' f' w) \<and> (\<forall>x v. pbind m f w = Done x v \<longrightarrow> I v)
      \<and> (\<forall>v. pbind m f w = Powered_Off v \<longrightarrow> I v)"
  proof (cases "m w")
    case (Done x u)
    then have "m' w = Done x u" "I u" using m(1) m(2) [OF Done] by simp_all
    then show ?thesis using Done agreesD [OF f [of x] \<open>I u\<close>] by simp
  next
    case (Powered_Off u)
    then have "m' w = Powered_Off u" "I u" using m(1) m(3) [OF Powered_Off] by simp_all
    then show ?thesis using Powered_Off by (simp add: pbind_def)
  next
    case (Crash p)
    then have "m' w = Crash p" using m(1) by simp
    then show ?thesis using Crash by (simp add: pbind_def)
  qed (simp add: pbind_def)
qed

lemma agrees_outcome:
  assumes "\<And>x. r = Ret x \<Longrightarrow> agrees I (f x) (f' x)"
  shows "agrees I (pbind (lift_outcome r) f) (pbind (lift_outcome r) f')"
proof (cases r)
  case (Panic p)
  then have "pbind (lift_outcome r) f = (\<lambda>_. Crash p)" "pbind (lift_outcome r) f' = (\<lambda>_. Crash p)"
    by (simp_all add: pbind_def lift_outcome_def)
  then show ?thesis by (simp add: agrees_ends)
qed (use assms in \<open>simp_all add: agrees_ends\<close>)

lemma agrees_case [agree_laws]:
  "agrees I a a' \<Longrightarrow> (\<And>x xs. agrees I (f x xs) (f' x xs)) \<Longrightarrow> agrees I (case l of [] \<Rightarrow> a | x # xs \<Rightarrow> f x xs) (case l of [] \<Rightarrow> a' | x # xs \<Rightarrow> f' x xs)"
  "(\<And>e. agrees I (g e) (g' e)) \<Longrightarrow> (\<And>x. agrees I (k x) (k' x)) \<Longrightarrow> agrees I (case r of Inl e \<Rightarrow> g e | Inr x \<Rightarrow> k x) (case r of Inl e \<Rightarrow> g' e | Inr x \<Rightarrow> k' x)"
  "agrees I b b' \<Longrightarrow> (\<And>x. agrees I (m x) (m' x)) \<Longrightarrow> agrees I (case v of None \<Rightarrow> b | Some x \<Rightarrow> m x) (case v of None \<Rightarrow> b' | Some x \<Rightarrow> m' x)"
  "(\<And>x y. agrees I (q x y) (q' x y)) \<Longrightarrow> agrees I (case p of (x, y) \<Rightarrow> q x y) (case p of (x, y) \<Rightarrow> q' x y)"
  "agrees I c c' \<Longrightarrow> agrees I d d' \<Longrightarrow> agrees I (if t then c else d) (if t then c' else d')"
  by (simp_all split: list.split sum.split option.split prod.split)

lemma agrees_finished: "agrees I m m' \<Longrightarrow> I w \<Longrightarrow> m w \<noteq> Unfinished \<Longrightarrow> m' w = m w"
  using agreesD(1) by metis

lemma agrees_Done: "agrees I m m' \<Longrightarrow> I w \<Longrightarrow> m w = Done x v \<Longrightarrow> I v"
  by (rule agreesD(2))

end
