(* ===== verification/Lisp.thy ===== *)
theory Lisp
  imports F64_Laws BTree_Map Exec
begin

text \<open>
  The Lisp of \<^verbatim>\<open>parser.rs\<close>, first part: expressions and keys, the reader (\<^verbatim>\<open>tokenize\<close>, \<^verbatim>\<open>parse\<close>), the printer, the
  built-in functions and the default environment. The evaluator is in \<open>Lisp_Eval\<close>. A built-in function, a
  Rust function pointer in the source, is here the name of one.
\<close>

section \<open>Expressions\<close>

datatype risp_err = Reason string

datatype risp_key = KString string | KNumber int | KBool bool

datatype builtin =
    Fn_Add | Fn_Sub | Fn_Eq | Fn_Ne | Fn_Gt | Fn_Ge | Fn_Lt | Fn_Le | Fn_Mul | Fn_Div | Fn_And
  | Fn_List | Fn_Len | Fn_Index | Fn_Map | Fn_Mkeys

datatype risp_exp =
    Bool bool
  | Symbol string
  | Number f64
  | String string
  | List "risp_exp list"
  | Map "(risp_key \<times> risp_exp) list"
  | Func builtin
  | Lambda (params_exp: risp_exp) (body_exp: risp_exp) (captured_env: "(string \<times> risp_exp) list")
  | Syscall "string list"

type_synonym risp_env = "(string, risp_exp) btree"
type_synonym 'a risp_result = "risp_err + 'a"

text \<open>The derived order of keys: by variant, then by contents.\<close>

fun key_less :: "risp_key \<Rightarrow> risp_key \<Rightarrow> bool" where
  "key_less (KString a) (KString b) = (a < b)"
| "key_less (KString _) _ = True"
| "key_less (KNumber _) (KString _) = False"
| "key_less (KNumber a) (KNumber b) = (a < b)"
| "key_less (KNumber _) (KBool _) = True"
| "key_less (KBool a) (KBool b) = (\<not> a \<and> b)"
| "key_less (KBool _) _ = False"

instantiation risp_key :: linorder
begin

definition less_risp_key_def: "a < b \<longleftrightarrow> key_less a b"

definition less_eq_risp_key_def: "a \<le> b \<longleftrightarrow> key_less a b \<or> a = (b :: risp_key)"

instance
proof
  fix a b c :: risp_key
  show "(a < b) = (a \<le> b \<and> \<not> b \<le> a)"
    by (cases a; cases b) (auto simp: less_risp_key_def less_eq_risp_key_def)
  show "a \<le> a" by (simp add: less_eq_risp_key_def)
  show "a \<le> b \<Longrightarrow> b \<le> c \<Longrightarrow> a \<le> c"
    by (cases a; cases b; cases c) (auto simp: less_eq_risp_key_def)
  show "a \<le> b \<Longrightarrow> b \<le> a \<Longrightarrow> a = b"
    by (cases a; cases b) (auto simp: less_eq_risp_key_def)
  show "a \<le> b \<or> b \<le> a"
    by (cases a; cases b) (auto simp: less_eq_risp_key_def)
qed

end

section \<open>Tokens\<close>

record tokenizer =
  tokens :: "string list"
  current_token :: string
  in_string :: bool
  in_comment :: bool

definition flush_token :: "tokenizer \<Rightarrow> tokenizer" where
  "flush_token t = (if current_token t \<noteq> [] then t\<lparr>tokens := tokens t @ [current_token t], current_token := []\<rparr> else t)"

definition push_char :: "rchar \<Rightarrow> tokenizer \<Rightarrow> tokenizer" where
  "push_char c t = t\<lparr>current_token := current_token t @ encode_utf8 c\<rparr>"

definition token_step :: "rchar \<Rightarrow> tokenizer \<Rightarrow> tokenizer" where
  "token_step c t =
    (if in_comment t then (if c = 0x23 then t\<lparr>in_comment := False\<rparr> else t)
     else if in_string t then
       (let t1 = push_char c t
        in if c = 0x22 then t1\<lparr>in_string := False, tokens := tokens t1 @ [current_token t1], current_token := []\<rparr> else t1)
     else if c = 0x23 then (flush_token t)\<lparr>in_comment := True\<rparr>
     else if c = 0x22 then push_char c ((flush_token t)\<lparr>in_string := True\<rparr>)
     else if c = 0x28 \<or> c = 0x29 then (let t1 = flush_token t in t1\<lparr>tokens := tokens t1 @ [encode_utf8 c]\<rparr>)
     else if is_whitespace c then flush_token t
     else push_char c t)"

definition tokenize :: "string \<Rightarrow> string list" where
  "tokenize expr =
     tokens (flush_token (fold token_step (chars expr)
       \<lparr>tokens = [], current_token = [], in_string = False, in_comment = False\<rparr>))"

section \<open>Reading\<close>

definition parse_atom :: "string \<Rightarrow> risp_exp outcome" where
  "parse_atom token =
    (if token = ''true'' then Ret (Bool True)
     else if token = ''false'' then Ret (Bool False)
     else if token \<noteq> [] \<and> hd token = CHR 0x22 \<and> last token = CHR 0x22 then
       (if 1 \<le> length token - 1 then Ret (String (butlast (tl token))) else Panic Slice_Order)
     else case parse_f64 token of Some v \<Rightarrow> Ret (Number v) | None \<Rightarrow> Ret (Symbol token))"

function (sequential) parse :: "string list \<Rightarrow> (risp_exp \<times> string list) risp_result outcome"
  and read_seq :: "string list \<Rightarrow> risp_exp list \<Rightarrow> (risp_exp \<times> string list) risp_result outcome" where
  "parse [] = Ret (Inl (Reason ''could not get token''))"
| "parse (token # rest) =
    (if token = ''('' then read_seq rest []
     else if token = '')'' then Ret (Inl (Reason ''unexpected `)`''))
     else obind (parse_atom token) (\<lambda>e. Ret (Inr (e, rest))))"
| "read_seq [] res = Ret (Inl (Reason ''could not find closing `)`''))"
| "read_seq (next_token # rest) res =
    (if next_token = '')'' then Ret (Inr (List res, rest))
     else case parse (next_token # rest) of
            Ret (Inr (e, new_xs)) \<Rightarrow> read_seq new_xs (res @ [e])
          | Ret (Inl err) \<Rightarrow> Ret (Inl err)
          | Panic p \<Rightarrow> Panic p
          | Hang \<Rightarrow> Hang)"
  by pat_completeness auto

termination
proof (relation "measure (\<lambda>x. case x of Inl xs \<Rightarrow> 2 * length xs + 1 | Inr (xs, _) \<Rightarrow> 2 * length xs + 2)")
  have shorter: "parse_read_seq_dom (Inl xs) \<Longrightarrow> parse xs = Ret (Inr (e, ys)) \<Longrightarrow> length ys < length xs"
    "parse_read_seq_dom (Inr (xs, res)) \<Longrightarrow> read_seq xs res = Ret (Inr (e, ys)) \<Longrightarrow> length ys < length xs" for xs res e ys
  proof (induction arbitrary: e ys and e ys rule: parse_read_seq.pinduct)
    case (2 token rest)
    then show ?case by (auto simp: parse.psimps split: if_splits)
  next
    case (4 next_token rest res)
    show ?case
    proof (cases "next_token = '')''")
      case True
      then show ?thesis using 4 by (simp add: read_seq.psimps)
    next
      case False
      obtain e1 ys1 where p: "parse (next_token # rest) = Ret (Inr (e1, ys1))"
        using 4(1,4) False by (auto simp: read_seq.psimps split: outcome.splits sum.splits)
      then have "read_seq ys1 (res @ [e1]) = Ret (Inr (e, ys))" using 4(1,4) False by (simp add: read_seq.psimps)
      from 4(3) [OF False p refl refl this] 4(2) [OF False p] show ?thesis by simp
    qed
  qed (simp_all add: parse.psimps read_seq.psimps)
  fix next_token rest res x pr e new_xs
  assume "parse_read_seq_dom (Inl (next_token # rest))" "parse (next_token # rest) = Ret x" "x = Inr pr" "(e, new_xs) = pr"
  then show "(Inr (new_xs, res @ [e]), Inr (next_token # rest, res))
      \<in> measure (\<lambda>x. case x of Inl xs \<Rightarrow> 2 * length xs + 1 | Inr (xs, _) \<Rightarrow> 2 * length xs + 2)"
    using shorter(1) [of "next_token # rest" e new_xs] by auto
qed auto

section \<open>Keys and printing\<close>

definition show_int :: "int \<Rightarrow> string" where
  "show_int i = (if i < 0 then ''-'' else []) @ nat_str (nat \<bar>i\<bar>)"

definition show_bool :: "bool \<Rightarrow> string" where
  "show_bool b = (if b then ''true'' else ''false'')"

fun show_key :: "risp_key \<Rightarrow> string" where
  "show_key (KString s) = [CHR 0x22] @ s @ [CHR 0x22]"
| "show_key (KNumber n) = show_int n"
| "show_key (KBool b) = show_bool b"

fun exp_to_key :: "risp_exp \<Rightarrow> risp_key risp_result" where
  "exp_to_key (String s) = Inr (KString s)"
| "exp_to_key (Number n) = Inr (KNumber (f64_to_i64 n))"
| "exp_to_key (Bool b) = Inr (KBool b)"
| "exp_to_key _ = Inl (Reason ''only strings, numbers, and bools can be map keys'')"

fun key_to_exp :: "risp_key \<Rightarrow> risp_exp" where
  "key_to_exp (KString s) = String s"
| "key_to_exp (KNumber n) = Number (f64_of_int n)"
| "key_to_exp (KBool b) = Bool b"

fun show_exp :: "risp_exp \<Rightarrow> string" where
  "show_exp (Bool a) = show_bool a"
| "show_exp (Symbol s) = s"
| "show_exp (Number n) = show_f64 n"
| "show_exp (String s) = s"
| "show_exp (List l) = ''('' @ join '' '' (map show_exp l) @ '')''"
| "show_exp (Map m) = ''{'' @ join '', '' (map (\<lambda>(k, v). show_key k @ '': '' @ show_exp v) m) @ ''}''"
| "show_exp (Func _) = ''<Function>''"
| "show_exp (Lambda _ _ _) = ''<Lambda>''"
| "show_exp (Syscall cmd) = ''<Syscall: ['' @ join '', '' cmd @ '']>''"

section \<open>Built-in functions\<close>

definition risp_error :: "string \<Rightarrow> 'a risp_result" where
  "risp_error msg = Inl (Reason msg)"

definition rbind :: "'a risp_result \<Rightarrow> ('a \<Rightarrow> 'b risp_result) \<Rightarrow> 'b risp_result" where
  "rbind r f = (case r of Inl e \<Rightarrow> Inl e | Inr x \<Rightarrow> f x)"

definition parse_single_float :: "risp_exp \<Rightarrow> f64 risp_result" where
  "parse_single_float e = (case e of Number num \<Rightarrow> Inr num | _ \<Rightarrow> risp_error ''expected a number'')"

fun collect :: "('a \<Rightarrow> 'b risp_result) \<Rightarrow> 'a list \<Rightarrow> 'b list risp_result" where
  "collect f [] = Inr []"
| "collect f (x # xs) = rbind (f x) (\<lambda>y. rbind (collect f xs) (\<lambda>ys. Inr (y # ys)))"

definition parse_list_of_floats :: "risp_exp list \<Rightarrow> f64 list risp_result" where
  "parse_list_of_floats args = collect parse_single_float args"

definition first_float :: "risp_exp list \<Rightarrow> (f64 \<times> f64 list) risp_result" where
  "first_float args = rbind (parse_list_of_floats args) (\<lambda>floats.
     case floats of [] \<Rightarrow> risp_error ''expected at least one number'' | first # rest \<Rightarrow> Inr (first, rest))"

definition f64_one :: f64 where
  "f64_one = f64_of_int 1"

definition fn_add :: "risp_exp list \<Rightarrow> risp_exp risp_result" where
  "fn_add args = rbind (parse_list_of_floats args) (\<lambda>floats.
     Inr (Number (foldl f64_add (f64_zero False) floats)))"

definition fn_sub :: "risp_exp list \<Rightarrow> risp_exp risp_result" where
  "fn_sub args = rbind (first_float args) (\<lambda>(first, rest).
     Inr (Number (f64_sub first (foldl f64_add (f64_zero False) rest))))"

fun tonic :: "(f64 \<Rightarrow> f64 \<Rightarrow> bool) \<Rightarrow> f64 \<Rightarrow> f64 list \<Rightarrow> bool" where
  "tonic check prev [] = True"
| "tonic check prev (x # xs) = (check prev x \<and> tonic check x xs)"

definition ensure_tonicity :: "(f64 \<Rightarrow> f64 \<Rightarrow> bool) \<Rightarrow> risp_exp list \<Rightarrow> risp_exp risp_result" where
  "ensure_tonicity check args = rbind (first_float args) (\<lambda>(first, rest). Inr (Bool (tonic check first rest)))"

definition fn_mul :: "risp_exp list \<Rightarrow> risp_exp risp_result" where
  "fn_mul args = rbind (parse_list_of_floats args) (\<lambda>floats. Inr (Number (foldl f64_mul f64_one floats)))"

definition fn_div :: "risp_exp list \<Rightarrow> risp_exp risp_result" where
  "fn_div args = rbind (first_float args) (\<lambda>(first, rest). Inr (Number (foldl f64_div first rest)))"

definition fn_and :: "risp_exp list \<Rightarrow> risp_exp risp_result" where
  "fn_and args = rbind (first_float args) (\<lambda>(first, rest).
     Inr (Number (f64_of_int (foldl (\<lambda>acc a. acc AND f64_to_i64 a) (f64_to_i64 first) rest))))"

definition fn_list :: "risp_exp list \<Rightarrow> risp_exp risp_result" where
  "fn_list args = Inr (List args)"

definition fn_len :: "risp_exp list \<Rightarrow> risp_exp risp_result" where
  "fn_len args = (case args of
      [] \<Rightarrow> risp_error ''len requires 1 argument''
    | arg # _ \<Rightarrow> (case arg of
          List l \<Rightarrow> Inr (Number (f64_of_int (int (length l))))
        | String s \<Rightarrow> Inr (Number (f64_of_int (int (length s))))
        | _ \<Rightarrow> risp_error ''len only works on lists and strings''))"

definition fn_index :: "risp_exp list \<Rightarrow> risp_exp risp_result" where
  "fn_index args = (case args of
      [collection, index_exp] \<Rightarrow> (case collection of
          List l \<Rightarrow> rbind (parse_single_float index_exp) (\<lambda>idx_f.
            let i = f64_to_i64 idx_f; idx = (if i < 0 then int (length l) + i else i)
            in if 0 \<le> idx \<and> idx < int (length l) then Inr (l ! nat idx) else risp_error ''index out of bounds'')
        | Map m \<Rightarrow> rbind (exp_to_key index_exp) (\<lambda>key.
            case bt_get key m of Some val \<Rightarrow> Inr val | None \<Rightarrow> Inr (String []))
        | _ \<Rightarrow> risp_error ''!! only works on lists, strings, and maps'')
    | _ \<Rightarrow> risp_error ''!! requires exactly 2 arguments'')"

fun map_pairs :: "risp_exp list \<Rightarrow> (risp_key, risp_exp) btree \<Rightarrow> risp_exp risp_result" where
  "map_pairs (k # v # args) m = rbind (exp_to_key k) (\<lambda>key. map_pairs args (bt_insert key v m))"
| "map_pairs _ m = Inr (Map m)"

definition fn_map :: "risp_exp list \<Rightarrow> risp_exp risp_result" where
  "fn_map args =
    (if length args mod 2 \<noteq> 0 then risp_error ''map requires an even number of arguments'' else map_pairs args [])"

definition fn_mkeys :: "risp_exp list \<Rightarrow> risp_exp risp_result" where
  "fn_mkeys args = (case args of
      [] \<Rightarrow> risp_error ''mkeys requires 1 argument''
    | arg # _ \<Rightarrow> (case arg of
          Map m \<Rightarrow> Inr (List (map key_to_exp (bt_keys m)))
        | _ \<Rightarrow> risp_error ''mkeys only works on maps''))"

fun call_func :: "builtin \<Rightarrow> risp_exp list \<Rightarrow> risp_exp risp_result" where
  "call_func Fn_Add = fn_add"
| "call_func Fn_Sub = fn_sub"
| "call_func Fn_Eq = ensure_tonicity f64_eq"
| "call_func Fn_Ne = ensure_tonicity (\<lambda>a b. \<not> f64_eq a b)"
| "call_func Fn_Gt = ensure_tonicity (\<lambda>a b. f64_less b a)"
| "call_func Fn_Ge = ensure_tonicity (\<lambda>a b. f64_le b a)"
| "call_func Fn_Lt = ensure_tonicity f64_less"
| "call_func Fn_Le = ensure_tonicity f64_le"
| "call_func Fn_Mul = fn_mul"
| "call_func Fn_Div = fn_div"
| "call_func Fn_And = fn_and"
| "call_func Fn_List = fn_list"
| "call_func Fn_Len = fn_len"
| "call_func Fn_Index = fn_index"
| "call_func Fn_Map = fn_map"
| "call_func Fn_Mkeys = fn_mkeys"

definition default_env :: risp_env where
  "default_env = fold (\<lambda>(k, v). bt_insert k v)
    [(''+'', Func Fn_Add), (''-'', Func Fn_Sub), (''='', Func Fn_Eq), (''!='', Func Fn_Ne), (''>'', Func Fn_Gt),
     (''>='', Func Fn_Ge), (''<'', Func Fn_Lt), (''<='', Func Fn_Le), (''*'', Func Fn_Mul), (''/'', Func Fn_Div),
     (''&'', Func Fn_And), (''list'', Func Fn_List), (''[]'', List []), (''len'', Func Fn_Len),
     (''!!'', Func Fn_Index), (''map'', Func Fn_Map), (''mkeys'', Func Fn_Mkeys)] []"

end
