(* ===== verification/Lisp_Eval.thy ===== *)
theory Lisp_Eval
  imports Lisp
begin

text \<open>
  The evaluator and the entry point of \<^verbatim>\<open>parser.rs\<close>. The commands a program can call are an argument, the
  record \<open>host\<close>, since the commands in turn call the interpreter; \<open>Commands\<close> provides them. Each special form
  is a definition over the evaluator of its subforms; \<open>eval\<close> ties the knot with a bound on the depth of
  evaluation and on the rounds of each loop, and a bound that is enough gives the same result as any
  larger one.
\<close>

section \<open>The host\<close>

datatype call_result = Lookup_Failed string | Call_Failed string | Call_Done success

record 'w host =
  host_run :: "string list \<Rightarrow> (call_result, 'w) prog"
  host_println :: "string \<Rightarrow> (unit, 'w) prog"

type_synonym 'w eval_prog = "(risp_exp risp_result \<times> risp_env, 'w) prog"
type_synonym 'w evaluator = "risp_exp \<Rightarrow> risp_env \<Rightarrow> 'w eval_prog"

definition ok :: "risp_exp \<Rightarrow> risp_env \<Rightarrow> 'w eval_prog" where
  "ok v env = ret (Inr v, env)"

definition err :: "string \<Rightarrow> risp_env \<Rightarrow> 'w eval_prog" where
  "err msg env = ret (Inl (Reason msg), env)"

definition of_result :: "risp_exp risp_result \<Rightarrow> risp_env \<Rightarrow> 'w eval_prog" where
  "of_result r env = ret (r, env)"

text \<open>The \<^verbatim>\<open>?\<close> operator after an evaluation: an error ends the function, the environment keeps its changes.\<close>

definition ebind :: "'w eval_prog \<Rightarrow> (risp_exp \<Rightarrow> risp_env \<Rightarrow> 'w eval_prog) \<Rightarrow> 'w eval_prog" where
  "ebind m f = pbind m (\<lambda>(r, env). case r of Inl e \<Rightarrow> ret (Inl e, env) | Inr v \<Rightarrow> f v env)"

definition env_get :: "string \<Rightarrow> risp_env \<Rightarrow> risp_exp option" where
  "env_get k env = bt_get k env"

definition quoted :: "string \<Rightarrow> string" where
  "quoted s = [CHR 0x27] @ s @ [CHR 0x27]"

section \<open>Functions\<close>

definition parse_list_of_symbol_strings :: "risp_exp \<Rightarrow> string list risp_result" where
  "parse_list_of_symbol_strings form = (case form of
      List l \<Rightarrow> collect (\<lambda>x. case x of Symbol s \<Rightarrow> Inr s | _ \<Rightarrow> risp_error ''expected symbols in the argument list'') l
    | _ \<Rightarrow> risp_error ''expected args form to be a list'')"

definition env_for_lambda :: "risp_exp \<Rightarrow> risp_exp list \<Rightarrow> risp_env \<Rightarrow> risp_env risp_result" where
  "env_for_lambda params evaluated_args outer_env =
    rbind (parse_list_of_symbol_strings params) (\<lambda>ks.
      if length ks \<noteq> length evaluated_args
      then risp_error (''expected '' @ nat_str (length ks) @ '' arguments, got '' @ nat_str (length evaluated_args))
      else Inr (fold (\<lambda>(k, v). bt_insert k v) (zip ks evaluated_args) outer_env))"

definition eval_lambda_args :: "risp_exp list \<Rightarrow> risp_env \<Rightarrow> risp_exp risp_result" where
  "eval_lambda_args arg_forms captured = (case arg_forms of
      [] \<Rightarrow> risp_error ''expected args form''
    | [_] \<Rightarrow> risp_error ''expected second form''
    | [params, body] \<Rightarrow> Inr (Lambda params body captured)
    | _ \<Rightarrow> risp_error ''fn definition can only have two forms '')"

definition merge_env :: "risp_env \<Rightarrow> risp_env \<Rightarrow> risp_env" where
  "merge_env captured env = fold (\<lambda>(k, v). bt_insert k v) captured env"

fun eval_args :: "'w evaluator \<Rightarrow> risp_exp list \<Rightarrow> risp_exp list \<Rightarrow> risp_env
    \<Rightarrow> (risp_exp list risp_result \<times> risp_env, 'w) prog" where
  "eval_args ev [] acc env = ret (Inr acc, env)"
| "eval_args ev (arg # args) acc env = pbind (ev arg env) (\<lambda>(r, env1).
     case r of Inl e \<Rightarrow> ret (Inl e, env1) | Inr v \<Rightarrow> eval_args ev args (acc @ [v]) env1)"

definition abind :: "(risp_exp list risp_result \<times> risp_env, 'w) prog
    \<Rightarrow> (risp_exp list \<Rightarrow> risp_env \<Rightarrow> 'w eval_prog) \<Rightarrow> 'w eval_prog" where
  "abind m f = pbind m (\<lambda>(r, env). case r of Inl e \<Rightarrow> ret (Inl e, env) | Inr vs \<Rightarrow> f vs env)"

section \<open>Special forms\<close>

definition eval_if :: "'w evaluator \<Rightarrow> risp_exp list \<Rightarrow> risp_env \<Rightarrow> 'w eval_prog" where
  "eval_if ev args env = (case args of
      [] \<Rightarrow> err ''expected test form'' env
    | test_form # forms \<Rightarrow> ebind (ev test_form env) (\<lambda>test_eval env1. case test_eval of
          Bool b \<Rightarrow>
            (let form_idx = (if b then 1 else 2)
             in if form_idx < length args then ev (args ! form_idx) env1
                else err (''expected form idx='' @ nat_str form_idx) env1)
        | _ \<Rightarrow> err (''unexpected test form='' @ quoted (show_exp test_form)) env1))"

definition eval_def :: "'w evaluator \<Rightarrow> risp_exp list \<Rightarrow> risp_env \<Rightarrow> 'w eval_prog" where
  "eval_def ev args env = (case args of
      [] \<Rightarrow> err ''expected first form'' env
    | Symbol first_str # forms \<Rightarrow> (case forms of
          [] \<Rightarrow> err ''expected second form'' env
        | [second_form] \<Rightarrow> ebind (ev second_form env) (\<lambda>second_eval env1.
            ok (Symbol first_str) (bt_insert first_str second_eval env1))
        | _ \<Rightarrow> err ''def can only have two forms '' env)
    | _ \<Rightarrow> err ''expected first form to be a symbol'' env)"

fun sys_arg :: "risp_exp \<Rightarrow> string risp_result" where
  "sys_arg (Symbol s) = Inr s"
| "sys_arg (Number n) = Inr (show_f64 n)"
| "sys_arg (Bool b) = Inr (show_bool b)"
| "sys_arg (String s) = Inr s"
| "sys_arg (List l) = Inr (show_exp (List l))"
| "sys_arg (Map m) = Inr (show_exp (Map m))"
| "sys_arg _ = risp_error ''sys args must evaluate to symbols, numbers, bools, strings, lists, or maps''"

definition eval_sys :: "'w host \<Rightarrow> 'w evaluator \<Rightarrow> risp_exp list \<Rightarrow> risp_env \<Rightarrow> 'w eval_prog" where
  "eval_sys h ev args env =
    (if args = [] then err ''sys expects at least one argument'' env
     else abind (eval_args ev args [] env) (\<lambda>vs env1. case collect sys_arg vs of
            Inl e \<Rightarrow> ret (Inl e, env1)
          | Inr cmd_vec \<Rightarrow> pbind (host_run h cmd_vec) (\<lambda>res. case res of
                Call_Done s \<Rightarrow> pbind (if print_code s then host_println h (success_code s) else ret ())
                  (\<lambda>_. ok (Syscall cmd_vec) env1)
              | Call_Failed msg \<Rightarrow> err (''Syscall failed: '' @ msg) env1
              | Lookup_Failed msg \<Rightarrow> err (''Command lookup failed: '' @ msg) env1)))"

definition eval_quote :: "risp_exp list \<Rightarrow> risp_env \<Rightarrow> 'w eval_prog" where
  "eval_quote args env = (case args of [] \<Rightarrow> err ''expected form to quote'' env | form # _ \<Rightarrow> ok form env)"

fun eval_and :: "'w evaluator \<Rightarrow> risp_exp list \<Rightarrow> risp_env \<Rightarrow> 'w eval_prog" where
  "eval_and ev [] env = ok (Bool True) env"
| "eval_and ev (arg # args) env = ebind (ev arg env) (\<lambda>res env1. case res of
      Bool b \<Rightarrow> if \<not> b then ok (Bool False) env1 else eval_and ev args env1
    | _ \<Rightarrow> err ''and expects booleans'' env1)"

fun eval_or :: "'w evaluator \<Rightarrow> risp_exp list \<Rightarrow> risp_env \<Rightarrow> 'w eval_prog" where
  "eval_or ev [] env = ok (Bool False) env"
| "eval_or ev (arg # args) env = ebind (ev arg env) (\<lambda>res env1. case res of
      Bool b \<Rightarrow> if b then ok (Bool True) env1 else eval_or ev args env1
    | _ \<Rightarrow> err ''or expects booleans'' env1)"

fun for_loop :: "nat \<Rightarrow> 'w evaluator \<Rightarrow> risp_exp \<Rightarrow> risp_exp \<Rightarrow> risp_env \<Rightarrow> 'w eval_prog" where
  "for_loop 0 ev condition body env = unfinished"
| "for_loop (Suc n) ev condition body env = ebind (ev condition env) (\<lambda>cond_res env1. case cond_res of
      Bool b \<Rightarrow> if b then ebind (ev body env1) (\<lambda>_ env2. for_loop n ev condition body env2) else ok (Bool False) env1
    | _ \<Rightarrow> err ''loop condition must be boolean'' env1)"

definition eval_for :: "nat \<Rightarrow> 'w evaluator \<Rightarrow> risp_exp list \<Rightarrow> risp_env \<Rightarrow> 'w eval_prog" where
  "eval_for n ev args env = (case args of
      [] \<Rightarrow> err ''expected loop condition'' env
    | [_] \<Rightarrow> err ''expected loop body'' env
    | condition # body # _ \<Rightarrow> for_loop n ev condition body env)"

definition list_var :: "string \<Rightarrow> risp_env \<Rightarrow> risp_exp list risp_result" where
  "list_var sym_name env = (case env_get sym_name env of
      Some (List l) \<Rightarrow> Inr l
    | Some _ \<Rightarrow> risp_error (quoted sym_name @ '' is not a list'')
    | None \<Rightarrow> risp_error (''undefined variable '' @ quoted sym_name))"

definition map_var :: "string \<Rightarrow> risp_env \<Rightarrow> (risp_key, risp_exp) btree risp_result" where
  "map_var sym_name env = (case env_get sym_name env of
      Some (Map m) \<Rightarrow> Inr m
    | Some _ \<Rightarrow> risp_error (quoted sym_name @ '' is not a map'')
    | None \<Rightarrow> risp_error (''undefined variable '' @ quoted sym_name))"

definition eval_append :: "'w evaluator \<Rightarrow> risp_exp list \<Rightarrow> risp_env \<Rightarrow> 'w eval_prog" where
  "eval_append ev args env = (case args of
      [] \<Rightarrow> err ''expected symbol for append'' env
    | [_] \<Rightarrow> err ''expected value to append'' env
    | Symbol sym_name # val_form # _ \<Rightarrow> ebind (ev val_form env) (\<lambda>evaled_val env1. case list_var sym_name env1 of
          Inl e \<Rightarrow> ret (Inl e, env1)
        | Inr l \<Rightarrow> (let current_list = List (l @ [evaled_val])
                    in ok current_list (bt_insert sym_name current_list env1)))
    | _ \<Rightarrow> err ''append requires a variable name (symbol)'' env)"

definition eval_pop :: "risp_exp list \<Rightarrow> risp_env \<Rightarrow> 'w eval_prog" where
  "eval_pop args env = (case args of
      [] \<Rightarrow> err ''expected symbol for pop'' env
    | Symbol sym_name # _ \<Rightarrow> (case list_var sym_name env of
          Inl e \<Rightarrow> ret (Inl e, env)
        | Inr l \<Rightarrow> if l = [] then err ''cannot pop from an empty list'' env
                   else ok (last l) (bt_insert sym_name (List (butlast l)) env))
    | _ \<Rightarrow> err ''pop requires a variable name (symbol)'' env)"

definition eval_mset :: "'w evaluator \<Rightarrow> risp_exp list \<Rightarrow> risp_env \<Rightarrow> 'w eval_prog" where
  "eval_mset ev args env = (case args of
      [] \<Rightarrow> err ''expected symbol for mset'' env
    | [_] \<Rightarrow> err ''expected key for mset'' env
    | [_, _] \<Rightarrow> err ''expected value for mset'' env
    | Symbol sym_name # key_form # val_form # _ \<Rightarrow> ebind (ev key_form env) (\<lambda>evaled_key env1.
        case exp_to_key evaled_key of
          Inl e \<Rightarrow> ret (Inl e, env1)
        | Inr key \<Rightarrow> ebind (ev val_form env1) (\<lambda>evaled_val env2. case map_var sym_name env2 of
              Inl e \<Rightarrow> ret (Inl e, env2)
            | Inr m \<Rightarrow> ok evaled_val (bt_insert sym_name (Map (bt_insert key evaled_val m)) env2)))
    | _ \<Rightarrow> err ''mset requires a variable name (symbol)'' env)"

definition eval_mdel :: "'w evaluator \<Rightarrow> risp_exp list \<Rightarrow> risp_env \<Rightarrow> 'w eval_prog" where
  "eval_mdel ev args env = (case args of
      [] \<Rightarrow> err ''expected symbol for mdel'' env
    | [_] \<Rightarrow> err ''expected key for mdel'' env
    | Symbol sym_name # key_form # _ \<Rightarrow> ebind (ev key_form env) (\<lambda>evaled_key env1.
        case exp_to_key evaled_key of
          Inl e \<Rightarrow> ret (Inl e, env1)
        | Inr key \<Rightarrow> (case map_var sym_name env1 of
              Inl e \<Rightarrow> ret (Inl e, env1)
            | Inr m \<Rightarrow> ok (Bool True) (bt_insert sym_name (Map (bt_remove key m)) env1)))
    | _ \<Rightarrow> err ''mdel requires a variable name (symbol)'' env)"

fun eval_do :: "'w evaluator \<Rightarrow> risp_exp \<Rightarrow> risp_exp list \<Rightarrow> risp_env \<Rightarrow> 'w eval_prog" where
  "eval_do ev last_result [] env = ok last_result env"
| "eval_do ev last_result (form # forms) env = ebind (ev form env) (\<lambda>v env1. eval_do ev v forms env1)"

text \<open>The handler runs in an environment of its own, which is dropped, and its result is ignored.\<close>

definition run_handler :: "'w evaluator \<Rightarrow> risp_exp \<Rightarrow> risp_env \<Rightarrow> (unit, 'w) prog" where
  "run_handler ev evaled_msg env = (case env_get ''error'' env of
      Some (Lambda params body captured) \<Rightarrow> (case env_for_lambda params [evaled_msg] (merge_env captured env) of
          Inr new_env \<Rightarrow> pbind (ev body new_env) (\<lambda>_. ret ())
        | Inl _ \<Rightarrow> ret ())
    | _ \<Rightarrow> ret ())"

definition eval_error :: "'w evaluator \<Rightarrow> risp_exp list \<Rightarrow> risp_env \<Rightarrow> 'w eval_prog" where
  "eval_error ev args env = (case args of
      [] \<Rightarrow> err ''error requires a message'' env
    | msg_form # _ \<Rightarrow> ebind (ev msg_form env) (\<lambda>evaled_msg env1.
        pbind (run_handler ev evaled_msg env1) (\<lambda>_. err (show_exp evaled_msg) env1)))"

section \<open>Evaluation\<close>

text \<open>The body of a function runs in a copy of the caller's environment; the caller's own is kept.\<close>

definition apply_lambda :: "'w evaluator \<Rightarrow> risp_exp \<Rightarrow> risp_exp \<Rightarrow> risp_env \<Rightarrow> risp_exp list \<Rightarrow> risp_env \<Rightarrow> 'w eval_prog" where
  "apply_lambda ev params body captured vs env = (case env_for_lambda params vs (merge_env captured env) of
      Inl e \<Rightarrow> ret (Inl e, env)
    | Inr new_env \<Rightarrow> pbind (ev body new_env) (\<lambda>(r, _). ret (r, env)))"

definition eval_call :: "'w evaluator \<Rightarrow> risp_exp \<Rightarrow> risp_exp list \<Rightarrow> risp_env \<Rightarrow> 'w eval_prog" where
  "eval_call ev first_form arg_forms env = ebind (ev first_form env) (\<lambda>first_eval env1. case first_eval of
      Func f \<Rightarrow> abind (eval_args ev arg_forms [] env1) (\<lambda>vs env2. of_result (call_func f vs) env2)
    | Lambda params body captured \<Rightarrow>
        abind (eval_args ev arg_forms [] env1) (\<lambda>vs env2. apply_lambda ev params body captured vs env2)
    | _ \<Rightarrow> err ''first form must be a function'' env1)"

definition eval_list :: "'w host \<Rightarrow> nat \<Rightarrow> 'w evaluator \<Rightarrow> risp_exp \<Rightarrow> risp_exp list \<Rightarrow> risp_env \<Rightarrow> 'w eval_prog" where
  "eval_list h n ev first_form args env =
    (if first_form = Symbol ''if'' then eval_if ev args env
     else if first_form = Symbol ''def'' then eval_def ev args env
     else if first_form = Symbol ''fn'' then of_result (eval_lambda_args args env) env
     else if first_form = Symbol ''sys'' then eval_sys h ev args env
     else if first_form = Symbol ''quote'' then eval_quote args env
     else if first_form = Symbol ''and'' then eval_and ev args env
     else if first_form = Symbol ''or'' then eval_or ev args env
     else if first_form = Symbol ''for'' then eval_for n ev args env
     else if first_form = Symbol ''append'' then eval_append ev args env
     else if first_form = Symbol ''pop'' then eval_pop args env
     else if first_form = Symbol ''mset'' then eval_mset ev args env
     else if first_form = Symbol ''mdel'' then eval_mdel ev args env
     else if first_form = Symbol ''do'' then eval_do ev (List []) args env
     else if first_form = Symbol ''error'' then eval_error ev args env
     else eval_call ev first_form args env)"

definition eval_step :: "'w host \<Rightarrow> nat \<Rightarrow> 'w evaluator \<Rightarrow> 'w evaluator" where
  "eval_step h n ev e env = (case e of
      Bool _ \<Rightarrow> ok e env
    | Number _ \<Rightarrow> ok e env
    | Symbol k \<Rightarrow> (case env_get k env of Some v \<Rightarrow> ok v env | None \<Rightarrow> err (''unexpected symbol k='' @ quoted k) env)
    | List l \<Rightarrow> (case l of
          [] \<Rightarrow> err ''expected a non-empty list'' env
        | first_form # arg_forms \<Rightarrow> eval_list h n ev first_form arg_forms env)
    | String _ \<Rightarrow> ok e env
    | Map _ \<Rightarrow> ok e env
    | _ \<Rightarrow> err ''unexpected form'' env)"

primrec eval :: "nat \<Rightarrow> 'w host \<Rightarrow> 'w evaluator" where
  "eval 0 h e env = unfinished"
| "eval (Suc n) h e env = eval_step h n (eval n h) e env"

section \<open>Programs\<close>

definition parse_eval :: "nat \<Rightarrow> 'w host \<Rightarrow> string \<Rightarrow> risp_env \<Rightarrow> 'w eval_prog" where
  "parse_eval n h expr env = pbind (lift_outcome (parse (tokenize expr))) (\<lambda>r. case r of
      Inl e \<Rightarrow> ret (Inl e, env)
    | Inr (parsed_exp, _) \<Rightarrow> eval n h parsed_exp env)"

definition arg_step :: "string \<Rightarrow> risp_env \<times> nat \<times> nat \<Rightarrow> risp_env \<times> nat \<times> nat" where
  "arg_step arg_str = (\<lambda>(env, b_count, n_count).
    if arg_str = ''true'' \<or> arg_str = ''false''
    then (bt_insert (''b'' @ nat_str b_count) (Bool (arg_str = ''true'')) env, b_count + 1, n_count)
    else case parse_f64 arg_str of
           Some val \<Rightarrow> (bt_insert (''n'' @ nat_str n_count) (Number val) env, b_count, n_count + 1)
         | None \<Rightarrow> (env, b_count, n_count))"

definition program_env :: "string list \<Rightarrow> string list \<Rightarrow> risp_env" where
  "program_env commands args =
    (let env = fold (\<lambda>call. bt_insert call (Symbol call)) commands default_env;
         env1 = fold (\<lambda>i e. bt_insert (''b'' @ nat_str i) (Bool False)
                        (bt_insert (''n'' @ nat_str i) (Number (f64_zero False)) e)) [0, 1] env
     in fst (fold arg_step args (env1, 0, 0)))"

text \<open>The statements in order, whatever each of them gives; the last error is kept.\<close>

fun run_statements :: "nat \<Rightarrow> 'w host \<Rightarrow> string list \<Rightarrow> risp_env \<Rightarrow> string option \<Rightarrow> (string option, 'w) prog" where
  "run_statements n h [] env error_msg = ret error_msg"
| "run_statements n h (code # statements) env error_msg = pbind (parse_eval n h code env) (\<lambda>(r, env1).
     run_statements n h statements env1 (case r of Inr _ \<Rightarrow> error_msg | Inl (Reason msg) \<Rightarrow> Some msg))"

definition handler_source :: string where
  "handler_source = ''(def error (fn (s) (sys echo s)))''"

definition interpret_expr :: "nat \<Rightarrow> 'w host \<Rightarrow> string list \<Rightarrow> string list \<Rightarrow> (command_result, 'w) prog" where
  "interpret_expr n h commands expr =
    (if length expr < 2 then ret (failed ''expected at least two params'')
     else let env = program_env commands (drop 2 expr); statements = split_on (CHR '';'') (expr ! 1)
          in pbind (parse_eval n h handler_source env) (\<lambda>(_, env1).
             if butlast statements = [] then ret (failed ''statements must end with a semicolon'')
             else pbind (run_statements n h (butlast statements) env1 None) (\<lambda>error_msg. case error_msg of
                    None \<Rightarrow> ret (succeeded ''worked'' False)
                  | Some msg \<Rightarrow> ret (failed msg))))"

end
