(* ===== verification/Commands.thy ===== *)
theory Commands
  imports Editor_Session Pong Shell Power_Off Lisp_Eval
begin

text \<open>
  The shell and its commands (\<^verbatim>\<open>commands.rs\<close>) on the state of the kernel. A command is a program on the record
  \<open>world\<close>: the statics the kernel keeps behind locks, with the key events still to arrive, one batch at each
  yield. The keyboard decoder is the \<^verbatim>\<open>pc_keyboard\<close> crate and is an argument.
\<close>

section \<open>The state of the kernel\<close>

datatype command =
    Cmd_Pong | Cmd_Clear | Cmd_History | Cmd_Echo | Cmd_Parse | Cmd_Bind | Cmd_Read | Cmd_Write | Cmd_Show
  | Cmd_Formatd | Cmd_Mkdir | Cmd_Cat | Cmd_Run | Cmd_Edit | Cmd_Eden | Cmd_Quit
  | Cmd_Bound string

record world =
  w_term :: vga_terminal
  w_shell :: shell
  w_fs :: "bpb option"
  w_disk :: disk
  w_commands :: "(string, command) btree"
  w_keys :: "key_event list"
  w_arrivals :: "key_event list list"
  w_pending :: bool
  w_launch_pong :: bool
  w_machine :: "machine_event list"

record 'k decoder =
  dec_new :: 'k
  dec_step :: "'k \<Rightarrow> key_event \<Rightarrow> decoded_key option \<times> 'k"

type_synonym 'a kernel = "('a, world) prog"

definition get_world :: "world kernel" where
  "get_world = (\<lambda>w. Done w w)"

definition modify :: "(world \<Rightarrow> world) \<Rightarrow> unit kernel" where
  "modify f = (\<lambda>w. Done () (f w))"

definition on_screen :: "(writer \<Rightarrow> writer outcome) \<Rightarrow> unit kernel" where
  "on_screen f = pbind get_world (\<lambda>w. pbind (lift_outcome (on_writer f (w_term w))) (\<lambda>t.
     modify (\<lambda>w. w\<lparr>w_term := t\<rparr>)))"

definition w_print :: "string \<Rightarrow> unit kernel" where
  "w_print s = on_screen (write_string s)"

definition w_println :: "string \<Rightarrow> unit kernel" where
  "w_println s = on_screen (println s)"

text \<open>\<^verbatim>\<open>yield_now().await\<close>: the other tasks run, and the keyboard task queues what was typed meanwhile.\<close>

definition yield_now :: "unit kernel" where
  "yield_now = modify (\<lambda>w. case w_arrivals w of
      [] \<Rightarrow> w
    | batch # later \<Rightarrow> w\<lparr>w_keys := w_keys w @ batch, w_arrivals := later\<rparr>)"

text \<open>A program that found the queue and the batches still to come, and leaves some of them.\<close>

definition put_batches :: "key_event list list \<Rightarrow> world \<Rightarrow> world" where
  "put_batches left w = (case left of
      [] \<Rightarrow> w\<lparr>w_keys := [], w_arrivals := []\<rparr>
    | keys # later \<Rightarrow> w\<lparr>w_keys := keys, w_arrivals := later\<rparr>)"

section \<open>File names\<close>

definition resolve_name_ext :: "string list \<Rightarrow> nat \<Rightarrow> (string \<times> string \<times> nat) option" where
  "resolve_name_ext args idx =
    (if idx < length args then
       (case split_dot (args ! idx) of
          Some (name, ext) \<Rightarrow> Some (name, ext, idx + 1)
        | None \<Rightarrow> if idx + 1 < length args then Some (args ! idx, args ! (idx + 1), idx + 2) else None)
     else None)"

definition pad_upper :: "nat \<Rightarrow> string \<Rightarrow> u8 list" where
  "pad_upper n s =
    (let bytes = map to_ascii_uppercase (as_bytes s); len = min n (length bytes)
     in copy_at (replicate n 0x20) 0 (take len bytes))"

section \<open>Commands on files\<close>

definition fetch_file :: "bpb \<Rightarrow> string \<Rightarrow> string \<Rightarrow> u8 list option kernel" where
  "fetch_file b name_str ext_str = pbind get_world (\<lambda>w.
     pbind (lift_outcome (find_file b (w_disk w) (pad_upper 8 name_str) (pad_upper 3 ext_str))) (\<lambda>entry.
     case entry of None \<Rightarrow> ret None
     | Some e \<Rightarrow> pbind (lift_outcome (read_file b (w_disk w) e)) (\<lambda>data. ret (Some data))))"

definition run_file :: "(string list \<Rightarrow> command_result kernel) \<Rightarrow> string list \<Rightarrow> command_result kernel" where
  "run_file interp args = (case resolve_name_ext args 1 of
      None \<Rightarrow> ret (failed ''Usage: run <NAME.EXT | NAME EXT> [args...]'')
    | Some (name_str, ext_str, next_idx) \<Rightarrow> pbind get_world (\<lambda>w. case w_fs w of
          None \<Rightarrow> ret (failed ''File system not mounted!'')
        | Some b \<Rightarrow> pbind (fetch_file b name_str ext_str) (\<lambda>file. case file of
              None \<Rightarrow> ret (failed (''Script '' @ name_str @ ''.'' @ ext_str @ '' not found''))
            | Some file_data \<Rightarrow> (case from_utf8 file_data of
                  None \<Rightarrow> ret (failed ''Script contains invalid text formatting'')
                | Some text \<Rightarrow> interp (''exec'' # trim_nul text # drop next_idx args)))))"

definition cat_file :: "string list \<Rightarrow> command_result kernel" where
  "cat_file args = (case resolve_name_ext args 1 of
      None \<Rightarrow> ret (failed ''Usage: cat <NAME.EXT | NAME EXT>'')
    | Some (name_str, ext_str, _) \<Rightarrow> pbind get_world (\<lambda>w. case w_fs w of
          None \<Rightarrow> ret (failed ''File system not mounted!'')
        | Some b \<Rightarrow> pbind (fetch_file b name_str ext_str) (\<lambda>file. case file of
              None \<Rightarrow> ret (failed (''File '' @ name_str @ ''.'' @ ext_str @ '' not found''))
            | Some file_data \<Rightarrow> (case from_utf8 file_data of
                  None \<Rightarrow> ret (failed ''File contains invalid UTF-8 (might be a binary file)'')
                | Some text \<Rightarrow>
                    pbind (w_println (''--- '' @ name_str @ '' ---'')) (\<lambda>_.
                    pbind (w_println text) (\<lambda>_.
                    pbind (w_println ''------------'') (\<lambda>_.
                    ret (succeeded ''File read successfully'' False))))))))"

definition make_file :: "string list \<Rightarrow> command_result kernel" where
  "make_file args =
    (let usage = failed ''Usage: mkdir <NAME.EXT | NAME EXT> <data to write>'' in
     case resolve_name_ext args 1 of
       None \<Rightarrow> ret usage
     | Some (name_str, ext_str, next_idx) \<Rightarrow>
         if length args \<le> next_idx then ret usage
         else let data_bytes = as_bytes (join '' '' (drop next_idx args))
              in pbind get_world (\<lambda>w. case w_fs w of
                   None \<Rightarrow> ret (failed ''File system not mounted! Did you run fs::init()?'')
                 | Some b \<Rightarrow>
                     pbind (lift_outcome (write_new_file b (pad_upper 8 name_str) (pad_upper 3 ext_str) data_bytes (w_disk w)))
                       (\<lambda>(r, dk). pbind (modify (\<lambda>w. w\<lparr>w_disk := dk\<rparr>)) (\<lambda>_. case r of
                          Inr _ \<Rightarrow> ret (succeeded (''Created '' @ name_str @ ''.'' @ ext_str @ '' ('' @ nat_str (length data_bytes)
                                       @ '' bytes)'') True)
                        | Inl e \<Rightarrow> ret (failed (''FS Error: '' @ e))))))"

definition edit_file :: "string list \<Rightarrow> command_result kernel" where
  "edit_file args =
    (let usage = failed ''Usage: edit <NAME.EXT | NAME EXT> <data>'' in
     case resolve_name_ext args 1 of
       None \<Rightarrow> ret usage
     | Some (name_str, ext_str, next_idx) \<Rightarrow>
         if length args \<le> next_idx then ret usage
         else let data = join '' '' (drop next_idx args)
              in pbind get_world (\<lambda>w. case w_fs w of
                   None \<Rightarrow> ret (failed ''File system not mounted!'')
                 | Some b \<Rightarrow>
                     pbind (lift_outcome (overwrite_file b (pad_upper 8 name_str) (pad_upper 3 ext_str) (as_bytes data) (w_disk w)))
                       (\<lambda>(r, dk). pbind (modify (\<lambda>w. w\<lparr>w_disk := dk\<rparr>)) (\<lambda>_. case r of
                          Inr _ \<Rightarrow> ret (succeeded ''Worked'' False)
                        | Inl e \<Rightarrow> ret (failed e)))))"

definition format_disk :: "string list \<Rightarrow> command_result kernel" where
  "format_disk args = pbind get_world (\<lambda>w. case format_drive (w_disk w) of (r, msg, dk) \<Rightarrow>
     pbind (modify (\<lambda>w. w\<lparr>w_disk := dk\<rparr>)) (\<lambda>_. pbind (w_println msg) (\<lambda>_. case r of
       Inr _ \<Rightarrow> ret (succeeded ''format worked!'' True)
     | Inl _ \<Rightarrow> ret (failed ''failed to format!''))))"

section \<open>Commands on sectors\<close>

definition cmd_show :: "string list \<Rightarrow> command_result kernel" where
  "cmd_show args =
    (if length args \<noteq> 2 then ret (failed ''Needs 2 parameters'')
     else case parse_u32 (args ! 1) of
            None \<Rightarrow> ret (failed ''needs a number'')
          | Some loc \<Rightarrow> pbind get_world (\<lambda>w. case from_utf8 (sector_read (w_disk w) loc) of
                None \<Rightarrow> (\<lambda>_. Crash (Panic_Msg ''called `Result::unwrap()` on an `Err` value''))
              | Some s \<Rightarrow> pbind (w_println (trim_nul s)) (\<lambda>_. ret (succeeded ''Worked'' False))))"

definition cmd_read :: "string list \<Rightarrow> command_result kernel" where
  "cmd_read args =
    (if length args \<noteq> 2 then ret (failed ''Needs 2 parameters'')
     else case parse_u32 (args ! 1) of
            None \<Rightarrow> ret (failed ''needs a number'')
          | Some loc \<Rightarrow> pbind get_world (\<lambda>w.
              pbind (on_screen (for_each (\<lambda>b. write_string (nat_str (unat b) @ '' '')) (sector_read (w_disk w) loc))) (\<lambda>_.
              ret (succeeded ''worked'' False))))"

definition cmd_write :: "string list \<Rightarrow> command_result kernel" where
  "cmd_write args =
    (if length args < 3 then ret (failed ''Usage: write <sector_index> <string_data>'')
     else case parse_u32 (args ! 1) of
            None \<Rightarrow> ret (failed ''Sector index must be a valid u32 number'')
          | Some loc \<Rightarrow>
              let data_bytes = as_bytes (join '' '' (drop 2 args))
              in if length data_bytes > 512
                 then ret (failed (''Data too large: '' @ nat_str (length data_bytes) @ '' bytes (max 512)''))
                 else pbind (modify (\<lambda>w. w\<lparr>w_disk := sector_write (w_disk w) loc (copy_at (replicate 512 0) 0 data_bytes)\<rparr>)) (\<lambda>_.
                      ret (succeeded ''Sector written successfully'' False)))"

section \<open>The other commands\<close>

definition cmd_clear :: "command_result kernel" where
  "cmd_clear = pbind (on_screen writer_clear) (\<lambda>_. ret (succeeded ''worked'' False))"

definition parse_cmd :: "(string list \<Rightarrow> command_result kernel) \<Rightarrow> string list \<Rightarrow> command_result kernel" where
  "parse_cmd interp args =
    (if length args < 2 then ret (failed ''expected at least two params'')
     else interp [args ! 0, join '' '' (drop 1 args)])"

definition cmd_bind :: "string list \<Rightarrow> command_result kernel" where
  "cmd_bind args =
    (if length args < 3 then ret (failed ''invalid number of args'')
     else pbind (modify (\<lambda>w. w\<lparr>w_commands := bt_insert (args ! 1) (Cmd_Bound (join '' '' (drop 2 args))) (w_commands w)\<rparr>))
            (\<lambda>_. ret (succeeded ''Bound successfully'' False)))"

text \<open>The closure \<^verbatim>\<open>bind\<close> makes.\<close>

definition run_bound :: "(string list \<Rightarrow> command_result kernel) \<Rightarrow> string \<Rightarrow> string list \<Rightarrow> command_result kernel" where
  "run_bound interp lisp_code runtime_args = interp (''exec'' # lisp_code # drop 1 runtime_args)"

definition cmd_quit :: "command_result kernel" where
  "cmd_quit = pbind (w_println ''Shutting down...'') (\<lambda>_. pbind get_world (\<lambda>w.
     pbind (lift_outcome (shutdown (term_writer (w_term w)))) (\<lambda>(events, t) w.
       Powered_Off (w\<lparr>w_term := (w_term w)\<lparr>term_writer := t\<rparr>, w_machine := w_machine w @ events\<rparr>))))"

definition cmd_pong :: "command_result kernel" where
  "cmd_pong = pbind (modify (\<lambda>w. w\<lparr>w_launch_pong := True\<rparr>)) (\<lambda>_. pbind get_world (\<lambda>w.
     pbind (lift_outcome (pong_run (w_keys w # w_arrivals w) pong_new (buffer (term_writer (w_term w))))) (\<lambda>(res, left, _, buf).
       case res of
         None \<Rightarrow> unfinished
       | Some msg \<Rightarrow> pbind (modify (\<lambda>w. put_batches left
             (w\<lparr>w_term := (w_term w)\<lparr>term_writer := (term_writer (w_term w))\<lparr>buffer := buf\<rparr>\<rparr>, w_launch_pong := False\<rparr>))) (\<lambda>_.
           ret (succeeded msg True)))))"

definition cmd_history :: "command_result kernel" where
  "cmd_history = pbind get_world (\<lambda>w. pbind (w_print (shell_history (w_shell w))) (\<lambda>_. ret (succeeded ''worked'' False)))"

definition cmd_echo :: "string list \<Rightarrow> command_result kernel" where
  "cmd_echo args =
    (if length args < 2 then ret (failed ''Not enough arguments!'')
     else pbind (w_println (join '' '' (drop 1 args))) (\<lambda>_. ret (succeeded ''worked'' False)))"

definition run_edit :: "'k decoder \<Rightarrow> string list \<Rightarrow> command_result kernel" where
  "run_edit d args = pbind get_world (\<lambda>w.
     pbind (lift_outcome (run_editor (dec_step d) (dec_new d) (w_fs w) args (w_keys w # w_arrivals w) (w_term w) (w_disk w))) (\<lambda>r.
       case r of
         Inr _ \<Rightarrow> unfinished
       | Inl (left, t, dk) \<Rightarrow> pbind (modify (\<lambda>w. put_batches left (w\<lparr>w_term := t, w_disk := dk\<rparr>))) (\<lambda>_.
           ret (succeeded ''Worked'' False))))"

section \<open>The command table\<close>

definition init_cmds :: "(string, command) btree \<Rightarrow> (string, command) btree" where
  "init_cmds c = fold (\<lambda>(k, v). bt_insert k v)
    [(''pong'', Cmd_Pong), (''clear'', Cmd_Clear), (''history'', Cmd_History), (''echo'', Cmd_Echo),
     (''parse'', Cmd_Parse), (''bind'', Cmd_Bind), (''read'', Cmd_Read), (''write'', Cmd_Write),
     (''show'', Cmd_Show), (''formatd'', Cmd_Formatd), (''mkdir'', Cmd_Mkdir), (''cat'', Cmd_Cat),
     (''run'', Cmd_Run), (''edit'', Cmd_Edit), (''eden'', Cmd_Eden), (''quit'', Cmd_Quit)] c"

definition get_command_list :: "world \<Rightarrow> string list" where
  "get_command_list w = bt_keys (w_commands w)"

fun exec_command :: "'k decoder \<Rightarrow> (string list \<Rightarrow> command_result kernel) \<Rightarrow> command \<Rightarrow> string list \<Rightarrow> command_result kernel" where
  "exec_command d interp Cmd_Pong args = cmd_pong"
| "exec_command d interp Cmd_Clear args = cmd_clear"
| "exec_command d interp Cmd_History args = cmd_history"
| "exec_command d interp Cmd_Echo args = cmd_echo args"
| "exec_command d interp Cmd_Parse args = parse_cmd interp args"
| "exec_command d interp Cmd_Bind args = cmd_bind args"
| "exec_command d interp Cmd_Read args = cmd_read args"
| "exec_command d interp Cmd_Write args = cmd_write args"
| "exec_command d interp Cmd_Show args = cmd_show args"
| "exec_command d interp Cmd_Formatd args = format_disk args"
| "exec_command d interp Cmd_Mkdir args = make_file args"
| "exec_command d interp Cmd_Cat args = cat_file args"
| "exec_command d interp Cmd_Run args = run_file interp args"
| "exec_command d interp Cmd_Edit args = edit_file args"
| "exec_command d interp Cmd_Eden args = run_edit d args"
| "exec_command d interp Cmd_Quit args = cmd_quit"
| "exec_command d interp (Cmd_Bound code) args = run_bound interp code args"

text \<open>
  \<^verbatim>\<open>run_cmd\<close> and the future it returns, awaited. The interpreter a command starts can call commands again,
  to any depth; the first argument bounds that depth and the interpreter's own.
\<close>

primrec run_cmd :: "nat \<Rightarrow> 'k decoder \<Rightarrow> string list \<Rightarrow> call_result kernel" where
  "run_cmd 0 d cmd = unfinished"
| "run_cmd (Suc n) d cmd =
    (if cmd = [] then ret (Call_Done \<lparr>success_code = [], print_code = False\<rparr>)
     else pbind get_world (\<lambda>w. case bt_get (hd cmd) (w_commands w) of
       None \<Rightarrow> ret (Lookup_Failed (quoted (hd cmd) @ '' command not found''))
     | Some f \<Rightarrow> pbind (exec_command d (\<lambda>expr. pbind get_world (\<lambda>w.
           interpret_expr n \<lparr>host_run = run_cmd n d, host_println = w_println\<rparr> (get_command_list w) expr)) f cmd)
         (\<lambda>r. ret (case r of Inl e \<Rightarrow> Call_Failed (error_code e) | Inr s \<Rightarrow> Call_Done s))))"

section \<open>The shell\<close>

definition shell_key :: "decoded_key \<Rightarrow> unit kernel" where
  "shell_key key = (case key of
      Unicode character \<Rightarrow>
        if character = 8 then pbind (on_screen delete_byte) (\<lambda>_. modify (\<lambda>w. w\<lparr>w_shell := shell_backspace (w_shell w)\<rparr>))
        else if character = 10 then pbind (w_print [newline]) (\<lambda>_. modify (\<lambda>w. w\<lparr>w_pending := True\<rparr>))
        else pbind (w_print (encode_utf8 character)) (\<lambda>_. modify (\<lambda>w. w\<lparr>w_shell := shell_add (of_nat character) (w_shell w)\<rparr>))
    | RawKey _ \<Rightarrow> ret ())"

fun shell_events :: "'k decoder \<Rightarrow> key_event list \<Rightarrow> 'k \<Rightarrow> 'k kernel" where
  "shell_events d [] kb = ret kb"
| "shell_events d (ev # evs) kb = (case dec_step d kb ev of
      (None, kb') \<Rightarrow> shell_events d evs kb'
    | (Some key, kb') \<Rightarrow> pbind (shell_key key) (\<lambda>_. shell_events d evs kb'))"

definition drain_keys :: "'k decoder \<Rightarrow> 'k \<Rightarrow> 'k kernel" where
  "drain_keys d kb = pbind get_world (\<lambda>w. pbind (modify (\<lambda>w. w\<lparr>w_keys := []\<rparr>)) (\<lambda>_. shell_events d (w_keys w) kb))"

definition report :: "call_result \<Rightarrow> unit kernel" where
  "report r = (case r of
      Call_Done s \<Rightarrow> if print_code s then w_println (success_code s) else ret ()
    | Call_Failed e \<Rightarrow> w_println (''Error: '' @ e)
    | Lookup_Failed e \<Rightarrow> w_println (''Error: '' @ e))"

definition run_line :: "nat \<Rightarrow> 'k decoder \<Rightarrow> unit kernel" where
  "run_line n d = pbind get_world (\<lambda>w. pbind (modify (\<lambda>w. w\<lparr>w_shell := shell_clear (w_shell w)\<rparr>)) (\<lambda>_.
     pbind (case getcmd (w_shell w) of
        None \<Rightarrow> ret ()
      | Some cmd_vec \<Rightarrow> if cmd_vec \<noteq> [] \<and> trim (cmd_vec ! 0) \<noteq> [] then pbind (run_cmd n d cmd_vec) report else ret ()) (\<lambda>_.
     w_print ''> '')))"

definition shell_round :: "nat \<Rightarrow> 'k decoder \<Rightarrow> 'k \<Rightarrow> 'k kernel" where
  "shell_round n d kb = pbind (drain_keys d kb) (\<lambda>kb'. pbind get_world (\<lambda>w.
     pbind (if w_pending w then pbind (modify (\<lambda>w. w\<lparr>w_pending := False\<rparr>)) (\<lambda>_. run_line n d) else ret ()) (\<lambda>_.
     pbind yield_now (\<lambda>_. ret kb'))))"

text \<open>A number of rounds of the loop of \<^verbatim>\<open>shell_task\<close>, which has no end of its own.\<close>

primrec shell_rounds :: "nat \<Rightarrow> nat \<Rightarrow> 'k decoder \<Rightarrow> 'k \<Rightarrow> 'k kernel" where
  "shell_rounds 0 n d kb = ret kb"
| "shell_rounds (Suc k) n d kb = pbind (shell_round n d kb) (shell_rounds k n d)"

definition shell_task :: "nat \<Rightarrow> nat \<Rightarrow> 'k decoder \<Rightarrow> 'k kernel" where
  "shell_task k n d = shell_rounds k n d (dec_new d)"

end
