(* ===== verification/Lisp_Read.thy ===== *)
theory Lisp_Read
  imports Lisp
begin

text \<open>
  The reader of the Lisp: what is printed reads back, and on which source text reading can fail. Tokens are
  followed character by character; a printed expression is a word or a parenthesised sequence of them.
\<close>

section \<open>Words\<close>

text \<open>The characters that belong to a word whatever comes before them.\<close>

definition word_char :: "rchar \<Rightarrow> bool" where
  "word_char c \<longleftrightarrow> c \<noteq> 0x22 \<and> c \<noteq> 0x23 \<and> c \<noteq> 0x28 \<and> c \<noteq> 0x29 \<and> \<not> is_whitespace c"

definition word_token :: "string \<Rightarrow> bool" where
  "word_token s \<longleftrightarrow> s \<noteq> [] \<and> utf8 s \<and> list_all word_char (chars s)"

text \<open>The expressions that print to a form of their own: strings print without their quotes, maps, functions
  and calls of commands in a form that is not read back.\<close>

fun plain :: "risp_exp \<Rightarrow> bool" where
  "plain (Bool _) = True"
| "plain (Symbol s) = (word_token s \<and> s \<noteq> ''true'' \<and> s \<noteq> ''false'' \<and> parse_f64 s = None)"
| "plain (Number n) = (case n of Finite _ _ _ \<Rightarrow> f64_ok n | _ \<Rightarrow> False)"
| "plain (List l) = list_all plain l"
| "plain _ = False"

fun toks :: "risp_exp \<Rightarrow> string list" where
  "toks (List l) = ''('' # concat (map toks l) @ ['')'']"
| "toks e = [show_exp e]"

definition between :: "tokenizer \<Rightarrow> bool" where
  "between t \<longleftrightarrow> current_token t = [] \<and> \<not> in_string t \<and> \<not> in_comment t"

section \<open>Printed text as tokens\<close>

lemma word_step: "word_char c \<Longrightarrow> \<not> in_string t \<Longrightarrow> \<not> in_comment t \<Longrightarrow> token_step c t = push_char c t"
  by (simp add: token_step_def word_char_def)

lemma word_steps:
  "list_all word_char cs \<Longrightarrow> \<not> in_string t \<Longrightarrow> \<not> in_comment t
    \<Longrightarrow> fold token_step cs t = t\<lparr>current_token := current_token t @ of_chars cs\<rparr>"
  by (induction cs arbitrary: t) (simp_all add: word_step push_char_def)

lemma read_word:
  assumes "word_token s" "between t"
  shows "flush_token (fold token_step (chars s) t) = t\<lparr>tokens := tokens t @ [s]\<rparr>"
  using assms word_steps [of "chars s" t]
  by (simp add: word_token_def between_def of_chars_chars flush_token_def)

lemma digit_word: "list_all (\<lambda>c. is_digit c \<or> c = CHR ''-'' \<or> c = CHR ''.'') s \<Longrightarrow> s \<noteq> [] \<Longrightarrow> word_token s"
proof -
  assume a: "list_all (\<lambda>c. is_digit c \<or> c = CHR ''-'' \<or> c = CHR ''.'') s" "s \<noteq> []"
  have c: "(of_char c :: nat) < 0x80 \<and> word_char (of_char c)" if "is_digit c \<or> c = CHR ''-'' \<or> c = CHR ''.''" for c
    using that by (auto simp: is_digit_def word_char_def is_whitespace_def)
  have "ascii s" using a(1) c by (induction s) auto
  then show ?thesis using a c by (auto simp: word_token_def utf8_ascii chars_ascii list_all_iff)
qed

lemma show_decimal_chars: "list_all (\<lambda>c. is_digit c \<or> c = CHR ''-'' \<or> c = CHR ''.'') (show_decimal q j)"
proof -
  have d: "list_all (\<lambda>c. is_digit c \<or> c = CHR ''-'' \<or> c = CHR ''.'') s" if "list_all is_digit s" for s
    using that by (auto simp: list_all_iff)
  show ?thesis
    using list_all_take_drop [OF nat_str_digits [of q]] nat_str_digits [of q] zeros_digits zeros_digits [of 1]
    by (auto simp: show_decimal_def Let_def d list_all_append)
qed

lemma show_number_word: "word_token (show_f64 (Finite neg m e))"
proof (rule digit_word)
  obtain q j where qj: "shortest m e 1383 = (q, j)" by fastforce
  have "show_decimal q j \<noteq> []" using show_decimal_hd [of q j] by blast
  then show "show_f64 (Finite neg m e) \<noteq> []" unfolding show_f64.simps qj by simp
  show "list_all (\<lambda>c. is_digit c \<or> c = CHR ''-'' \<or> c = CHR ''.'') (show_f64 (Finite neg m e))"
    unfolding show_f64.simps qj using show_decimal_chars [of q j] by (simp add: is_digit_def)
qed

lemma ascii_byte:
  assumes "scalar c" "b \<in> set (encode_utf8 c)" "(of_char b :: nat) < 0x80"
  shows "c = of_char b \<and> encode_utf8 c = [b]"
proof -
  have c: "c < 0x110000" using assms(1) by (simp add: scalar_def) linarith
  have "of_char b \<in> set (code_bytes c)" using assms(2) by (simp add: code_bytes_def)
  then have "c = of_char b" using assms(3) by (simp add: code_bytes_eq [OF c] split: if_splits)
  then show ?thesis using assms(3) by (simp add: encode_ascii)
qed

text \<open>An ASCII byte of a string is a character of its own.\<close>

lemma ascii_char_in: "utf8 s \<Longrightarrow> b \<in> set s \<Longrightarrow> (of_char b :: nat) < 0x80 \<Longrightarrow> of_char b \<in> set (chars s)"
proof -
  assume s: "utf8 s" "b \<in> set s" "(of_char b :: nat) < 0x80"
  have "b \<in> set (of_chars (chars s))" using s of_chars_chars by simp
  then obtain c where "c \<in> set (chars s)" "b \<in> set (encode_utf8 c)" by (auto simp: of_chars_def)
  then show ?thesis using ascii_byte [of c b] scalar_chars [OF s(1)] s(3) by (auto simp: list_all_iff)
qed

lemma word_token_parts: "word_token s \<Longrightarrow> CHR 0x22 \<notin> set s \<and> CHR 0x28 \<notin> set s \<and> CHR 0x29 \<notin> set s"
  using ascii_char_in [of s "CHR 0x22"] ascii_char_in [of s "CHR 0x28"] ascii_char_in [of s "CHR 0x29"]
  by (auto simp: word_token_def list_all_iff word_char_def)

lemma word_token_hd: "word_token s \<Longrightarrow> hd s \<noteq> CHR 0x22 \<and> s \<noteq> ''('' \<and> s \<noteq> '')''"
  using word_token_parts [of s] by (cases s) (auto simp: word_token_def)

lemma show_atom_word: "plain e \<Longrightarrow> toks e = [show_exp e] \<Longrightarrow> word_token (show_exp e)"
proof (cases e)
  case (Bool b)
  have "word_token ''true''" "word_token ''false''"
    by (simp_all add: word_token_def utf8_ascii chars_ascii word_char_def is_whitespace_def)
  then show ?thesis using Bool by (simp add: show_bool_def)
next
  case (Number n)
  assume "plain e"
  then show ?thesis using Number show_number_word by (cases n) auto
qed auto

lemma show_atom_utf8: "plain e \<Longrightarrow> toks e = [show_exp e] \<Longrightarrow> utf8 (show_exp e)"
  using show_atom_word by (simp add: word_token_def)

lemma between_put [simp]: "between t \<Longrightarrow> between (t\<lparr>tokens := ts\<rparr>)"
  by (simp add: between_def)

text \<open>A blank or a closing parenthesis ends a pending word first.\<close>

lemma flush_fields [simp]: "in_string (flush_token t) = in_string t" "in_comment (flush_token t) = in_comment t"
  by (simp_all add: flush_token_def)

lemma blank_step: "between (flush_token t) \<Longrightarrow> token_step 0x20 t = flush_token t"
  by (simp add: token_step_def is_whitespace_def between_def)

lemma paren_step:
  "between (flush_token t) \<Longrightarrow> c = 0x28 \<or> c = 0x29
    \<Longrightarrow> token_step c t = (flush_token t)\<lparr>tokens := tokens (flush_token t) @ [encode_utf8 c]\<rparr>"
  by (auto simp: token_step_def between_def Let_def)

lemma flush_between [simp]: "between t \<Longrightarrow> flush_token t = t"
  by (simp add: between_def flush_token_def)

lemma encode_parts [simp]: "encode_utf8 0x22 = [CHR 0x22]" "encode_utf8 0x28 = ''(''" "encode_utf8 0x29 = '')''"
  by code_simp+

lemma utf8_parts [simp]: "utf8 ''(''" "utf8 '')''" "utf8 '' ''" "chars ''('' = [0x28]" "chars '')'' = [0x29]" "chars '' '' = [0x20]"
  by (simp_all add: utf8_ascii chars_ascii)

lemma utf8_join: "\<forall>w\<in>set ws. utf8 w \<Longrightarrow> utf8 sep \<Longrightarrow> utf8 (join sep ws)"
  by (induction sep ws rule: join.induct) (auto simp: utf8_append utf8_ascii)

lemma show_utf8: "plain e \<Longrightarrow> utf8 (show_exp e)"
proof (induction e)
  case (List l)
  then have "utf8 (join '' '' (map show_exp l))" by (auto simp: list_all_iff intro!: utf8_join)
  then show ?case using utf8_append [OF utf8_append [OF utf8_parts(1)] utf8_parts(2)] by simp
qed (simp_all add: show_atom_utf8 del: show_exp.simps plain.simps)

lemma read_printed:
  "plain e \<Longrightarrow> between t \<Longrightarrow> flush_token (fold token_step (chars (show_exp e)) t) = t\<lparr>tokens := tokens t @ toks e\<rparr>"
proof (induction e arbitrary: t)
  case (List l)
  have seq: "flush_token (fold token_step (chars (join '' '' (map show_exp l'))) u) = u\<lparr>tokens := tokens u @ concat (map toks l')\<rparr>"
    if "set l' \<subseteq> set l" "between u" for l' u
    using that
  proof (induction l' arbitrary: u rule: induct_list012)
    case 1
    then show ?case by (simp add: chars_ascii)
  next
    case (2 x)
    then show ?case using List.IH [of x u] List.prems by (simp add: list_all_iff)
  next
    case (3 x y zs)
    have x: "plain x" "x \<in> set l" using 3 List.prems by (auto simp: list_all_iff)
    let ?u = "fold token_step (chars (show_exp x)) u"
    have u: "flush_token ?u = u\<lparr>tokens := tokens u @ toks x\<rparr>" using List.IH [of x u] x 3 by simp
    have r: "utf8 (join '' '' (map show_exp (y # zs)))"
      using 3 List.prems by (intro utf8_join) (auto simp: list_all_iff show_utf8)
    have "chars (join '' '' (map show_exp (x # y # zs)))
        = chars (show_exp x) @ [0x20] @ chars (join '' '' (map show_exp (y # zs)))"
      using r show_utf8 [OF x(1)] by (simp add: chars_append utf8_append del: append_Cons)
    then show ?case
      using 3 u blank_step [of ?u] by simp
  qed
  let ?s = "join '' '' (map show_exp l)" and ?t = "t\<lparr>tokens := tokens t @ [''('']\<rparr>"
  have s: "utf8 ?s" using List.prems by (intro utf8_join) (auto simp: list_all_iff show_utf8)
  have "chars (show_exp (List l)) = [0x28] @ chars ?s @ [0x29]"
    using s by (simp add: chars_append utf8_append del: append_Cons)
  then show ?case
    using seq [of l ?t] List.prems paren_step [of t "0x28"] paren_step [of "fold token_step (chars ?s) ?t" "0x29"]
    by simp
qed (simp_all add: show_atom_word read_word del: show_exp.simps plain.simps)

section \<open>Tokens as expressions\<close>

lemma parse_atom_plain: "plain e \<Longrightarrow> toks e = [show_exp e] \<Longrightarrow> parse_atom (show_exp e) = Ret e"
proof (cases e)
  case (Symbol s)
  assume "plain e"
  then have s: "word_token s" "s \<noteq> ''true''" "s \<noteq> ''false''" "parse_f64 s = None" using Symbol by auto
  then show ?thesis using Symbol word_token_hd [OF s(1)] by (simp add: parse_atom_def)
next
  case (Number n)
  assume "plain e"
  then obtain neg m x where n: "n = Finite neg m x" "f64_ok (Finite neg m x)" using Number by (cases n) auto
  have p: "parse_f64 (show_f64 n) = Some n" using parse_show_finite [OF n(2)] n(1) by simp
  have "parse_f64 ''true'' = None" "parse_f64 ''false'' = None" by code_simp+
  then have "show_f64 n \<noteq> ''true''" "show_f64 n \<noteq> ''false''" using p by auto
  then show ?thesis using p Number word_token_hd [OF show_number_word [of neg m x]] n(1) by (simp add: parse_atom_def)
qed (auto simp: parse_atom_def show_bool_def)

lemma parse_atom_token: "plain e \<Longrightarrow> toks e = [show_exp e] \<Longrightarrow> parse (show_exp e # rest) = Ret (Inr (e, rest))"
  using parse_atom_plain [of e] word_token_hd [OF show_atom_word [of e]] by simp

lemma toks_shape: "plain e \<Longrightarrow> \<exists>w ws. toks e = w # ws \<and> w \<noteq> '')''"
proof (cases "\<exists>l. e = List l")
  case False
  assume "plain e"
  moreover have "toks e = [show_exp e]" using False by (cases e) simp_all
  ultimately show ?thesis using word_token_hd [OF show_atom_word] by auto
qed auto

lemma parse_toks:
  "plain e \<Longrightarrow> parse (toks e @ rest) = Ret (Inr (e, rest))"
proof (induction e arbitrary: rest)
  case (List l)
  have "read_seq (concat (map toks l') @ '')'' # rest) acc = Ret (Inr (List (acc @ l'), rest))" if "set l' \<subseteq> set l" for l' acc
    using that
  proof (induction l' arbitrary: acc)
    case (Cons x l')
    have x: "plain x" "x \<in> set l" using Cons List.prems by (auto simp: list_all_iff)
    obtain w ws where w: "toks x = w # ws" "w \<noteq> '')''" using toks_shape [OF x(1)] by blast
    have "parse (toks x @ concat (map toks l') @ '')'' # rest) = Ret (Inr (x, concat (map toks l') @ '')'' # rest))"
      using List.IH x by blast
    then show ?case using w Cons by simp
  qed simp
  from this [of l "[]"] show ?case by simp
qed (simp_all add: parse_atom_token del: show_exp.simps plain.simps parse.simps)

text \<open>
  C20: what is printed reads back. The text of an expression made of booleans, symbols, finite numbers and lists
  of these is read as that expression, with nothing left over; numbers come back bit by bit.
\<close>

theorem read_what_was_printed:
  assumes "plain e"
  shows "parse (tokenize (show_exp e)) = Ret (Inr (e, []))"
  using read_printed [OF assms, of "\<lparr>tokens = [], current_token = [], in_string = False, in_comment = False\<rparr>"]
    parse_toks [OF assms, of "[]"]
  by (simp add: tokenize_def between_def)
theorem read_what_was_printed_witness:
  "parse (tokenize (show_exp (List [Symbol ''+'', Number (Finite True 5629499534213120 (-51)), List [Bool True]])))
    = Ret (Inr (List [Symbol ''+'', Number (Finite True 5629499534213120 (-51)), List [Bool True]], []))"
proof (rule read_what_was_printed)
  have "word_token ''+''" by (simp add: word_token_def utf8_ascii chars_ascii word_char_def is_whitespace_def)
  moreover have "parse_f64 ''+'' = None" by code_simp
  moreover have "f64_ok (Finite True 5629499534213120 (-51))" by (simp add: f64_ok_def)
  ultimately show "plain (List [Symbol ''+'', Number (Finite True 5629499534213120 (-51)), List [Bool True]])" by simp
qed

section \<open>Where reading can fail\<close>

text \<open>Only a token that is a single quote makes the reader panic; it never runs on.\<close>

lemma parse_atom_returns: "token \<noteq> [CHR 0x22] \<Longrightarrow> \<exists>e. parse_atom token = Ret e"
proof -
  assume t: "token \<noteq> [CHR 0x22]"
  have "1 \<le> length token - 1" if "token \<noteq> []" "hd token = CHR 0x22"
    using that t by (cases token; cases "tl token") auto
  then show ?thesis by (auto simp: parse_atom_def split: option.splits)
qed

lemma parse_returns:
  "[CHR 0x22] \<notin> set xs \<Longrightarrow> \<exists>r. parse xs = Ret r \<and> (\<forall>e ys. r = Inr (e, ys) \<longrightarrow> set ys \<subseteq> set xs)"
  "[CHR 0x22] \<notin> set xs \<Longrightarrow> \<exists>r. read_seq xs res = Ret r \<and> (\<forall>e ys. r = Inr (e, ys) \<longrightarrow> set ys \<subseteq> set xs)"
proof (induction xs and xs res rule: parse_read_seq.induct)
  case (2 token rest)
  show ?case
  proof (cases "token = ''('' \<or> token = '')''")
    case True
    then show ?thesis using 2 by (force simp del: read_seq.simps)
  next
    case False
    then obtain e where "parse_atom token = Ret e" using parse_atom_returns [of token] 2(2) by auto
    then show ?thesis using False by auto
  qed
next
  case (4 next_token rest res)
  show ?case
  proof (cases "next_token = '')''")
    case False
    then obtain r where r: "parse (next_token # rest) = Ret r" "\<forall>e ys. r = Inr (e, ys) \<longrightarrow> set ys \<subseteq> set (next_token # rest)"
      using 4 by auto
    show ?thesis
    proof (cases r)
      case (Inr p)
      obtain e ys where p: "p = (e, ys)" by fastforce
      have s: "set ys \<subseteq> set (next_token # rest)" using r(2) Inr p by blast
      have "\<exists>r. read_seq ys (res @ [e]) = Ret r \<and> (\<forall>e zs. r = Inr (e, zs) \<longrightarrow> set zs \<subseteq> set ys)"
        using 4(2) [OF False r(1) Inr] p s 4(3) by blast
      then obtain r' where r': "read_seq ys (res @ [e]) = Ret r'" "\<forall>e zs. r' = Inr (e, zs) \<longrightarrow> set zs \<subseteq> set ys" by blast
      have "read_seq (next_token # rest) res = Ret r'" using False r(1) Inr p r'(1) by (simp del: parse.simps)
      then show ?thesis using r'(2) s by blast
    qed (use False r in \<open>simp del: parse.simps\<close>)
  qed auto
qed auto

text \<open>A quote token is left over only when the source ends right after an opening quote.\<close>

definition quote_inv :: "rchar list \<Rightarrow> tokenizer \<Rightarrow> bool" where
  "quote_inv cs t \<longleftrightarrow> [CHR 0x22] \<notin> set (tokens t)
    \<and> (if in_string t then \<not> in_comment t \<and> current_token t \<noteq> [] \<and> (current_token t = [CHR 0x22] \<longrightarrow> cs \<noteq> [] \<and> last cs = 0x22)
       else CHR 0x22 \<notin> set (current_token t))"

lemma quote_inv_step:
  assumes "quote_inv cs t" "scalar c"
  shows "quote_inv (cs @ [c]) (token_step c t)"
proof -
  have q: "CHR 0x22 \<in> set (encode_utf8 c) \<Longrightarrow> c = 0x22" using ascii_byte [OF assms(2), of "CHR 0x22"] by simp
  have two: "a @ encode_utf8 c \<noteq> [CHR 0x22]" "[CHR 0x22] \<noteq> a @ encode_utf8 c" if "a \<noteq> []" for a
    using that by (simp_all add: append_eq_Cons_conv Cons_eq_append_conv)
  consider "in_comment t" | "\<not> in_comment t" "in_string t" | "\<not> in_comment t" "\<not> in_string t" by blast
  then show ?thesis
  proof cases
    case 1
    then show ?thesis using assms(1) by (auto simp: quote_inv_def token_step_def)
  next
    case 2
    then show ?thesis using assms(1) two by (auto simp: quote_inv_def token_step_def push_char_def Let_def)
  next
    case 3
    have f: "quote_inv cs (flush_token t)" "current_token (flush_token t) = []"
      using assms(1) 3 by (cases "current_token t = [CHR 0x22]"; auto simp: quote_inv_def flush_token_def)+
    have p: "quote_inv (cs @ [c]) (push_char c t)" if "c \<noteq> 0x22"
      using assms(1) 3 q that by (auto simp: quote_inv_def push_char_def)
    show ?thesis
      using f 3 p unfolding token_step_def by (auto simp: quote_inv_def push_char_def Let_def)
  qed
qed

lemma quote_inv_steps: "list_all scalar cs \<Longrightarrow> quote_inv cs (fold token_step cs \<lparr>tokens = [], current_token = [], in_string = False, in_comment = False\<rparr>)"
proof (induction cs rule: rev_induct)
  case (snoc c cs)
  then show ?case using quote_inv_step [of cs _ c] by simp
qed (simp add: quote_inv_def)

lemma lone_quote_at_end:
  assumes "list_all scalar cs" "[CHR 0x22] \<in> set (tokenize (of_chars cs))"
  shows "cs \<noteq> [] \<and> last cs = 0x22"
proof -
  define t where "t = fold token_step cs \<lparr>tokens = [], current_token = [], in_string = False, in_comment = False\<rparr>"
  have "quote_inv cs t" using quote_inv_steps [OF assms(1)] by (simp add: t_def)
  moreover have "[CHR 0x22] \<in> set (tokens (flush_token t))"
    using assms(2) by (simp add: tokenize_def chars_of_chars [OF assms(1)] t_def)
  ultimately show ?thesis
    by (cases "in_string t"; cases "current_token t = [CHR 0x22]") (auto simp: quote_inv_def flush_token_def split: if_splits)
qed

text \<open>
  C27: source text that does not end in a double quote never crashes or hangs the reader: it gives an
  expression or an error, for every text. Text that is just a double quote does crash it.
\<close>

theorem reader_returns:
  assumes "utf8 s" and "s \<noteq> [] \<longrightarrow> last s \<noteq> CHR 0x22"
  shows "(\<exists>r. parse (tokenize s) = Ret r) \<and> parse (tokenize [CHR 0x22]) = Panic Slice_Order"
proof -
  obtain cs where cs: "list_all scalar cs" "s = of_chars cs" using assms(1) utf8_iff by blast
  have "[CHR 0x22] \<notin> set (tokenize s)"
  proof
    assume "[CHR 0x22] \<in> set (tokenize s)"
    then obtain ds where d: "cs = ds @ [0x22]" using lone_quote_at_end [OF cs(1)] cs(2) by (metis append_butlast_last_id)
    then show False using assms(2) cs(2) by (simp add: of_chars_def)
  qed
  moreover have "tokenize [CHR 0x22] = [[CHR 0x22]]"
    by (simp add: tokenize_def chars_ascii token_step_def flush_token_def push_char_def)
  ultimately show ?thesis using parse_returns(1) [of "tokenize s"] by (auto simp: parse_atom_def)
qed

theorem reader_returns_witness: "\<exists>r. parse (tokenize ''(def x) #'') = Ret r"
  using reader_returns [of "''(def x) #''"] by (simp add: utf8_ascii)

end
