(* ===== verification/Lisp_Laws.thy ===== *)
theory Lisp_Laws
  imports Lisp_Eval Lisp_Read
begin

text \<open>
  Laws of the evaluator over any host: a bound on the depth that is enough gives the same result as any
  larger one, and evaluation keeps every invariant of the world that the host's commands keep.
\<close>

section \<open>Depth and invariants\<close>

definition host_agrees :: "('w \<Rightarrow> bool) \<Rightarrow> 'w host \<Rightarrow> 'w host \<Rightarrow> bool" where
  "host_agrees I h h' \<longleftrightarrow> (\<forall>cmd. agrees I (host_run h cmd) (host_run h' cmd)) \<and> (\<forall>s. agrees I (host_println h s) (host_println h' s))"

definition ev_agrees :: "('w \<Rightarrow> bool) \<Rightarrow> 'w evaluator \<Rightarrow> 'w evaluator \<Rightarrow> bool" where
  "ev_agrees I ev ev' \<longleftrightarrow> (\<forall>e env. agrees I (ev e env) (ev' e env))"

lemma ev_agreesD: "ev_agrees I ev ev' \<Longrightarrow> agrees I (ev e env) (ev' e env)"
  by (simp add: ev_agrees_def)

lemma host_agreesD [agree_laws]:
  "host_agrees I h h' \<Longrightarrow> agrees I (host_run h cmd) (host_run h' cmd)"
  "host_agrees I h h' \<Longrightarrow> agrees I (host_println h s) (host_println h' s)"
  by (simp_all add: host_agrees_def)

lemma bind_agrees [agree_laws]:
  "agrees I a a' \<Longrightarrow> (\<And>v env. agrees I (g v env) (g' v env)) \<Longrightarrow> agrees I (ebind a g) (ebind a' g')"
  "agrees I b b' \<Longrightarrow> (\<And>vs env. agrees I (k vs env) (k' vs env)) \<Longrightarrow> agrees I (abind b k) (abind b' k')"
  unfolding ebind_def abind_def by (intro agree_laws; assumption)+

lemma ends_agrees [agree_laws]: "agrees I (ok v env) (ok v env)" "agrees I (err msg env) (err msg env)"
    "agrees I (of_result r env) (of_result r env)"
  unfolding ok_def err_def of_result_def by (intro agree_laws)+

lemma case_exp_agrees [agree_laws]:
  assumes "\<And>x. agrees I (f1 x) (g1 x)" "\<And>x. agrees I (f2 x) (g2 x)" "\<And>x. agrees I (f3 x) (g3 x)" "\<And>x. agrees I (f4 x) (g4 x)"
    "\<And>x. agrees I (f5 x) (g5 x)" "\<And>x. agrees I (f6 x) (g6 x)" "\<And>x. agrees I (f7 x) (g7 x)" "\<And>x y z. agrees I (f8 x y z) (g8 x y z)"
    "\<And>x. agrees I (f9 x) (g9 x)"
  shows "agrees I (case_risp_exp f1 f2 f3 f4 f5 f6 f7 f8 f9 e) (case_risp_exp g1 g2 g3 g4 g5 g6 g7 g8 g9 e)"
  using assms by (cases e) simp_all

lemma case_call_agrees [agree_laws]:
  "(\<And>x. agrees I (f x) (f' x)) \<Longrightarrow> (\<And>x. agrees I (g x) (g' x)) \<Longrightarrow> (\<And>x. agrees I (k x) (k' x))
    \<Longrightarrow> agrees I (case_call_result f g k r) (case_call_result f' g' k' r)"
  by (cases r) simp_all

lemma eval_args_agrees [agree_laws]: "ev_agrees I ev ev' \<Longrightarrow> agrees I (eval_args ev args acc env) (eval_args ev' args acc env)"
proof (induction args arbitrary: acc env)
  case (Cons arg args)
  show ?case unfolding eval_args.simps by (intro agree_laws Cons ev_agreesD [OF Cons.prems])
qed (simp add: agree_laws)

lemma eval_and_agrees [agree_laws]: "ev_agrees I ev ev' \<Longrightarrow> agrees I (eval_and ev args env) (eval_and ev' args env)"
proof (induction args arbitrary: env)
  case (Cons arg args)
  show ?case unfolding eval_and.simps by (intro agree_laws Cons ev_agreesD [OF Cons.prems])
qed (simp add: agree_laws)

lemma eval_or_agrees [agree_laws]: "ev_agrees I ev ev' \<Longrightarrow> agrees I (eval_or ev args env) (eval_or ev' args env)"
proof (induction args arbitrary: env)
  case (Cons arg args)
  show ?case unfolding eval_or.simps by (intro agree_laws Cons ev_agreesD [OF Cons.prems])
qed (simp add: agree_laws)

lemma eval_do_agrees [agree_laws]: "ev_agrees I ev ev' \<Longrightarrow> agrees I (eval_do ev v args env) (eval_do ev' v args env)"
proof (induction args arbitrary: v env)
  case (Cons arg args)
  show ?case unfolding eval_do.simps by (intro agree_laws Cons ev_agreesD [OF Cons.prems])
qed (simp add: agree_laws)

lemma for_loop_agrees [agree_laws]:
  "ev_agrees I ev ev' \<Longrightarrow> n \<le> m \<Longrightarrow> agrees I (for_loop n ev condition body env) (for_loop m ev' condition body env)"
proof (induction n arbitrary: m env)
  case (Suc n)
  then obtain k where "m = Suc k" "n \<le> k" by (cases m) auto
  then show ?case unfolding \<open>m = Suc k\<close> for_loop.simps by (intro agree_laws Suc ev_agreesD [OF Suc.prems(1)])
qed (simp add: agree_laws)

lemma apply_lambda_agrees [agree_laws]:
  assumes "ev_agrees I ev ev'"
  shows "agrees I (apply_lambda ev params body captured vs env) (apply_lambda ev' params body captured vs env)"
    and "agrees I (run_handler ev msg env) (run_handler ev' msg env)"
  unfolding apply_lambda_def run_handler_def by (intro agree_laws assms ev_agreesD [OF assms])+

lemma special_form_agrees [agree_laws]:
  assumes "ev_agrees I ev ev'"
  shows "agrees I (eval_if ev args env) (eval_if ev' args env)"
    "agrees I (eval_def ev args env) (eval_def ev' args env)"
    "agrees I (eval_append ev args env) (eval_append ev' args env)"
    "agrees I (eval_mset ev args env) (eval_mset ev' args env)"
    "agrees I (eval_mdel ev args env) (eval_mdel ev' args env)"
    "agrees I (eval_error ev args env) (eval_error ev' args env)"
    "agrees I (eval_call ev first_form args env) (eval_call ev' first_form args env)"
  unfolding eval_if_def eval_def_def eval_append_def eval_mset_def eval_mdel_def eval_error_def eval_call_def Let_def
  by (intro agree_laws assms ev_agreesD [OF assms])+

lemma pop_quote_agrees [agree_laws]:
  "agrees I (eval_quote args env) (eval_quote args env)" "agrees I (eval_pop args env) (eval_pop args env)"
  unfolding eval_quote_def eval_pop_def by (intro agree_laws)+

lemma sys_for_agrees [agree_laws]:
  assumes "ev_agrees I ev ev'"
  shows "host_agrees I h h' \<Longrightarrow> agrees I (eval_sys h ev args env) (eval_sys h' ev' args env)"
    "n \<le> m \<Longrightarrow> agrees I (eval_for n ev args env) (eval_for m ev' args env)"
  unfolding eval_sys_def eval_for_def by (intro agree_laws assms ev_agreesD [OF assms]; assumption)+

lemma eval_step_agrees:
  assumes "host_agrees I h h'" "ev_agrees I ev ev'" "n \<le> m"
  shows "agrees I (eval_step h n ev e env) (eval_step h' m ev' e env)"
  unfolding eval_step_def eval_list_def by (intro agree_laws assms ev_agreesD [OF assms(2)])

lemma eval_agrees:
  "host_agrees I h h' \<Longrightarrow> n \<le> m \<Longrightarrow> ev_agrees I (eval n h) (eval m h')"
proof (induction n arbitrary: m)
  case (Suc n)
  then obtain k where "m = Suc k" "n \<le> k" by (cases m) auto
  then show ?case
    using eval_step_agrees [OF Suc.prems(1) Suc.IH [OF Suc.prems(1) \<open>n \<le> k\<close>] \<open>n \<le> k\<close>] by (simp add: ev_agrees_def)
qed (simp add: ev_agrees_def agree_laws)

section \<open>Programs\<close>

lemma eval_eq_agrees: "host_agrees I h h' \<Longrightarrow> n \<le> m \<Longrightarrow> agrees I (eval n h e env) (eval m h' e env)"
  by (rule ev_agreesD [OF eval_agrees])

lemma parse_eval_agrees [agree_laws]:
  assumes "host_agrees I h h'" "n \<le> m"
  shows "agrees I (parse_eval n h src env) (parse_eval m h' src env)"
  unfolding parse_eval_def by (rule agrees_outcome) (intro agree_laws eval_eq_agrees assms)

lemma run_statements_agrees [agree_laws]:
  assumes "host_agrees I h h'" "n \<le> m"
  shows "agrees I (run_statements n h ss env e) (run_statements m h' ss env e)"
proof (induction ss arbitrary: env e)
  case (Cons s ss)
  show ?case unfolding run_statements.simps by (intro agree_laws assms Cons.IH)
qed (simp add: agree_laws)

lemma interpret_expr_agrees:
  assumes "host_agrees I h h'" "n \<le> m"
  shows "agrees I (interpret_expr n h commands expr) (interpret_expr m h' commands expr)"
  unfolding interpret_expr_def Let_def by (intro agree_laws assms)

end
