(* ===== verification/Command_Laws.thy ===== *)
theory Command_Laws
  imports Commands Lisp_Laws
begin

text \<open>
  Laws of the shell and its commands. The contract \<open>command_contract\<close> says which invariant of the kernel's state the
  commands keep, and \<open>kernel_contract\<close> adds the steps of the shell; from them follows, once, that \<^verbatim>\<open>run_cmd\<close> and the
  shell keep it through any number of rounds, whatever is typed and whatever Lisp programs run, and that a bound
  on the depth of evaluation that is enough gives the same result as a larger one.
\<close>

section \<open>Steps on the kernel's state\<close>

lemma keeps_steps [agree_laws]:
  "agrees I get_world get_world" "agrees I (lift_outcome r) (lift_outcome r)"
  by (simp_all add: agrees_def get_world_def lift_outcome_def split: outcome.split)

lemma agrees_get:
  assumes "\<And>w. I w \<Longrightarrow> agrees I (f w) (f' w)"
  shows "agrees I (pbind get_world f) (pbind get_world f')"
  unfolding agrees_def
proof (intro allI impI)
  fix w assume w: "I w"
  show "(pbind get_world f w = Unfinished \<or> pbind get_world f w = pbind get_world f' w)
      \<and> (\<forall>x v. pbind get_world f w = Done x v \<longrightarrow> I v) \<and> (\<forall>v. pbind get_world f w = Powered_Off v \<longrightarrow> I v)"
    using agreesD [OF assms [OF w] w] by (simp add: pbind_def get_world_def)
qed

lemma keeps_modify: "(\<And>w. I w \<Longrightarrow> I (f w)) \<Longrightarrow> keeps_inv I (modify f)"
  by (simp add: agrees_def modify_def)

lemma agrees_cond: "(c \<Longrightarrow> agrees I a a') \<Longrightarrow> (\<not> c \<Longrightarrow> agrees I b b') \<Longrightarrow> agrees I (if c then a else b) (if c then a' else b')"
  by simp

text \<open>The commands that start the interpreter.\<close>

definition calls_interp :: "command \<Rightarrow> bool" where
  "calls_interp c \<longleftrightarrow> (case c of Cmd_Parse \<Rightarrow> True | Cmd_Run \<Rightarrow> True | Cmd_Bound _ \<Rightarrow> True | _ \<Rightarrow> False)"

lemma interp_commands_agree:
  assumes "\<And>expr. agrees I (interp expr) (interp' expr)" "calls_interp c"
  shows "agrees I (exec_command d interp c args) (exec_command d interp' c args)"
proof -
  have "agrees I (fetch_file b name ext) (fetch_file b name ext)" for b name ext
    unfolding fetch_file_def by (intro agree_laws)
  then have "agrees I (run_file interp args) (run_file interp' args)"
    unfolding run_file_def by (intro agree_laws assms(1))
  moreover have "agrees I (parse_cmd interp args) (parse_cmd interp' args)"
    unfolding parse_cmd_def by (intro agree_laws assms(1))
  ultimately show ?thesis using assms by (cases c) (simp_all add: calls_interp_def run_bound_def)
qed

section \<open>The contract of an invariant\<close>

locale command_contract =
  fixes inv :: "world \<Rightarrow> bool" and d :: "'k decoder"
  assumes simple: "\<not> calls_interp c \<Longrightarrow> keeps_inv inv (exec_command d interp c args)"
    and println: "keeps_inv inv (w_println s)"
    and prints: "keeps_inv inv (w_print s)"
begin

lemma exec_command_agrees:
  assumes "\<And>expr. agrees inv (interp expr) (interp' expr)"
  shows "agrees inv (exec_command d interp c args) (exec_command d interp' c args)"
proof (cases "calls_interp c")
  case False
  then have "exec_command d interp' c args = exec_command d interp c args" by (cases c) (simp_all add: calls_interp_def)
  then show ?thesis using simple [OF False] by simp
qed (rule interp_commands_agree [OF assms])

lemma run_cmd_agrees: "n \<le> m \<Longrightarrow> agrees inv (run_cmd n d cmd) (run_cmd m d cmd)"
proof (induction n arbitrary: m cmd)
  case (Suc n)
  then obtain k where k: "m = Suc k" "n \<le> k" by (cases m) auto
  have h: "host_agrees inv \<lparr>host_run = run_cmd n d, host_println = w_println\<rparr> \<lparr>host_run = run_cmd k d, host_println = w_println\<rparr>"
    using Suc.IH [OF k(2)] println by (simp add: host_agrees_def)
  show ?case unfolding k(1) run_cmd.simps
    by (intro agree_laws exec_command_agrees interpret_expr_agrees [OF h k(2)])
qed (simp add: agree_laws)

lemma report_keeps: "keeps_inv inv (report r)"
  unfolding report_def by (intro agree_laws println)

end

locale kernel_contract = command_contract inv d for inv :: "world \<Rightarrow> bool" and d :: "'k decoder" +
  assumes key: "keeps_inv inv (shell_key k)"
    and drain: "keeps_inv inv (modify (\<lambda>w. w\<lparr>w_keys := []\<rparr>))"
    and clear: "keeps_inv inv (modify (\<lambda>w. w\<lparr>w_shell := shell_clear (w_shell w)\<rparr>))"
    and pending: "keeps_inv inv (modify (\<lambda>w. w\<lparr>w_pending := False\<rparr>))"
    and yields: "keeps_inv inv yield_now"
begin

lemma shell_events_keep: "keeps_inv inv (shell_events d evs kb)"
proof (induction evs arbitrary: kb)
  case (Cons ev evs)
  show ?case unfolding shell_events.simps by (intro agree_laws key Cons.IH)
qed (simp add: agree_laws)

lemma run_line_agrees: "n \<le> m \<Longrightarrow> agrees inv (run_line n d) (run_line m d)"
  unfolding run_line_def by (intro agree_laws clear prints run_cmd_agrees report_keeps)

lemma shell_rounds_agree: "n \<le> m \<Longrightarrow> agrees inv (shell_rounds k n d kb) (shell_rounds k m d kb)"
proof (induction k arbitrary: kb)
  case (Suc k)
  have "agrees inv (shell_round n d kb) (shell_round m d kb)"
    unfolding shell_round_def drain_keys_def
    by (intro agree_laws drain shell_events_keep pending run_line_agrees [OF Suc.prems] yields)
  then show ?case unfolding shell_rounds.simps by (intro agree_laws Suc)
qed (simp add: agree_laws)

end

text \<open>No invariant at all: what is left is the independence of the bound.\<close>

interpretation any_state: kernel_contract "\<lambda>_. True" d
  by unfold_locales (simp_all add: agrees_def)

end
