(* ===== verification/World_Inv.thy ===== *)
theory World_Inv
  imports Command_Laws
begin

text \<open>
  The invariant of the kernel's state: the screen is 25 rows of 80 cells with the cursor in them, every sector of
  the disk has 512 bytes, the command table is ordered, and the shell's line is valid text. Every command
  keeps it, the editor and the game included, so the shell does through any number of rounds.
\<close>

section \<open>What a fallible operation can return\<close>

definition yields_only :: "'a outcome \<Rightarrow> ('a \<Rightarrow> bool) \<Rightarrow> bool" where
  "yields_only r P \<longleftrightarrow> (\<forall>x. r = Ret x \<longrightarrow> P x)"

named_theorems yields_laws

lemma yields_ends [yields_laws]: "P x \<Longrightarrow> yields_only (Ret x) P" "yields_only (Panic p) P" "yields_only Hang P"
  by (simp_all add: yields_only_def)

lemma yields_obind: "yields_only r Q \<Longrightarrow> (\<And>x. Q x \<Longrightarrow> yields_only (f x) P) \<Longrightarrow> yields_only (obind r f) P"
  by (cases r) (simp_all add: yields_only_def)

lemma yields_after [yields_laws]: "(\<And>x. r = Ret x \<Longrightarrow> yields_only (f x) P) \<Longrightarrow> yields_only (obind r f) P"
  by (cases r) (simp_all add: yields_only_def)

lemma yields_case [yields_laws]:
  "(v = None \<Longrightarrow> yields_only a P) \<Longrightarrow> (\<And>x. v = Some x \<Longrightarrow> yields_only (f x) P) \<Longrightarrow> yields_only (case v of None \<Rightarrow> a | Some x \<Rightarrow> f x) P"
  "(\<And>e. s = Inl e \<Longrightarrow> yields_only (g e) P) \<Longrightarrow> (\<And>x. s = Inr x \<Longrightarrow> yields_only (h x) P) \<Longrightarrow> yields_only (case s of Inl e \<Rightarrow> g e | Inr x \<Rightarrow> h x) P"
  "(\<And>x y. p = (x, y) \<Longrightarrow> yields_only (k x y) P) \<Longrightarrow> yields_only (case p of (x, y) \<Rightarrow> k x y) P"
  "(c \<Longrightarrow> yields_only t P) \<Longrightarrow> (\<not> c \<Longrightarrow> yields_only u P) \<Longrightarrow> yields_only (if c then t else u) P"
  by (simp_all split: option.split sum.split prod.split)

lemma yields_for_each:
  assumes "\<And>x s. P s \<Longrightarrow> yields_only (f x s) P"
  shows "P s \<Longrightarrow> yields_only (for_each f xs s) P"
proof (induction xs arbitrary: s)
  case (Cons x xs)
  show ?case unfolding for_each.simps by (rule yields_obind [OF assms [OF Cons.prems] Cons.IH])
qed (simp add: yields_laws)

lemma yields_returns: "\<exists>x. r = Ret x \<and> P x \<Longrightarrow> yields_only r P"
  by (auto simp: yields_only_def)

section \<open>Sectors keep their size\<close>

lemma disk_ok_write: "disk_ok dk \<Longrightarrow> length bytes = 512 \<Longrightarrow> disk_ok (sector_write dk lba bytes)"
  by (simp add: disk_ok_def sector_write_def)

lemma length_sector: "disk_ok dk \<Longrightarrow> length (sector_read dk lba) = 512"
  by (simp add: disk_ok_def sector_read_def)

lemma disk_ok_write_sectors: "disk_ok dk \<Longrightarrow> disk_ok (write_sectors lba chunk is dk)"
proof (induction "is" arbitrary: dk)
  case (Cons i "is")
  have "length (copy_at (replicate 512 0) 0 (subslice chunk (i * 512) (min 512 (length chunk - i * 512)))) = 512"
    if "i * 512 < length chunk" using that by (subst length_copy_at) (simp_all add: subslice_def)
  then show ?case using Cons by (simp add: Let_def disk_ok_write)
qed simp

lemma write_chain_disk_ok: "disk_ok dk \<Longrightarrow> yields_only (write_chain n b data k prev first dk) (\<lambda>(r, dk'). disk_ok dk')"
proof (induction n arbitrary: k prev first dk)
  case (Suc n)
  show ?case unfolding write_chain.simps Let_def
    by (intro yields_laws Suc.IH) (use Suc.prems in \<open>auto simp: disk_ok_write_sectors split: option.splits\<close>)
qed (simp add: yields_laws)

lemma free_chain_disk_ok: "disk_ok dk \<Longrightarrow> yields_only (free_cluster_chain b c dk) disk_ok"
proof -
  have "yields_only (free_walk (get_fat_entry b) (set_fat_entry b) n c dk) disk_ok" if "disk_ok dk" for n c dk
    using that
  proof (induction n arbitrary: c dk)
    case (Suc n)
    show ?case unfolding free_walk.simps by (intro yields_laws Suc.IH) (use Suc.prems in simp_all)
  qed (simp add: yields_laws)
  then show "disk_ok dk \<Longrightarrow> ?thesis" by (simp add: free_cluster_chain_def)
qed

lemma disk_ok_put_entry: "disk_ok dk \<Longrightarrow> entry_ok e \<Longrightarrow> offset \<le> 480 \<Longrightarrow> disk_ok (put_entry lba offset e dk)"
  unfolding put_entry_def by (rule disk_ok_write) (simp_all add: length_sector)

lemma find_slot_offset: "find_slot_from dk start ss = Some (lba, offset) \<Longrightarrow> offset \<le> 480"
  by (induction ss) (auto simp: Let_def dest!: find_SomeD split: option.splits)

lemma scan_sector_offset: "scan_sector buf name ext is = Found offset \<Longrightarrow> \<exists>i\<in>set is. offset = i * 32"
  by (induction "is") (auto simp: Let_def split: if_splits)

lemma find_location_entry:
  "disk_ok dk \<Longrightarrow> find_location_from dk start name ext ss = Some (lba, offset, entry) \<Longrightarrow> offset \<le> 480 \<and> entry_ok entry"
proof (induction ss)
  case (Cons s ss)
  then show ?case
    by (auto simp: Let_def length_sector intro!: entry_ok_read_entry dest!: scan_sector_offset split: scan.splits)
qed simp

lemma write_new_file_disk_ok:
  assumes "disk_ok dk" "length name = 8" "length ext = 3"
  shows "yields_only (write_new_file b name ext data dk) (\<lambda>(r, dk'). disk_ok dk')"
  unfolding write_new_file_def find_empty_root_slot_def
  by (intro yields_laws yields_obind [OF write_chain_disk_ok])
    (use assms in \<open>auto simp: new_entry_def entry_ok_def dest!: find_slot_offset intro!: disk_ok_put_entry\<close>)

lemma overwrite_file_disk_ok:
  assumes "disk_ok dk"
  shows "yields_only (overwrite_file b name ext data dk) (\<lambda>(r, dk'). disk_ok dk')"
proof -
  have f: "yields_only (if 2 \<le> cluster_low e then free_cluster_chain b (cluster_low e) dk else Ret dk) disk_ok" for e
    using assms free_chain_disk_ok by (simp add: yields_laws)
  have p: "disk_ok (put_entry lba offset (e\<lparr>cluster_low := c, file_size := k\<rparr>) dk1)"
    if "Ret (find_location_from dk start name ext ss) = Ret (Some (lba, offset, e))" "disk_ok dk1" for lba offset e c k dk1 start ss
    using find_location_entry [OF assms, of start name ext ss lba offset e] that by (simp add: disk_ok_put_entry entry_ok_def)
  show ?thesis unfolding overwrite_file_def find_file_location_def
    by (intro yields_laws yields_obind [OF f] yields_obind [OF write_chain_disk_ok]) (use assms p in auto)
qed

section \<open>The editor and the game\<close>

lemma length_pad_upper: "length (pad_upper n s) = n"
  by (simp add: pad_upper_def Let_def)

lemma draw_vga_ok: "vga_ok t \<Longrightarrow> yields_only (draw vga_device e t) vga_ok"
proof -
  assume t: "vga_ok t"
  have put: "yields_only (put_char vga_device x y c t1) vga_ok" if "vga_ok t1" for x y c t1
    using vga_put_char [OF that] by (intro yields_returns) blast
  have "yields_only (draw_line vga_device yl t1) vga_ok" if "vga_ok t1" for yl t1
    unfolding draw_line_def using that by (intro yields_for_each) (auto simp: put)
  then have lines: "yields_only (for_each (draw_line vga_device) ls t1) vga_ok" if "vga_ok t1" for ls t1
    using that by (rule yields_for_each)
  have clear: "yields_only (term_clear vga_device t) vga_ok" using vga_clear [OF t] by (intro yields_returns) blast
  have move: "yields_only (move_cursor vga_device x y t2) vga_ok" if "vga_ok t2" for x y t2
    using vga_move_cursor [of x y t2] that unfolding vga_ok_def by (intro yields_returns) metis
  show ?thesis unfolding draw_def by (intro yields_obind [OF clear] yields_obind [OF lines] move)
qed

lemma editor_save_disk_ok:
  "disk_ok dk \<Longrightarrow> length name = 8 \<Longrightarrow> length ext = 3 \<Longrightarrow> yields_only (editor_save fs name ext e dk) disk_ok"
  unfolding editor_save_def Let_def
  by (intro yields_laws yields_obind [OF write_new_file_disk_ok] yields_obind [OF overwrite_file_disk_ok]) auto

definition session_ok :: "((key_event list list \<times> vga_terminal \<times> disk) + ('k \<times> editor \<times> vga_terminal)) \<Rightarrow> bool" where
  "session_ok r \<longleftrightarrow> (case r of Inl (left, t, dk) \<Rightarrow> vga_ok t \<and> disk_ok dk | Inr (kb, e, t) \<Rightarrow> vga_ok t)"

lemma session_ok_simps: "session_ok (Inl (left, t, dk)) = (vga_ok t \<and> disk_ok dk)" "session_ok (Inr (kb, e, t)) = vga_ok t"
  by (simp_all add: session_ok_def)

lemma clear_screen_vga_ok: "vga_ok t \<Longrightarrow> yields_only (on_writer clear_screen t) vga_ok"
  using vga_clear [of t] by (intro yields_returns) (auto simp: vga_device_def)

lemma editor_loop_ok:
  assumes "disk_ok dk" "length name = 8" "length ext = 3"
  shows "vga_ok t \<Longrightarrow> yields_only (editor_loop dec fs name ext batches kb e t dk) session_ok"
proof (induction batches arbitrary: kb e t)
  case (Cons evs batches)
  let ?P = "\<lambda>r. case r of Inl (left, t, dk) \<Rightarrow> vga_ok t \<and> disk_ok dk | Inr (kb, e, t) \<Rightarrow> vga_ok t"
  have d: "yields_only (if redraw then draw vga_device e' t else Ret t) vga_ok" for redraw e'
    using draw_vga_ok [OF Cons.prems] Cons.prems by (simp add: yields_laws)
  have "yields_only (editor_round dec fs name ext evs kb e t dk) ?P"
    unfolding editor_round_def
    by (intro yields_laws yields_obind [OF clear_screen_vga_ok [OF Cons.prems]] yields_obind [OF editor_save_disk_ok [OF assms]]
        yields_obind [OF d]) auto
  then show ?case unfolding editor_loop.simps
    by (rule yields_obind) (auto simp: session_ok_simps yields_laws Cons.IH split: sum.splits)
qed (simp add: session_ok_simps yields_laws)


lemma run_editor_ok: "disk_ok dk \<Longrightarrow> vga_ok t \<Longrightarrow> yields_only (run_editor dec kb fs args batches t dk) session_ok"
  unfolding run_editor_def format_fat16_name_def Let_def
  by (intro yields_laws yields_obind [OF draw_vga_ok] editor_loop_ok) auto

lemma set_char_wf: "wf_vga buf \<Longrightarrow> yields_only (set_char x y c color buf) wf_vga"
  by (rule yields_returns [OF wf_set_char])

lemma draw_paddle_wf: "wf_vga buf \<Longrightarrow> yields_only (draw_paddle x y buf) wf_vga"
  unfolding draw_paddle_def by (rule yields_for_each) (intro yields_laws set_char_wf)

lemma pong_frame_wf: "wf_vga buf \<Longrightarrow> yields_only (pong_frame keys later g buf) (\<lambda>(res, left, g', b). wf_vga b)"
proof -
  assume w: "wf_vga buf"
  have c: "yields_only (canvas_clear b) wf_vga" if "wf_vga b" for b using wf_canvas_clear [OF that] by (rule yields_returns)
  have "yields_only (pong_draw g1 buf) wf_vga" for g1 unfolding pong_draw_def
    by (intro yields_obind [OF c [OF w]] yields_obind [OF draw_paddle_wf] yields_returns wf_set_char)
  then have u: "yields_only (pong_update g1 buf) (\<lambda>(g2, b). wf_vga b)" for g1
    unfolding pong_update_def by (intro yields_laws yields_obind [of "pong_draw _ _" wf_vga]) auto
  show ?thesis unfolding pong_frame_def
    by (intro yields_laws yields_obind [OF c] yields_obind [OF u]) (use w in \<open>auto intro!: yields_laws yields_obind [OF c]\<close>)
qed

lemma pong_run_wf: "wf_vga buf \<Longrightarrow> yields_only (pong_run batches g buf) (\<lambda>(res, left, g', b). wf_vga b)"
proof (induction batches arbitrary: g buf)
  case (Cons keys batches)
  show ?case unfolding pong_run.simps
    by (rule yields_obind [OF pong_frame_wf [OF Cons.prems]]) (auto simp: yields_laws Cons.IH split: option.split)
qed (simp add: yields_laws)

section \<open>The invariant\<close>

definition world_ok :: "world \<Rightarrow> bool" where
  "world_ok w \<longleftrightarrow> wf_writer (term_writer (w_term w)) \<and> disk_ok (w_disk w) \<and> bt_ok (w_commands w) \<and> wf_shell (w_shell w)"

text \<open>Programs that always return, where the invariant holds, and keep it.\<close>

definition always :: "(world \<Rightarrow> bool) \<Rightarrow> 'a kernel \<Rightarrow> bool" where
  "always I m \<longleftrightarrow> (\<forall>w. I w \<longrightarrow> (\<exists>x v. m w = Done x v \<and> I v))"

lemma alwaysD: "always I m \<Longrightarrow> I w \<Longrightarrow> \<exists>x v. m w = Done x v \<and> I v"
  by (simp add: always_def)

lemma always_keeps: "always I m \<Longrightarrow> keeps_inv I m"
  unfolding always_def agrees_def by (metis run.distinct(3) run.inject(1))

named_theorems always_laws

lemma always_steps [always_laws]:
  "always I (ret x)" "(\<And>w. I w \<Longrightarrow> I (f w)) \<Longrightarrow> always I (modify f)"
  by (auto simp: always_def modify_def)

lemma always_pbind [always_laws]:
  assumes "always I m" "\<And>x. always I (f x)"
  shows "always I (pbind m f)"
  unfolding always_def
proof (intro allI impI)
  fix w assume "I w"
  then obtain x v where "m w = Done x v" "I v" using assms(1) by (auto simp: always_def)
  then show "\<exists>y u. pbind m f w = Done y u \<and> I u" using assms(2) [of x] by (simp add: always_def)
qed

lemma always_get: "(\<And>w. I w \<Longrightarrow> always I (f w)) \<Longrightarrow> always I (pbind get_world f)"
  by (simp add: always_def get_world_def pbind_def)

lemma always_case [always_laws]:
  "(v = None \<Longrightarrow> always I a) \<Longrightarrow> (\<And>x. v = Some x \<Longrightarrow> always I (f x)) \<Longrightarrow> always I (case v of None \<Rightarrow> a | Some x \<Rightarrow> f x)"
  "(c \<Longrightarrow> always I t) \<Longrightarrow> (\<not> c \<Longrightarrow> always I u) \<Longrightarrow> always I (if c then t else u)"
  by (simp_all split: option.split)

lemma always_screen:
  assumes "\<And>x. wf_writer x \<Longrightarrow> \<exists>y. f x = Ret y \<and> wf_writer y"
  shows "always world_ok (on_screen f)"
  unfolding always_def
proof (intro allI impI)
  fix w assume w: "world_ok w"
  then obtain y where "f (term_writer (w_term w)) = Ret y" "wf_writer y" using assms by (auto simp: world_ok_def)
  then show "\<exists>x v. on_screen f w = Done x v \<and> world_ok v"
    using w by (simp add: on_screen_def get_world_def pbind_def on_writer_def modify_def world_ok_def)
qed

lemma screen_always [always_laws]:
  "always world_ok (w_print s)" "always world_ok (w_println s)" "always world_ok (on_screen delete_byte)"
  "always world_ok (on_screen writer_clear)"
  "always world_ok (on_screen (for_each (\<lambda>b. write_string (g b)) bs))"
  unfolding w_print_def w_println_def println_def
  by (rule always_screen, simp add: wf_write_string wf_delete_byte wf_writer_clear for_each_inv [OF wf_write_string])+

section \<open>Commands that always return\<close>

lemma simple_commands_always:
  "always world_ok cmd_clear" "always world_ok cmd_history" "always world_ok (cmd_echo args)"
  "always world_ok (cmd_read args)" "always world_ok (cmd_write args)" "always world_ok (format_disk args)"
  "always world_ok (cmd_bind args)"
proof -
  have "length (copy_at (replicate 512 0) 0 bytes) = 512" if "\<not> 512 < length bytes" for bytes :: "u8 list"
    using that by (subst length_copy_at) auto
  then show "always world_ok (cmd_write args)" unfolding cmd_write_def Let_def
    by (intro always_laws) (auto simp: world_ok_def disk_ok_write)
  have "disk_ok (snd (snd (format_drive dk)))" if "disk_ok dk" for dk
    using disk_ok_formatted [OF that] by (simp add: format_drive_def formatted_def)
  then show "always world_ok (format_disk args)" unfolding format_disk_def format_drive_def
    by (intro always_get) (auto simp: world_ok_def intro!: always_laws)
  show "always world_ok (cmd_bind args)" unfolding cmd_bind_def by (intro always_laws) (simp add: world_ok_def)
qed (unfold cmd_clear_def cmd_history_def cmd_echo_def cmd_read_def; intro always_laws always_get)+

section \<open>Commands that may end otherwise\<close>

lemma keeps_outcome:
  assumes "yields_only r P" "\<And>x. P x \<Longrightarrow> keeps_inv I (f x)"
  shows "keeps_inv I (pbind (lift_outcome r) f)"
  using assms by (intro agrees_outcome) (auto simp: yields_only_def)

lemmas println_keeps = always_keeps [OF screen_always(2)]

lemma show_keeps: "keeps_inv world_ok (cmd_show args)"
  unfolding cmd_show_def by (intro agree_laws println_keeps)

lemma put_disk_keeps: "disk_ok dk \<Longrightarrow> keeps_inv world_ok (modify (\<lambda>w. w\<lparr>w_disk := dk\<rparr>))"
  by (rule keeps_modify) (simp add: world_ok_def)

lemma make_file_keeps: "keeps_inv world_ok (make_file args)"
proof -
  have "keeps_inv world_ok (pbind (lift_outcome (write_new_file b (pad_upper 8 n) (pad_upper 3 e) bytes (w_disk w))) (\<lambda>(r, dk).
      pbind (modify (\<lambda>w. w\<lparr>w_disk := dk\<rparr>)) (\<lambda>_. case r of Inr u \<Rightarrow> ret (good u) | Inl e \<Rightarrow> ret (bad e))))"
    if "world_ok w" for w b n e bytes and good :: "unit \<Rightarrow> command_result" and bad
    by (rule keeps_outcome [OF write_new_file_disk_ok])
      (use that in \<open>auto simp: world_ok_def length_pad_upper intro!: agree_laws put_disk_keeps\<close>)
  then show ?thesis unfolding make_file_def Let_def by (intro agrees_case agrees_get) (auto intro!: agree_laws agrees_get)
qed

lemma edit_file_keeps: "keeps_inv world_ok (edit_file args)"
proof -
  have "keeps_inv world_ok (pbind (lift_outcome (overwrite_file b n e bytes (w_disk w))) (\<lambda>(r, dk).
      pbind (modify (\<lambda>w. w\<lparr>w_disk := dk\<rparr>)) (\<lambda>_. case r of Inr u \<Rightarrow> ret (good u) | Inl e \<Rightarrow> ret (bad e))))"
    if "world_ok w" for w b n e bytes and good :: "unit \<Rightarrow> command_result" and bad
    by (rule keeps_outcome [OF overwrite_file_disk_ok])
      (use that in \<open>auto simp: world_ok_def intro!: agree_laws put_disk_keeps\<close>)
  then show ?thesis unfolding edit_file_def Let_def by (intro agrees_case agrees_get) (auto intro!: agree_laws agrees_get)
qed

lemma cat_file_keeps: "keeps_inv world_ok (cat_file args)"
proof -
  have "keeps_inv world_ok (fetch_file b n e)" for b n e unfolding fetch_file_def by (intro agree_laws)
  then show ?thesis unfolding cat_file_def by (intro agree_laws println_keeps)
qed

lemma put_batches_ok [simp]: "world_ok (put_batches left w) = world_ok w"
  by (simp add: put_batches_def world_ok_def split: list.split)

lemma run_edit_keeps: "keeps_inv world_ok (run_edit d args)"
proof -
  have "keeps_inv world_ok (case r of Inr x \<Rightarrow> unfinished | Inl (left, t, dk) \<Rightarrow>
      pbind (modify (\<lambda>w. put_batches left (w\<lparr>w_term := t, w_disk := dk\<rparr>))) (\<lambda>_. ret (succeeded ''Worked'' False)))"
    if "session_ok r" for r :: "(key_event list list \<times> vga_terminal \<times> disk) + ('a \<times> editor \<times> vga_terminal)"
    using that
    by (cases r) (auto simp: session_ok_simps agree_laws intro!: agree_laws keeps_modify, simp add: world_ok_def vga_ok_def)
  then show ?thesis unfolding run_edit_def
    by (intro agrees_get keeps_outcome [OF run_editor_ok]) (auto simp: world_ok_def vga_ok_def)
qed

lemma cmd_pong_keeps: "keeps_inv world_ok cmd_pong"
proof -
  have m: "keeps_inv world_ok (modify (\<lambda>w. w\<lparr>w_launch_pong := True\<rparr>))" by (rule keeps_modify) (simp add: world_ok_def)
  have "keeps_inv world_ok (modify (\<lambda>w. put_batches left
      (w\<lparr>w_term := (w_term w)\<lparr>term_writer := (term_writer (w_term w))\<lparr>buffer := buf\<rparr>\<rparr>, w_launch_pong := False\<rparr>)))"
    if "wf_vga buf" for left buf
    using that by (intro keeps_modify) (simp only: put_batches_ok, simp add: world_ok_def wf_writer_def)
  then have "keeps_inv world_ok ((\<lambda>(res, left, g, buf). case res of None \<Rightarrow> unfinished | Some msg \<Rightarrow>
      pbind (modify (\<lambda>w. put_batches left
      (w\<lparr>w_term := (w_term w)\<lparr>term_writer := (term_writer (w_term w))\<lparr>buffer := buf\<rparr>\<rparr>, w_launch_pong := False\<rparr>))) (\<lambda>_.
      ret (succeeded msg True))) x)" if "(\<lambda>(res, left, g, b). wf_vga b) x" for x :: "string option \<times> key_event list list \<times> pong_game \<times> vga"
    using that by (auto intro!: agree_laws split: prod.split)
  then show ?thesis unfolding cmd_pong_def
    by (intro agrees_pbind [OF m] agrees_get keeps_outcome [OF pong_run_wf]) (auto simp: world_ok_def wf_writer_def)
qed

lemma cmd_quit_keeps: "keeps_inv world_ok cmd_quit"
proof -
  have s: "yields_only (shutdown t) (\<lambda>(events, t'). wf_writer t')" if "wf_writer t" for t
    using wf_write_string [OF that] unfolding shutdown_def println_def Let_def
    by (intro yields_obind [OF yields_returns]) (auto intro!: yields_laws)
  have "keeps_inv world_ok ((\<lambda>(events, t) w. Powered_Off (w\<lparr>w_term := (w_term w)\<lparr>term_writer := t\<rparr>, w_machine := w_machine w @ events\<rparr>)) x
      :: command_result kernel)"
    if "(\<lambda>(events, t'). wf_writer t') x" for x
    using that by (auto simp: agrees_def world_ok_def split: prod.split)
  then show ?thesis unfolding cmd_quit_def
    by (intro agrees_pbind [OF println_keeps] agrees_get keeps_outcome [OF s]) (auto simp: world_ok_def)
qed

section \<open>The shell keeps the invariant\<close>

lemma shell_key_always: "always world_ok (shell_key k)"
  unfolding shell_key_def
  by (cases k) (auto simp: world_ok_def shell_add_chars(1) shell_backspace_chars(1) intro!: always_laws)

lemma yield_always: "always world_ok yield_now"
  unfolding yield_now_def by (rule always_steps) (auto simp: world_ok_def split: list.split)

interpretation kernel_state: kernel_contract world_ok d
proof
  fix c :: command and interp args
  show "\<not> calls_interp c \<Longrightarrow> keeps_inv world_ok (exec_command d interp c args)"
    by (cases c) (simp_all add: calls_interp_def always_keeps simple_commands_always show_keeps make_file_keeps edit_file_keeps
        cat_file_keeps run_edit_keeps cmd_pong_keeps cmd_quit_keeps)
  show "keeps_inv world_ok (modify (\<lambda>w. w\<lparr>w_shell := shell_clear (w_shell w)\<rparr>))"
    by (rule keeps_modify) (simp add: world_ok_def shell_clear_wf)
  show "keeps_inv world_ok (modify (\<lambda>w. w\<lparr>w_keys := []\<rparr>))" "keeps_inv world_ok (modify (\<lambda>w. w\<lparr>w_pending := False\<rparr>))"
    by (rule keeps_modify, simp add: world_ok_def)+
qed (simp_all add: always_keeps always_laws shell_key_always yield_always)

text \<open>
  C6: the kernel's state stays well formed. Through any number of rounds of the shell, whatever is typed, whichever
  commands run, Lisp programs, the editor and the game included, the screen stays 25 rows of 80 cells with the
  cursor in them, every sector of the disk keeps its 512 bytes, the command table stays ordered and the line
  valid text; also when the machine is switched off.
\<close>

theorem shell_keeps_world_ok:
  assumes "world_ok w"
  shows "(\<forall>kb w'. shell_task k n d w = Done kb w' \<longrightarrow> world_ok w') \<and> (\<forall>w'. shell_task k n d w = Powered_Off w' \<longrightarrow> world_ok w')"
  unfolding shell_task_def
  using agreesD(2) [OF kernel_state.shell_rounds_agree [OF order_refl] assms]
    agreesD(3) [OF kernel_state.shell_rounds_agree [OF order_refl] assms]
  by (intro conjI allI impI)



section \<open>A state to start from\<close>

definition start_world :: world where
  "start_world = \<lparr>w_term = \<lparr>term_writer = blank_writer, crtc_index = 0, crtc_regs = (\<lambda>_. 0)\<rparr>, w_shell = shell_init, w_fs = None,
     w_disk = blank, w_commands = init_cmds [], w_keys = [], w_arrivals = [], w_pending = False, w_launch_pong = False, w_machine = []\<rparr>"

definition deaf_decoder :: "unit decoder" where
  "deaf_decoder = \<lparr>dec_new = (), dec_step = (\<lambda>k _. (None, k))\<rparr>"

lemma dec_new_deaf: "dec_new deaf_decoder = ()"
  by simp

lemma init_cmds_ok: "bt_ok c \<Longrightarrow> bt_ok (init_cmds c)"
  unfolding init_cmds_def using bt.ok_ins_all by (simp add: bt.ins_all_def del: fold_simps)

lemma start_world_ok: "world_ok start_world"
  by (simp add: world_ok_def start_world_def wf_blank_writer disk_ok_blank init_cmds_ok wf_shell_init)

text \<open>The same once Enter is pressed on an empty line.\<close>

definition entered_world :: world where
  "entered_world = start_world\<lparr>w_pending := True\<rparr>"

lemma entered_world_ok: "world_ok entered_world"
  using start_world_ok by (simp add: entered_world_def world_ok_def)

lemma empty_line_round: "\<exists>w'. shell_task 1 n deaf_decoder entered_world = Done () w'"
proof -
  let ?w = "start_world"
  define u where "u = ?w\<lparr>w_shell := shell_clear (w_shell ?w)\<rparr>"
  have f: "w_shell ?w = shell_init" "w_keys entered_world = []" "w_pending entered_world" "entered_world\<lparr>w_keys := []\<rparr> = entered_world"
    by (simp_all add: entered_world_def start_world_def)
  have "world_ok u" using start_world_ok shell_clear_wf [OF wf_shell_init] by (simp add: u_def f world_ok_def)
  from alwaysD [OF screen_always(1) this, of "''> ''"] obtain v where v: "w_print ''> '' u = Done () v" by auto
  have "getcmd (w_shell ?w) = None" unfolding f by (simp add: getcmd_def shell_init_def)
  then have l: "run_line n deaf_decoder ?w = Done () v"
    using v by (simp add: run_line_def get_world_def modify_def pbind_def u_def)
  have "drain_keys deaf_decoder () entered_world = Done () entered_world"
    by (simp add: drain_keys_def pbind_def get_world_def modify_def f)
  moreover have "entered_world\<lparr>w_pending := False\<rparr> = start_world" by (simp add: entered_world_def start_world_def)
  ultimately have "shell_round n deaf_decoder () entered_world = pbind (run_line n deaf_decoder) (\<lambda>_. pbind yield_now (\<lambda>_. ret ())) ?w"
    by (simp add: shell_round_def pbind_def get_world_def modify_def f)
  also have "\<dots> = Done () (case w_arrivals v of [] \<Rightarrow> v | b # later \<Rightarrow> v\<lparr>w_keys := w_keys v @ b, w_arrivals := later\<rparr>)"
    using l by (simp add: pbind_def yield_now_def modify_def)
  finally have r: "\<exists>w'. shell_round n deaf_decoder () entered_world = Done () w'" by blast
  have "shell_rounds 0 n deaf_decoder = ret" by (rule ext) simp
  then have "shell_task 1 n deaf_decoder = shell_round n deaf_decoder ()"
    by (simp add: shell_task_def dec_new_deaf)
  then show ?thesis using r by simp
qed

theorem shell_keeps_world_ok_witness:
  "\<exists>w'. shell_task 1 5 deaf_decoder entered_world = Done () w' \<and> world_ok w'"
  using empty_line_round [of 5] shell_keeps_world_ok [OF entered_world_ok, of 1 5 deaf_decoder] by blast



end
