(* ===== verification/Typing.thy ===== *)
theory Typing
  imports World_Inv
begin

text \<open>
  The shell's task from the keys to the command: the queued events are decoded, echoed and collected into the line,
  and Enter runs it (\<^verbatim>\<open>commands.rs\<close>, \<^verbatim>\<open>shell.rs\<close>).
\<close>

section \<open>Typing a line\<close>

text \<open>The keys a decoder makes of a list of events.\<close>

primrec decoded_keys :: "'k decoder \<Rightarrow> 'k \<Rightarrow> key_event list \<Rightarrow> decoded_key list \<times> 'k" where
  "decoded_keys d kb [] = ([], kb)"
| "decoded_keys d kb (ev # evs) = (case dec_step d kb ev of (key, kb1) \<Rightarrow>
     (case decoded_keys d kb1 evs of (keys, kb2) \<Rightarrow> ((case key of None \<Rightarrow> keys | Some k \<Rightarrow> k # keys), kb2)))"

primrec press :: "decoded_key list \<Rightarrow> unit kernel" where
  "press [] = ret ()"
| "press (k # ks) = pbind (shell_key k) (\<lambda>_. press ks)"

lemma shell_events_press:
  "shell_events d evs kb = (case decoded_keys d kb evs of (keys, kb') \<Rightarrow> pbind (press keys) (\<lambda>_. ret kb'))"
  by (induction evs arbitrary: kb) (auto simp: pbind_assoc pbind_ret split: prod.splits option.splits)

text \<open>The world once a line is echoed and kept.\<close>

definition echoed :: "string \<Rightarrow> writer \<Rightarrow> world \<Rightarrow> world" where
  "echoed s t w = w\<lparr>w_term := (w_term w)\<lparr>term_writer := t\<rparr>,
     w_shell := (w_shell w)\<lparr>current_cmd := current_cmd (w_shell w) @ s\<rparr>\<rparr>"

lemma print_world:
  assumes "wf_writer (term_writer (w_term w))"
  shows "\<exists>t. write_string s (term_writer (w_term w)) = Ret t \<and> wf_writer t
    \<and> w_print s w = Done () (w\<lparr>w_term := (w_term w)\<lparr>term_writer := t\<rparr>\<rparr>)"
  using wf_write_string [OF assms, of s]
  by (auto simp: w_print_def on_screen_def get_world_def pbind_def on_writer_def modify_def)

definition typeable :: "char \<Rightarrow> bool" where
  "typeable c \<longleftrightarrow> 32 \<le> (of_char c :: nat) \<and> (of_char c :: nat) < 127"

lemma shell_key_typeable:
  assumes "wf_writer (term_writer (w_term w))" "typeable c"
  shows "\<exists>t. write_string [c] (term_writer (w_term w)) = Ret t \<and> wf_writer t
    \<and> shell_key (Unicode (of_char c)) w = Done () (echoed [c] t w)"
proof -
  have n: "(of_char c :: nat) < 128" "(of_char c :: nat) \<noteq> 8" "(of_char c :: nat) \<noteq> 10" using assms(2) by (auto simp: typeable_def)
  then have e: "encode_utf8 (of_char c) = [c]" "encode_utf8 (unat (of_nat (of_char c) :: u8)) = [c]"
    by (simp_all add: encode_ascii unat_of_nat)
  show ?thesis using print_world [OF assms(1), of "[c]"] n
    by (auto simp: shell_key_def e shell_add_def modify_def echoed_def pbind_def)
qed

lemma press_line:
  assumes "wf_writer (term_writer (w_term w))" "\<forall>c\<in>set line. typeable c"
  shows "\<exists>t. write_string line (term_writer (w_term w)) = Ret t \<and> wf_writer t
    \<and> press (map (\<lambda>c. Unicode (of_char c)) line @ ks) w = press ks (echoed line t w)"
  using assms
proof (induction line arbitrary: w)
  case Nil
  then show ?case by (auto simp: write_string_def echoed_def)
next
  case (Cons c line)
  obtain t where t: "write_string [c] (term_writer (w_term w)) = Ret t" "wf_writer t"
    "shell_key (Unicode (of_char c)) w = Done () (echoed [c] t w)"
    using shell_key_typeable [of w c] Cons.prems by auto
  from Cons.IH [of "echoed [c] t w"] Cons.prems t(2) obtain u where
    u: "write_string line t = Ret u" "wf_writer u"
      "press (map (\<lambda>c. Unicode (of_char c)) line @ ks) (echoed [c] t w) = press ks (echoed line u (echoed [c] t w))"
    by (auto simp: echoed_def)
  have e: "echoed line u (echoed [c] t w) = echoed (c # line) u w" by (simp add: echoed_def)
  have "write_string (c # line) (term_writer (w_term w)) = Ret u"
    using t(1) u(1) write_string_append [of "[c]" line] by simp
  then show ?case using u(2,3) t(3) by (simp add: e)
qed

lemma set_join: "set (join sep ws) \<subseteq> set sep \<union> \<Union> (set ` set ws)"
  by (induction sep ws rule: join.induct) auto

lemma join_typeable:
  assumes "\<forall>x\<in>set ws. plain_word x"
  shows "\<forall>c\<in>set (join '' '' ws). typeable c"
proof
  fix c assume "c \<in> set (join '' '' ws)"
  then consider "c = CHR '' ''" | x where "x \<in> set ws" "c \<in> set x" using set_join [of "'' ''" ws] by auto
  then show "typeable c" using assms by cases (force simp: plain_word_def typeable_def)+
qed

lemma trim_plain: "plain_word x \<Longrightarrow> trim x = x"
proof -
  assume x: "plain_word x"
  then have a: "ascii x" by (fastforce simp: plain_word_def ascii_def)
  have "\<forall>c\<in>set x. \<not> is_whitespace (of_char c)" using x by (fastforce simp: plain_word_def is_whitespace_def)
  then have "dropWhile is_whitespace (map of_char y) = map of_char y" if "set y = set x" for y
    using that by (cases y) auto
  from this [of x] this [of "rev x"] show ?thesis using a
    by (simp add: trim_def trim_by_def chars_ascii of_chars_ascii rev_map)
qed

text \<open>
  What is typed is what runs: when the queued key events decode to the characters of some words, with single spaces
  between them, and Enter, one round of the shell echoes the line, files it in the history, runs exactly those words
  as a command, reports the result, prompts again and lets the other tasks run.
\<close>

theorem typed_line_runs:
  assumes "world_ok w" and "current_cmd (w_shell w) = ''''"
    and "decoded_keys d kb (w_keys w) = (map (\<lambda>c. Unicode (of_char c)) (join '' '' words) @ [Unicode 10], kb')"
    and "words \<noteq> []" and "\<forall>x\<in>set words. plain_word x"
  shows "\<exists>t. write_string (join '' '' words @ [newline]) (term_writer (w_term w)) = Ret t
    \<and> shell_round n d kb w
      = pbind (run_cmd n d words) (\<lambda>r. pbind (report r) (\<lambda>_. pbind (w_print ''> '') (\<lambda>_. pbind yield_now (\<lambda>_. ret kb'))))
        (w\<lparr>w_term := (w_term w)\<lparr>term_writer := t\<rparr>, w_shell := \<lparr>current_cmd = '''', past_cmd = past_cmd (w_shell w) @ [words]\<rparr>,
           w_keys := [], w_pending := False\<rparr>)"
proof -
  let ?line = "join '' '' words" and ?w = "w\<lparr>w_keys := []\<rparr>"
  have wf: "wf_writer (term_writer (w_term ?w))" using assms(1) by (simp add: world_ok_def)
  obtain t where t: "write_string ?line (term_writer (w_term w)) = Ret t" "wf_writer t"
    "press (map (\<lambda>c. Unicode (of_char c)) ?line @ [Unicode 10]) ?w = press [Unicode 10] (echoed ?line t ?w)"
    using press_line [OF wf join_typeable [OF assms(5)], of "[Unicode 10]"] by auto
  obtain u where u: "write_string [newline] t = Ret u"
    "w_print [newline] (echoed ?line t ?w) = Done () (echoed ?line u ?w)"
    using print_world [of "echoed ?line t ?w" "[newline]"] t(2) by (auto simp: echoed_def)
  have "drain_keys d kb w = Done kb' ((echoed ?line u ?w)\<lparr>w_pending := True\<rparr>)"
    using t(3) u(2) by (simp add: drain_keys_def get_world_def modify_def pbind_def shell_events_press assms(3) shell_key_def)
  moreover have g: "getcmd (w_shell (echoed ?line u ?w)) = Some words"
    using assms(2) command_line_words [OF assms(4,5)] by (simp add: echoed_def)
  moreover have "plain_word (words ! 0)" using assms(4,5) by simp
  then have "trim (words ! 0) \<noteq> []" using trim_plain [of "words ! 0"] by (simp add: plain_word_def)
  ultimately have "shell_round n d kb w = pbind (run_cmd n d words) (\<lambda>r. pbind (report r) (\<lambda>_. pbind (w_print ''> '') (\<lambda>_.
      pbind yield_now (\<lambda>_. ret kb')))) ((echoed ?line u ?w)\<lparr>w_pending := False, w_shell := shell_clear (w_shell (echoed ?line u ?w))\<rparr>)"
    by (simp add: shell_round_def run_line_def get_world_def modify_def pbind_assoc) (simp add: pbind_def assms(4))
  moreover have "(echoed ?line u ?w)\<lparr>w_pending := False, w_shell := shell_clear (w_shell (echoed ?line u ?w))\<rparr>
      = w\<lparr>w_term := (w_term w)\<lparr>term_writer := u\<rparr>, w_shell := \<lparr>current_cmd = '''', past_cmd = past_cmd (w_shell w) @ [words]\<rparr>,
          w_keys := [], w_pending := False\<rparr>"
    unfolding shell_clear_def g by (rule world.equality) (simp_all add: echoed_def)
  ultimately show ?thesis using t(1) u(1) by (simp add: write_string_append)
qed

end
