(* ===== verification/Keystrokes.thy ===== *)
theory Keystrokes
  imports Typing
begin

text \<open>
  From the keyboard's interrupts to the command that runs: scancodes are queued by the interrupt handler
  (\<^verbatim>\<open>interrupts.rs\<close>), decoded by the keyboard task (\<^verbatim>\<open>task/keyboard.rs\<close>) and taken by the shell (\<^verbatim>\<open>commands.rs\<close>).
\<close>

section \<open>The interrupts\<close>

text \<open>A sequence of keyboard interrupts, with the machine's events.\<close>

definition key_interrupt_at :: "(u8, 'q) queue_ops \<Rightarrow> 'v waker_ops \<Rightarrow> u8 \<Rightarrow> 'q option \<times> 'v \<times> writer \<times> machine_event list
    \<Rightarrow> ('q option \<times> 'v \<times> writer \<times> machine_event list) outcome" where
  "key_interrupt_at Q A scancode st = (case st of (queue, waker, w, events) \<Rightarrow>
     obind (keyboard_interrupt_handler Q A scancode queue waker w) (\<lambda>(queue', waker', w', more). Ret (queue', waker', w', events @ more)))"

lemma interrupts_queue:
  assumes Q: "bounded_fifo Q items capacity"
  shows "length (items q) + length scs \<le> capacity q \<Longrightarrow> \<exists>q' v'. for_each (key_interrupt_at Q A) scs (Some q, v, w, events)
      = Ret (Some q', v', w, events @ replicate (length scs) (End_Of_Interrupt (index_u8 Irq_Keyboard)))
    \<and> items q' = items q @ scs \<and> capacity q' = capacity q"
proof (induction scs arbitrary: q v events)
  case (Cons sc scs)
  obtain q1 where q1: "q_push Q sc q = Some q1" "items q1 = items q @ [sc]" "capacity q1 = capacity q"
    using fifo_push [OF Q, of q sc] Cons.prems by auto
  obtain woken v1 where v1: "aw_wake A v = (woken, v1)" by fastforce
  have "key_interrupt_at Q A sc (Some q, v, w, events) = Ret (Some q1, v1, w, events @ [End_Of_Interrupt (index_u8 Irq_Keyboard)])"
    using q1(1) v1 by (simp add: key_interrupt_at_def keyboard_interrupt_handler_def add_scancode_def scancode_warning_def)
  then show ?case using Cons.IH [of q1 v1 "events @ [End_Of_Interrupt (index_u8 Irq_Keyboard)]"] Cons.prems q1(2,3) by simp
qed simp

section \<open>The keyboard task\<close>

lemma keyboard_poll_drains:
  assumes Q: "bounded_fifo Q items capacity"
  shows "length (items q) < n \<Longrightarrow> decode_all add_byte (items q) kb events = (kb', events')
    \<Longrightarrow> \<exists>q'. keyboard_poll n Q A add_byte (Some q) v kb events = Ret (Some q', aw_register A v, kb', events') \<and> items q' = []
      \<and> capacity q' = capacity q"
proof (induction n arbitrary: q kb events)
  case (Suc n)
  show ?case
  proof (cases "q_pop Q q")
    case None
    then show ?thesis using fifo_pop_None [OF Q, of q] Suc.prems by (simp add: poll_next_def Let_def)
  next
    case (Some r)
    obtain sc q1 where r: "r = (sc, q1)" by fastforce
    note p = fifo_pop_Some [OF Q Some [unfolded r]]
    obtain res kb1 where a: "add_byte kb sc = (res, kb1)" by fastforce
    have "length (items q1) < n" using Suc.prems(1) p(1) by simp
    from Suc.IH [OF this, of kb1] show ?thesis
      using Suc.prems(2) p Some r a by (auto simp: poll_next_def split: sum.splits option.splits)
  qed
qed simp

section \<open>Properties\<close>

text \<open>
  Keystrokes run commands. Let up to 100 scancodes arrive while nothing else is queued, and let them decode to the
  keys of some words with single spaces and Enter. Then every interrupt is acknowledged and prints nothing, one poll of
  the keyboard task empties the scancode queue and registers its waker again, and the next round of the shell runs
  exactly those words.
\<close>

theorem keystrokes_run_command:
  assumes "bounded_fifo Q items capacity" and "length scancodes \<le> 100"
    and "decode_all add_byte scancodes kbd [] = (kbd', events)"
    and "decoded_keys d kb events = (map (\<lambda>c. Unicode (of_char c)) (join '' '' words) @ [Unicode 10], kb')"
    and "words \<noteq> []" and "\<forall>x\<in>set words. plain_word x" and "world_ok w" and "current_cmd (w_shell w) = ''''"
  shows "\<exists>q v q' t. for_each (key_interrupt_at Q A) scancodes (Some (q_new Q 100), v0, term_writer (w_term w), [])
        = Ret (Some q, v, term_writer (w_term w), replicate (length scancodes) (End_Of_Interrupt 33))
    \<and> keyboard_poll 101 Q A add_byte (Some q) v kbd [] = Ret (Some q', aw_register A v, kbd', events) \<and> items q' = []
    \<and> shell_round n d kb (w\<lparr>w_keys := events\<rparr>)
      = pbind (run_cmd n d words) (\<lambda>r. pbind (report r) (\<lambda>_. pbind (w_print ''> '') (\<lambda>_. pbind yield_now (\<lambda>_. ret kb'))))
        (w\<lparr>w_term := (w_term w)\<lparr>term_writer := t\<rparr>, w_shell := \<lparr>current_cmd = '''', past_cmd = past_cmd (w_shell w) @ [words]\<rparr>,
           w_keys := [], w_pending := False\<rparr>)"
proof -
  have i: "index_u8 Irq_Keyboard = 33" by (simp add: PIC_1_OFFSET_def)
  obtain q v where q: "for_each (key_interrupt_at Q A) scancodes (Some (q_new Q 100), v0, term_writer (w_term w), [])
      = Ret (Some q, v, term_writer (w_term w), replicate (length scancodes) (End_Of_Interrupt 33))" "items q = scancodes"
    using interrupts_queue [OF assms(1), of "q_new Q 100" scancodes A v0 "term_writer (w_term w)" "[]"] assms(2)
      fifo_new [OF assms(1), of 100] unfolding i by auto
  obtain q' where "keyboard_poll 101 Q A add_byte (Some q) v kbd [] = Ret (Some q', aw_register A v, kbd', events)" "items q' = []"
    using keyboard_poll_drains [OF assms(1), of q 101 add_byte kbd "[]" kbd' events A v] q(2) assms(2,3) by auto
  moreover have "world_ok (w\<lparr>w_keys := events\<rparr>)" using assms(7) by (simp add: world_ok_def)
  ultimately show ?thesis using q(1) typed_line_runs [of "w\<lparr>w_keys := events\<rparr>" d kb words kb' n] assms(4-6,8) by auto
qed

text \<open>Decoders for a keyboard whose scancodes are characters.\<close>

definition plain_scancodes :: "unit \<Rightarrow> u8 \<Rightarrow> (unit + key_event option) \<times> unit" where
  "plain_scancodes kb sc = (Inr (Some \<lparr>key_code = Other_Key (unat sc), key_state = Down\<rparr>), ())"

definition typist :: "unit decoder" where
  "typist = \<lparr>dec_new = (), dec_step = (\<lambda>k ev. (case key_code ev of Other_Key c \<Rightarrow> Some (Unicode c) | key \<Rightarrow> Some (RawKey key), k))\<rparr>"

theorem keystrokes_run_command_witness:
  "\<exists>q v q' t events. for_each (key_interrupt_at list_queue flag_waker) (map of_char ''cat a.b'' @ [10])
        (Some (q_new list_queue 100), False, blank_writer, []) = Ret (Some q, v, blank_writer, replicate 8 (End_Of_Interrupt 33))
    \<and> keyboard_poll 101 list_queue flag_waker plain_scancodes (Some q) v () [] = Ret (Some q', aw_register flag_waker v, (), events)
    \<and> shell_round 7 typist () (start_world\<lparr>w_keys := events\<rparr>)
      = pbind (run_cmd 7 typist [''cat'', ''a.b'']) (\<lambda>r. pbind (report r) (\<lambda>_. pbind (w_print ''> '') (\<lambda>_. pbind yield_now (\<lambda>_. ret ()))))
        (start_world\<lparr>w_term := (w_term start_world)\<lparr>term_writer := t\<rparr>,
           w_shell := \<lparr>current_cmd = '''', past_cmd = [[''cat'', ''a.b'']]\<rparr>, w_keys := [], w_pending := False\<rparr>)"
proof -
  let ?scs = "map of_char ''cat a.b'' @ [10] :: u8 list"
  let ?evs = "map (\<lambda>sc. \<lparr>key_code = Other_Key (unat sc), key_state = Down\<rparr>) ?scs"
  have f: "w_shell start_world = shell_init" "term_writer (w_term start_world) = blank_writer" by (simp_all add: start_world_def)
  have j: "join '' '' [''cat'', ''a.b''] = ''cat a.b''" by code_simp
  have e: "decode_all plain_scancodes ?scs () [] = ((), ?evs)" by (simp add: plain_scancodes_def push_key_def)
  have k: "decoded_keys typist () ?evs = (map (\<lambda>c. Unicode (of_char c)) (join '' '' [''cat'', ''a.b'']) @ [Unicode 10], ())"
    unfolding j by (simp add: typist_def)
  have p: "\<forall>x\<in>set [''cat'', ''a.b'']. plain_word x" by (simp add: plain_word_def)
  have s: "current_cmd (w_shell start_world) = ''''" by (simp add: f shell_init_def)
  have l: "length ?scs \<le> 100" "length ?scs = 8" by simp_all
  have h: "past_cmd shell_init @ [[''cat'', ''a.b'']] = [[''cat'', ''a.b'']]" by (simp add: shell_init_def)
  from keystrokes_run_command [OF list_queue_fifo l(1) e k _ p start_world_ok s, of flag_waker False 7] show ?thesis
    unfolding f l(2) h by blast
qed

end
