(* ===== verification/Sessions.thy ===== *)
theory Sessions
  imports Typing
begin

text \<open>
  What the user of the shell sees, through the components: a file made by one command is shown by another, switching off
  flushes the disk first, and one line crashes the kernel.
\<close>

section \<open>Running one command\<close>

lemma run_known_command:
  assumes "bt_get (hd cmd) (w_commands w) = Some c" "cmd \<noteq> []" "\<not> calls_interp c"
  shows "run_cmd (Suc n) d cmd w = pbind (exec_command d interp c cmd) (\<lambda>r.
    ret (case r of Inl e \<Rightarrow> Call_Failed (error_code e) | Inr s \<Rightarrow> Call_Done s)) w"
proof -
  have "exec_command d (\<lambda>expr. pbind get_world (\<lambda>w. interpret_expr n \<lparr>host_run = run_cmd n d, host_println = w_println\<rparr>
      (get_command_list w) expr)) c cmd = exec_command d interp c cmd"
    using assms(3) by (cases c) (simp_all add: calls_interp_def)
  moreover have "pbind get_world f w = f w w" for f :: "world \<Rightarrow> call_result kernel" by (simp add: pbind_def get_world_def)
  ultimately show ?thesis using assms(1,2) by simp
qed

lemma println_world:
  assumes "world_ok w"
  shows "\<exists>t. println s (term_writer (w_term w)) = Ret t \<and> wf_writer t
    \<and> w_println s w = Done () (w\<lparr>w_term := (w_term w)\<lparr>term_writer := t\<rparr>\<rparr>)"
  using print_world [of w "s @ [newline]"] assms by (simp add: world_ok_def println_def w_print_def w_println_def)

section \<open>Files\<close>

lemma fetch_written:
  assumes "fs_inv b (w_disk w)" "files b (w_disk w) (pad_upper 8 name, pad_upper 3 ext) = Some bytes"
  shows "fetch_file b name ext w = Done (Some bytes) w"
  using vol.present [OF assms] by (auto simp: fetch_file_def get_world_def pbind_def)

lemma cat_shows:
  assumes "world_ok w" "w_fs w = Some b" "fs_inv b (w_disk w)" "split_dot tok = Some (name, ext)" "utf8 text"
    "files b (w_disk w) (pad_upper 8 name, pad_upper 3 ext) = Some (as_bytes text)"
  shows "\<exists>t. obind (println (''--- '' @ name @ '' ---'') (term_writer (w_term w))) (\<lambda>t1. obind (println text t1) (println ''------------'')) = Ret t
    \<and> cat_file [''cat'', tok] w = Done (succeeded ''File read successfully'' False) (w\<lparr>w_term := (w_term w)\<lparr>term_writer := t\<rparr>\<rparr>)"
proof -
  let ?put = "\<lambda>t. w\<lparr>w_term := (w_term w)\<lparr>term_writer := t\<rparr>\<rparr>"
  have ok: "world_ok (?put t)" if "wf_writer t" for t using assms(1) that by (simp add: world_ok_def)
  obtain t1 where t1: "println (''--- '' @ name @ '' ---'') (term_writer (w_term w)) = Ret t1" "wf_writer t1"
    "w_println (''--- '' @ name @ '' ---'') w = Done () (?put t1)" using println_world [OF assms(1)] by blast
  obtain t2 where t2: "println text t1 = Ret t2" "wf_writer t2" "w_println text (?put t1) = Done () (?put t2)"
    using println_world [OF ok [OF t1(2)], of "text"] by auto
  obtain t3 where t3: "println ''------------'' t2 = Ret t3" "w_println ''------------'' (?put t2) = Done () (?put t3)"
    using println_world [OF ok [OF t2(2)], of "''------------''"] by auto
  have "resolve_name_ext [''cat'', tok] 1 = Some (name, ext, 2)" using assms(4) by (simp add: resolve_name_ext_def)
  then have "cat_file [''cat'', tok] w = Done (succeeded ''File read successfully'' False) (?put t3)"
    using fetch_written [OF assms(3,6)] t1(3) t2(3) t3(2) assms(2,5)
    by (simp add: cat_file_def get_world_def pbind_def from_utf8_as_bytes)
  then show ?thesis using t1(1) t2(1) t3(1) by simp
qed

lemma mkdir_makes:
  assumes "w_fs w = Some b" "fs_inv b (w_disk w)" "bt_get ''mkdir'' (w_commands w) = Some Cmd_Mkdir"
    "split_dot tok = Some (name, ext)" "name_ok (pad_upper 8 name) (pad_upper 3 ext)"
    "find_file b (w_disk w) (pad_upper 8 name) (pad_upper 3 ext) = Ret None" "words \<noteq> []"
    "room_for b (w_disk w) (pad_upper 8 name) (pad_upper 3 ext) (length (join '' '' words))"
  obtains s dk where "run_cmd (Suc n) d (''mkdir'' # tok # words) w = Done (Call_Done s) (w\<lparr>w_disk := dk\<rparr>)"
    "fs_inv b dk" "same_boot b (w_disk w) dk"
    "files b dk = (files b (w_disk w))((pad_upper 8 name, pad_upper 3 ext) \<mapsto> as_bytes (join '' '' words))"
proof -
  let ?name = "pad_upper 8 name" and ?ext = "pad_upper 3 ext" and ?text = "join '' '' words"
  have "room_for b (w_disk w) ?name ?ext (length (as_bytes ?text))" using assms(8) by (simp add: as_bytes_def)
  from vol.create_new [OF assms(2,6,5) this] obtain dk
    where dk: "write_new_file b ?name ?ext (as_bytes ?text) (w_disk w) = Ret (Inr (), dk)" "fs_inv b dk"
      "files b dk = (files b (w_disk w))((?name, ?ext) \<mapsto> as_bytes ?text)" .
  have r: "resolve_name_ext (''mkdir'' # tok # words) 1 = Some (name, ext, 2)" using assms(4) by (simp add: resolve_name_ext_def)
  have "\<exists>s. make_file (''mkdir'' # tok # words) w = Done (Inr s) (w\<lparr>w_disk := dk\<rparr>)"
    using r dk(1) assms(1,7) by (simp add: make_file_def get_world_def pbind_def modify_def succeeded_def Let_def)
  then obtain s where "make_file (''mkdir'' # tok # words) w = Done (Inr s) (w\<lparr>w_disk := dk\<rparr>)" by blast
  then have "run_cmd (Suc n) d (''mkdir'' # tok # words) w = Done (Call_Done s) (w\<lparr>w_disk := dk\<rparr>)"
    using run_known_command [of "''mkdir'' # tok # words" w Cmd_Mkdir n d] assms(3) by (simp add: calls_interp_def pbind_def)
  then show ?thesis using that dk(2,3) write_new_file_boot [OF assms(2) dk(1)] by blast
qed

lemma cat_runs:
  assumes "world_ok w" "w_fs w = Some b" "fs_inv b (w_disk w)" "bt_get ''cat'' (w_commands w) = Some Cmd_Cat"
    "split_dot tok = Some (name, ext)" "utf8 text"
    "files b (w_disk w) (pad_upper 8 name, pad_upper 3 ext) = Some (as_bytes text)"
  shows "\<exists>t. obind (println (''--- '' @ name @ '' ---'') (term_writer (w_term w))) (\<lambda>t1. obind (println text t1) (println ''------------'')) = Ret t
    \<and> run_cmd (Suc n) d [''cat'', tok] w = Done (Call_Done \<lparr>success_code = ''File read successfully'', print_code = False\<rparr>)
        (w\<lparr>w_term := (w_term w)\<lparr>term_writer := t\<rparr>\<rparr>)"
  using cat_shows [OF assms(1-3,5-7)] run_known_command [of "[''cat'', tok]" w Cmd_Cat n d] assms(4)
  by (auto simp: calls_interp_def pbind_def succeeded_def)

text \<open>
  C4: a file made is a file shown. On a mounted well-formed volume with room, \<^verbatim>\<open>mkdir NAME.EXT\<close> with words that follow
  creates exactly that file, whose contents are the words with single spaces, and \<^verbatim>\<open>cat NAME.EXT\<close> then prints its
  name, these contents and a rule, leaving the disk as it is.
\<close>

theorem made_file_is_shown:
  assumes "world_ok w" and "w_fs w = Some b" and "fs_inv b (w_disk w)"
    and "bt_get ''mkdir'' (w_commands w) = Some Cmd_Mkdir" and "bt_get ''cat'' (w_commands w) = Some Cmd_Cat"
    and "split_dot tok = Some (name, ext)" and "name_ok (pad_upper 8 name) (pad_upper 3 ext)"
    and "find_file b (w_disk w) (pad_upper 8 name) (pad_upper 3 ext) = Ret None"
    and "words \<noteq> []" and "utf8 (join '' '' words)"
    and "room_for b (w_disk w) (pad_upper 8 name) (pad_upper 3 ext) (length (join '' '' words))"
  shows "\<exists>s w1 t. run_cmd (Suc n) d (''mkdir'' # tok # words) w = Done (Call_Done s) w1
    \<and> fs_inv b (w_disk w1)
    \<and> files b (w_disk w1) = (files b (w_disk w))((pad_upper 8 name, pad_upper 3 ext) \<mapsto> as_bytes (join '' '' words))
    \<and> obind (println (''--- '' @ name @ '' ---'') (term_writer (w_term w))) (\<lambda>t1.
        obind (println (join '' '' words) t1) (println ''------------'')) = Ret t
    \<and> run_cmd (Suc n) d [''cat'', tok] w1
        = Done (Call_Done \<lparr>success_code = ''File read successfully'', print_code = False\<rparr>)
            (w1\<lparr>w_term := (w_term w1)\<lparr>term_writer := t\<rparr>\<rparr>)"
proof -
  obtain s dk where dk: "run_cmd (Suc n) d (''mkdir'' # tok # words) w = Done (Call_Done s) (w\<lparr>w_disk := dk\<rparr>)" "fs_inv b dk"
      "files b dk = (files b (w_disk w))((pad_upper 8 name, pad_upper 3 ext) \<mapsto> as_bytes (join '' '' words))"
    by (rule mkdir_makes [OF assms(2-4,6-9,11)])
  have "world_ok (w\<lparr>w_disk := dk\<rparr>)" using dk(2) assms(1) by (simp add: world_ok_def fs_inv_def)
  from cat_runs [OF this _ _ _ assms(6,10), of b n d] dk(2,3) assms(2,5) show ?thesis
    by (intro exI [of _ s] exI [of _ "w\<lparr>w_disk := dk\<rparr>"]) (auto simp: dk(1) simp del: run_cmd.simps)
qed

definition mounted_world :: world where
  "mounted_world = start_world\<lparr>w_fs := Some format_bpb, w_disk := formatted blank\<rparr>"

lemma mounted_world_ok: "world_ok mounted_world"
  using start_world_ok disk_ok_formatted [OF disk_ok_blank] by (simp add: mounted_world_def world_ok_def)

lemma mounted_fields:
  "w_fs mounted_world = Some format_bpb" "w_disk mounted_world = formatted blank" "w_commands mounted_world = init_cmds []"
  by (simp_all add: mounted_world_def start_world_def)

lemma formatted_room: "n \<le> 1000000 \<Longrightarrow> room_for format_bpb (formatted dk) name ext n"
proof -
  have "free_clusters format_bpb (formatted dk) \<noteq> {}" using card_formatted_free [of dk] by auto
  moreover assume "n \<le> 1000000"
  ultimately show ?thesis by (simp add: room_for_def card_formatted_free formatted_free_slot cluster_len_def)
qed

lemma init_cmds_get: "bt_get k (init_cmds []) = map_of (rev [(''pong'', Cmd_Pong), (''clear'', Cmd_Clear), (''history'', Cmd_History), (''echo'', Cmd_Echo),
     (''parse'', Cmd_Parse), (''bind'', Cmd_Bind), (''read'', Cmd_Read), (''write'', Cmd_Write),
     (''show'', Cmd_Show), (''formatd'', Cmd_Formatd), (''mkdir'', Cmd_Mkdir), (''cat'', Cmd_Cat),
     (''run'', Cmd_Run), (''edit'', Cmd_Edit), (''eden'', Cmd_Eden), (''quit'', Cmd_Quit)]) k"
  unfolding init_cmds_def using bt.get_ins_all [OF bt_ok_Nil] by (simp only: bt.ins_all_def bt.get_empty) (simp split: option.split)

theorem made_file_is_shown_witness:
  "\<exists>s w1 w2. run_cmd 1 deaf_decoder [''mkdir'', ''note.txt'', ''buy'', ''milk''] mounted_world = Done (Call_Done s) w1
    \<and> run_cmd 1 deaf_decoder [''cat'', ''note.txt''] w1
        = Done (Call_Done \<lparr>success_code = ''File read successfully'', print_code = False\<rparr>) w2
    \<and> files format_bpb (w_disk w1) = [(pad_upper 8 ''note'', pad_upper 3 ''txt'') \<mapsto> as_bytes ''buy milk'']"
proof -
  have n: "name_ok (pad_upper 8 ''note'') (pad_upper 3 ''txt'')"
    by (simp add: name_ok_def length_pad_upper) code_simp
  have d: "split_dot ''note.txt'' = Some (''note'', ''txt'')" by code_simp
  have c: "bt_get ''mkdir'' (init_cmds []) = Some Cmd_Mkdir" "bt_get ''cat'' (init_cmds []) = Some Cmd_Cat"
    by (simp_all add: init_cmds_get)
  have u: "utf8 (join '' '' [''buy'', ''milk''])" by (simp add: utf8_ascii)
  note t = made_file_is_shown [of mounted_world format_bpb "''note.txt''" "''note''" "''txt''" "[''buy'', ''milk'']" 0 deaf_decoder,
      unfolded mounted_fields, OF mounted_world_ok refl formatted_inv [OF disk_ok_blank] c d n formatted_find_file _ u formatted_room]
  show ?thesis using t by (auto simp: formatted_files)
qed

section \<open>Switching off\<close>

lemma quit_powers_off:
  assumes "world_ok w" and "bt_get ''quit'' (w_commands w) = Some Cmd_Quit"
  shows "\<exists>w' rest. run_cmd (Suc n) d (''quit'' # args) w = Powered_Off w' \<and> w_disk w' = w_disk w
    \<and> w_machine w' = w_machine w @ [Disk_Flush, Interrupts_Off, Out16 0x604 0x2000] @ rest"
proof -
  obtain t where t: "wf_writer t" "w_println ''Shutting down...'' w = Done () (w\<lparr>w_term := (w_term w)\<lparr>term_writer := t\<rparr>\<rparr>)"
    using println_world [OF assms(1)] by blast
  obtain u where u: "println ''It is now safe to power off your computer.'' t = Ret u"
    using wf_write_string [OF t(1)] by (auto simp: println_def)
  show ?thesis
    using run_known_command [of "''quit'' # args" w Cmd_Quit n d] assms(2) t(2) u
    by (auto simp: calls_interp_def cmd_quit_def pbind_def get_world_def shutdown_def teardown_def Let_def)
qed



section \<open>A line that crashes\<close>

lemma handler_read:
  "parse (tokenize handler_source) = Ret (Inr (List [Symbol ''def'', Symbol ''error'',
     List [Symbol ''fn'', List [Symbol ''s''], List [Symbol ''sys'', Symbol ''echo'', Symbol ''s'']]], []))"
proof -
  have "tokenize handler_source = [''('', ''def'', ''error'', ''('', ''fn'', ''('', ''s'', '')'', ''('', ''sys'', ''echo'', ''s'', '')'', '')'', '')'']"
    by (simp add: handler_source_def tokenize_def chars_ascii token_step_def flush_token_def push_char_def is_whitespace_def Let_def encode_ascii)
      code_simp
  moreover have "parse_f64 ''def'' = None" "parse_f64 ''error'' = None" "parse_f64 ''fn'' = None" "parse_f64 ''s'' = None"
    "parse_f64 ''sys'' = None" "parse_f64 ''echo'' = None" by code_simp+
  ultimately show ?thesis by (simp add: parse_atom_def)
qed

lemma handler_defined: "\<exists>env'. parse_eval (Suc (Suc n)) h handler_source env v = Done (Inr (Symbol ''error''), env') v"
  by (simp add: parse_eval_def handler_read eval_step_def eval_list_def eval_def_def eval_lambda_args_def of_result_def ebind_def ok_def)

text \<open>
  C28: one line crashes the kernel: \<^verbatim>\<open>parse\<close> with a lone double quote and the closing semicolon. The statement is a single
  quote token, whose contents the reader slices from 1 to 0.
\<close>

theorem lone_quote_crashes:
  assumes "bt_get ''parse'' (w_commands w) = Some Cmd_Parse" and "3 \<le> n"
  shows "run_cmd n d [''parse'', [CHR 0x22, CHR '';'']] w = Crash Slice_Order"
proof -
  obtain m where m: "n = Suc (Suc (Suc m))" using assms(2) by (intro that [of "n - 3"]) simp
  have s: "split_on (CHR '';'') [CHR 0x22, CHR '';''] = [[CHR 0x22], []]" by code_simp
  have "tokenize [CHR 0x22] = [[CHR 0x22]]"
    by (simp add: tokenize_def chars_ascii token_step_def flush_token_def push_char_def)
  then have q: "parse_eval k h [CHR 0x22] env v = Crash Slice_Order" for k and h :: "world host" and env v
    by (simp add: parse_eval_def parse_atom_def pbind_def)
  have "interpret_expr (Suc (Suc m)) h cs [''parse'', [CHR 0x22, CHR '';'']] v = Crash Slice_Order" for h :: "world host" and cs v
    using handler_defined [of m h "program_env cs []" v] q
    by (auto simp: interpret_expr_def s Let_def pbind_def)
  then show ?thesis using assms(1)
    by (simp add: m pbind_def get_world_def parse_cmd_def)
qed

theorem lone_quote_crashes_witness: "run_cmd 3 deaf_decoder [''parse'', [CHR 0x22, CHR '';'']] start_world = Crash Slice_Order"
proof -
  have "bt_get ''parse'' (w_commands start_world) = Some Cmd_Parse" by (simp add: start_world_def init_cmds_get)
  then show ?thesis by (rule lone_quote_crashes) simp
qed

end
