(* ===== verification/Editor_Use.thy ===== *)
theory Editor_Use
  imports Keystrokes Sessions
begin

text \<open>
  A whole editing session from the shell's \<^verbatim>\<open>eden\<close> command: the file is loaded, the keys found in the queue round after
  round edit it, the screen is redrawn between the rounds, and Escape writes the text back (\<^verbatim>\<open>editor/mod.rs\<close>,
  \<^verbatim>\<open>commands.rs\<close>).
\<close>

section \<open>Opening\<close>

text \<open>The text an editor opens on.\<close>

definition opened_text :: "bpb \<Rightarrow> disk \<Rightarrow> u8 list \<times> u8 list \<Rightarrow> string" where
  "opened_text b dk key = (case files b dk key of None \<Rightarrow> '''' | Some bytes \<Rightarrow> from_utf8_lossy bytes)"

lemma editor_load_opened:
  assumes "fs_inv b dk"
  shows "editor_load (Some b) dk name ext = Ret (opened_text b dk (name, ext))"
proof (cases "files b dk (name, ext)")
  case None
  then show ?thesis using vol.absent [OF assms None] by (simp add: editor_load_def opened_text_def)
next
  case (Some bytes)
  then show ?thesis
    using vol.load [OF assms Some, of "Ret ''''" "\<lambda>bytes. Ret (from_utf8_lossy bytes)"] by (simp add: editor_load_def opened_text_def)
qed

section \<open>The keys of a session\<close>

lemma editor_keys_append:
  "editor_keys (ks @ ks') e = obind (editor_keys ks e) (\<lambda>r. case r of None \<Rightarrow> Ret None | Some e' \<Rightarrow> editor_keys ks' e')"
proof (induction ks arbitrary: e)
  case (Cons k ks)
  then show ?case by (cases "editor_key k e") (simp_all split: option.split)
qed simp

lemma decoded_keys_append:
  "decoded_keys d kb (evs @ evs') = (case decoded_keys d kb evs of (ks, kb1) \<Rightarrow>
     (case decoded_keys d kb1 evs' of (ks', kb2) \<Rightarrow> (ks @ ks', kb2)))"
  by (induction evs arbitrary: kb) (auto split: prod.splits option.splits)

text \<open>Events that decode to keys the buffer accepts are all taken, and the rest of the queue follows.\<close>

lemma editor_events_plain:
  assumes "decoded_keys d kb evs = (ks, kb')" "editor_keys ks e = Ret (Some e')"
  shows "editor_events (dec_step d) (evs @ rest) kb e redraw = editor_events (dec_step d) rest kb' e' (redraw \<or> ks \<noteq> [])"
  using assms
proof (induction evs arbitrary: kb ks e redraw)
  case (Cons ev evs)
  obtain key kb1 ks1 where k: "dec_step d kb ev = (key, kb1)" "decoded_keys d kb1 evs = (ks1, kb')"
      "ks = (case key of None \<Rightarrow> ks1 | Some k \<Rightarrow> k # ks1)"
    using Cons.prems(1) by (auto split: prod.splits)
  show ?case
  proof (cases key)
    case None
    then show ?thesis using Cons.IH [OF k(2)] Cons.prems(2) k by simp
  next
    case (Some key')
    then obtain e1 where e1: "editor_key key' e = Ret (Some e1)" "editor_keys ks1 e1 = Ret (Some e')"
      using Cons.prems(2) k(3) by (auto elim!: obind_RetE split: option.splits)
    then show ?thesis using Cons.IH [OF k(2) e1(2)] k(1,3) Some by simp
  qed
qed simp

lemma draw_returns: "vga_ok t \<Longrightarrow> \<exists>t'. draw vga_device e t = Ret t' \<and> vga_ok t'"
  using vt.draw_shows [of t e] by blast

text \<open>Rounds without Escape only edit and redraw.\<close>

lemma editor_loop_plain:
  assumes "decoded_keys d kb (concat batches) = (ks, kb')" "editor_keys ks e = Ret (Some e')" "vga_ok t"
  shows "\<exists>t'. vga_ok t' \<and> editor_loop (dec_step d) fs name ext (batches @ later) kb e t dk
    = editor_loop (dec_step d) fs name ext later kb' e' t' dk"
  using assms
proof (induction batches arbitrary: kb ks e t)
  case (Cons evs batches)
  obtain ks1 kb1 ks2 where k: "decoded_keys d kb evs = (ks1, kb1)" "decoded_keys d kb1 (concat batches) = (ks2, kb')" "ks = ks1 @ ks2"
    using Cons.prems(1) by (auto simp: decoded_keys_append split: prod.splits)
  obtain e1 where e1: "editor_keys ks1 e = Ret (Some e1)" "editor_keys ks2 e1 = Ret (Some e')"
    using Cons.prems(2) k(3) by (auto simp: editor_keys_append elim!: obind_RetE split: option.splits)
  have "\<exists>t1. (if ks1 \<noteq> [] then draw vga_device e1 t else Ret t) = Ret t1 \<and> vga_ok t1"
    using draw_returns [OF Cons.prems(3), of e1] Cons.prems(3) by simp
  then obtain t1 where t1: "(if ks1 \<noteq> [] then draw vga_device e1 t else Ret t) = Ret t1" "vga_ok t1" by blast
  have "editor_events (dec_step d) evs kb e False = Ret (False, [], kb1, e1, ks1 \<noteq> [])"
    using editor_events_plain [OF k(1) e1(1), of "[]" False] by simp
  then have "editor_round (dec_step d) fs name ext evs kb e t dk = Ret (Inr (kb1, e1, t1))"
    using t1(1) by (auto simp: editor_round_def)
  then show ?case using Cons.IH [OF k(2) e1(2) t1(2)] by simp
qed auto

text \<open>The round with Escape saves.\<close>

lemma editor_loop_escape:
  assumes "decoded_keys d kb evs = (ks, kb')" "editor_keys ks e = Ret (Some e')" "vga_ok t"
    "fst (dec_step d kb' esc) = Some (Unicode 0x1b)" "editor_save fs name ext e' dk = Ret dk'"
  shows "\<exists>t'. vga_ok t' \<and> editor_loop (dec_step d) fs name ext ((evs @ esc # rest) # later) kb e t dk = Ret (Inl (rest # later, t', dk'))"
proof -
  obtain t' where t': "on_writer clear_screen t = Ret t'" "vga_ok t'"
    using vga_clear [OF assms(3)] by (auto simp: vga_device_def)
  have "\<exists>kb2. editor_events (dec_step d) (evs @ esc # rest) kb e False = Ret (True, rest, kb2, e', ks \<noteq> [])"
    unfolding editor_events_plain [OF assms(1,2)] using assms(4) by (cases "dec_step d kb' esc") (auto simp: editor_key_def)
  then show ?thesis using t' assms(5) by (auto simp: editor_round_def)
qed

section \<open>How long the text gets\<close>

lemma gap_step_length: "gap_step k g g' \<Longrightarrow> length (fst g' @ snd g') \<le> Suc (length (fst g @ snd g))"
  by (cases k; cases "case k of RawKey r \<Rightarrow> r"; cases "snd g") (auto simp: gap_step_def split: if_splits)

lemma gap_steps_length: "gap_steps ks g g' \<Longrightarrow> length (fst g' @ snd g') \<le> length (fst g @ snd g) + length ks"
  by (induction rule: gap_steps.induct) (use gap_step_length in fastforce)+

lemma room_for_mono: "room_for b dk name ext n \<Longrightarrow> m \<le> n \<Longrightarrow> room_for b dk name ext m"
  by (auto simp: room_for_def)

section \<open>The session\<close>

lemma editor_session_saves:
  assumes "fs_inv b dk" "ascii (opened_text b dk (name, ext))" "name_ok name ext" "vga_ok t"
    "decoded_keys d kb (concat batches @ evs) = (ks, kb')" "\<forall>k\<in>set ks. plain_key k"
    "fst (dec_step d kb' esc) = Some (Unicode 0x1b)"
    "room_for b dk name ext (length (join [newline] (ed_lines (editor_new (opened_text b dk (name, ext))))) + length ks)"
    "editor_names args = (n, x)" "format_fat16_name n x = (name, ext)"
  shows "\<exists>g t' dk'. gap_steps ks ([], join [newline] (ed_lines (editor_new (opened_text b dk (name, ext))))) g \<and> ascii (fst g @ snd g)
    \<and> run_editor (dec_step d) kb (Some b) args (batches @ (evs @ esc # rest) # later) t dk = Ret (Inl (rest # later, t', dk'))
    \<and> vga_ok t' \<and> fs_inv b dk' \<and> files b dk' = (files b dk)((name, ext) \<mapsto> as_bytes (fst g @ snd g))"
proof -
  let ?e = "editor_new (opened_text b dk (name, ext))"
  note inv = editor_new_inv [OF assms(2)]
  have b0: "before ?e = []" by (rule before_0) (simp_all add: editor_new_def Let_def)
  obtain e where e: "editor_keys ks ?e = Ret (Some e)" "ed_inv e" "gap_steps ks ([], join [newline] (ed_lines ?e)) (before e, after e)"
    using editor_keys_refine [OF inv assms(6)] before_after [OF inv] b0 by auto
  have whole: "join [newline] (ed_lines e) = before e @ after e" by (rule before_after [OF e(2)])
  have "length (join [newline] (ed_lines e)) \<le> length (join [newline] (ed_lines ?e)) + length ks"
    unfolding whole using gap_steps_length [OF e(3)] by simp
  then obtain dk' where dk': "editor_save (Some b) name ext e dk = Ret dk'" "fs_inv b dk'"
      "files b dk' = (files b dk)((name, ext) \<mapsto> as_bytes (before e @ after e))"
    using editor_save_files [OF assms(1,3) room_for_mono [OF assms(8)], of e] unfolding whole by auto
  have asc: "ascii (before e @ after e)"
    unfolding whole [symmetric] using e(2) by (intro ascii_join) (auto simp: ed_inv_def ascii_def newline_def)
  obtain ks1 kb1 ks2 where k: "decoded_keys d kb (concat batches) = (ks1, kb1)" "decoded_keys d kb1 evs = (ks2, kb')" "ks = ks1 @ ks2"
    using assms(5) by (auto simp: decoded_keys_append split: prod.splits)
  obtain e1 where e1: "editor_keys ks1 ?e = Ret (Some e1)" "editor_keys ks2 e1 = Ret (Some e)"
    using e(1) unfolding k(3) by (auto simp: editor_keys_append elim!: obind_RetE split: option.splits)
  obtain t0 where t0: "draw vga_device ?e t = Ret t0" "vga_ok t0" using draw_returns [OF assms(4)] by blast
  obtain t1 where t1: "vga_ok t1" "editor_loop (dec_step d) (Some b) name ext (batches @ (evs @ esc # rest) # later) kb ?e t0 dk
      = editor_loop (dec_step d) (Some b) name ext ((evs @ esc # rest) # later) kb1 e1 t1 dk"
    using editor_loop_plain [OF k(1) e1(1) t0(2)] by blast
  obtain t2 where "vga_ok t2" "editor_loop (dec_step d) (Some b) name ext ((evs @ esc # rest) # later) kb1 e1 t1 dk
      = Ret (Inl (rest # later, t2, dk'))"
    using editor_loop_escape [OF k(2) e1(2) t1(1) assms(7) dk'(1)] by blast
  then have "run_editor (dec_step d) kb (Some b) args (batches @ (evs @ esc # rest) # later) t dk = Ret (Inl (rest # later, t2, dk'))"
    using t0(1) t1(2) by (simp add: run_editor_def assms(9,10) editor_load_opened [OF assms(1)] del: editor_loop.simps)
  then show ?thesis using e(3) asc dk'(2,3) \<open>vga_ok t2\<close> by fastforce
qed

lemma format_pad_upper: "format_fat16_name n x = (pad_upper 8 n, pad_upper 3 x)"
proof -
  have "take (min k (length bs)) (map f bs) = map f (take k bs)" for k and bs :: "u8 list" and f :: "u8 \<Rightarrow> u8"
    by (simp add: take_map min_def)
  then show ?thesis by (simp add: format_fat16_name_def pad_upper_def Let_def)
qed

text \<open>
  C12: an editing session from the shell. On a mounted well-formed volume, \<^verbatim>\<open>eden NAME.EXT\<close> opens the file, or an empty
  text; keys that arrive over any number of rounds and decode to ASCII characters, backspaces and arrows, and then
  Escape, end the session. The file then holds exactly what these keys make of the opened text as a text with a gap, no
  other file changes, the keys after Escape are left in the queue, and \<^verbatim>\<open>cat NAME.EXT\<close> prints the new text.
\<close>

theorem edited_file_is_shown:
  assumes "world_ok w" and "w_fs w = Some b" and "fs_inv b (w_disk w)"
    and "bt_get ''eden'' (w_commands w) = Some Cmd_Eden" and "bt_get ''cat'' (w_commands w) = Some Cmd_Cat"
    and "split_dot tok = Some (n, x)" and "name_ok (pad_upper 8 n) (pad_upper 3 x)"
    and "ascii (opened_text b (w_disk w) (pad_upper 8 n, pad_upper 3 x))"
    and "w_keys w # w_arrivals w = batches @ (evs @ esc # rest) # later"
    and "decoded_keys d (dec_new d) (concat batches @ evs) = (ks, kb)" and "\<forall>k\<in>set ks. plain_key k"
    and "fst (dec_step d kb esc) = Some (Unicode 0x1b)"
    and "room_for b (w_disk w) (pad_upper 8 n) (pad_upper 3 x)
      (length (join [newline] (ed_lines (editor_new (opened_text b (w_disk w) (pad_upper 8 n, pad_upper 3 x))))) + length ks)"
  shows "\<exists>g w1 w2. gap_steps ks ([], join [newline] (ed_lines (editor_new (opened_text b (w_disk w) (pad_upper 8 n, pad_upper 3 x))))) g
    \<and> run_cmd (Suc k) d [''eden'', tok] w = Done (Call_Done \<lparr>success_code = ''Worked'', print_code = False\<rparr>) w1
    \<and> w_keys w1 = rest \<and> w_arrivals w1 = later \<and> fs_inv b (w_disk w1)
    \<and> files b (w_disk w1) = (files b (w_disk w))((pad_upper 8 n, pad_upper 3 x) \<mapsto> as_bytes (fst g @ snd g))
    \<and> run_cmd (Suc k) d [''cat'', tok] w1 = Done (Call_Done \<lparr>success_code = ''File read successfully'', print_code = False\<rparr>) w2
    \<and> obind (println (''--- '' @ n @ '' ---'') (term_writer (w_term w1))) (\<lambda>t1.
        obind (println (fst g @ snd g) t1) (println ''------------'')) = Ret (term_writer (w_term w2))"
proof -
  have "editor_names [''eden'', tok] = (n, x)" using assms(6) by (simp add: editor_names_def)
  moreover have "vga_ok (w_term w)" "bt_ok (w_commands w)" using assms(1) by (simp_all add: world_ok_def vga_ok_def)
  ultimately obtain g t dk where g: "gap_steps ks ([], join [newline] (ed_lines (editor_new (opened_text b (w_disk w) (pad_upper 8 n, pad_upper 3 x))))) g"
      "ascii (fst g @ snd g)" "run_editor (dec_step d) (dec_new d) (Some b) [''eden'', tok] (batches @ (evs @ esc # rest) # later) (w_term w) (w_disk w)
        = Ret (Inl (rest # later, t, dk))" "vga_ok t" "fs_inv b dk"
      "files b dk = (files b (w_disk w))((pad_upper 8 n, pad_upper 3 x) \<mapsto> as_bytes (fst g @ snd g))"
    using editor_session_saves [OF assms(3,8,7) _ assms(10-13) _ format_pad_upper, of "w_term w" "[''eden'', tok]" rest later] by blast
  let ?w1 = "w\<lparr>w_term := t, w_disk := dk, w_keys := rest, w_arrivals := later\<rparr>"
  have "run_edit d [''eden'', tok] w = Done (succeeded ''Worked'' False) ?w1"
    using g(3) assms(2,9) by (simp add: run_edit_def get_world_def pbind_def modify_def put_batches_def)
  then have ed: "run_cmd (Suc k) d [''eden'', tok] w = Done (Call_Done \<lparr>success_code = ''Worked'', print_code = False\<rparr>) ?w1"
    using run_known_command [of "[''eden'', tok]" w Cmd_Eden k d] assms(4) by (simp add: calls_interp_def pbind_def succeeded_def del: run_cmd.simps)
  have "world_ok ?w1" using assms(1) g(4,5) by (simp add: world_ok_def vga_ok_def fs_inv_def)
  from cat_runs [OF this _ _ _ assms(6) utf8_ascii [OF g(2)], of b k d] g(5,6) assms(2,5)
  obtain u where "obind (println (''--- '' @ n @ '' ---'') (term_writer t)) (\<lambda>t1. obind (println (fst g @ snd g) t1) (println ''------------'')) = Ret u"
    "run_cmd (Suc k) d [''cat'', tok] ?w1 = Done (Call_Done \<lparr>success_code = ''File read successfully'', print_code = False\<rparr>)
        (?w1\<lparr>w_term := t\<lparr>term_writer := u\<rparr>\<rparr>)" by (auto simp del: run_cmd.simps)
  then show ?thesis using g(1,5,6) ed
    by (intro exI [of _ g] exI [of _ ?w1] exI [of _ "?w1\<lparr>w_term := t\<lparr>term_writer := u\<rparr>\<rparr>"]) (simp del: run_cmd.simps)
qed

inductive_simps gap_steps_simps [simp]: "gap_steps [] g g'" "gap_steps (k # ks) g g'"

definition typed :: "nat \<Rightarrow> key_event" where
  "typed c = \<lparr>key_code = Other_Key c, key_state = Down\<rparr>"

lemma typist_typed [simp]: "dec_step typist kb (typed c) = (Some (Unicode c), kb)" "dec_new typist = ()"
  by (simp_all add: typist_def typed_def)

theorem edited_file_is_shown_witness:
  "\<exists>w1 w2. run_cmd 1 typist [''eden'', ''note.txt''] (mounted_world\<lparr>w_keys := [typed 104], w_arrivals := [[typed 105, typed 0x1b, typed 113], []]\<rparr>)
      = Done (Call_Done \<lparr>success_code = ''Worked'', print_code = False\<rparr>) w1
    \<and> w_keys w1 = [typed 113] \<and> files format_bpb (w_disk w1) = [(pad_upper 8 ''note'', pad_upper 3 ''txt'') \<mapsto> as_bytes ''hi'']
    \<and> run_cmd 1 typist [''cat'', ''note.txt''] w1 = Done (Call_Done \<lparr>success_code = ''File read successfully'', print_code = False\<rparr>) w2"
proof -
  let ?w = "mounted_world\<lparr>w_keys := [typed 104], w_arrivals := [[typed 105, typed 0x1b, typed 113], []]\<rparr>"
  have f: "w_fs ?w = Some format_bpb" "w_disk ?w = formatted blank" "w_commands ?w = init_cmds []" by (simp_all add: mounted_fields)
  have w: "world_ok ?w" using mounted_world_ok by (simp add: world_ok_def)
  have c: "bt_get ''eden'' (init_cmds []) = Some Cmd_Eden" "bt_get ''cat'' (init_cmds []) = Some Cmd_Cat" by (simp_all add: init_cmds_get)
  have n: "name_ok (pad_upper 8 ''note'') (pad_upper 3 ''txt'')" by (simp add: name_ok_def length_pad_upper) code_simp
  have s: "split_dot ''note.txt'' = Some (''note'', ''txt'')" by code_simp
  have o: "opened_text format_bpb (formatted blank) key = ''''" for key by (simp add: opened_text_def formatted_files)
  have l: "ed_lines (editor_new '''') = ['''']" by code_simp
  have a: "ascii ''''" by (simp add: ascii_def)
  have h: "char_of (104 :: nat) = CHR ''h''" "char_of (105 :: nat) = CHR ''i''" by code_simp+
  have k: "w_keys ?w # w_arrivals ?w = [[typed 104]] @ ([typed 105] @ typed 0x1b # [typed 113]) # [[]]" by simp
  have e: "decoded_keys typist (dec_new typist) (concat [[typed 104]] @ [typed 105]) = ([Unicode 104, Unicode 105], ())" by simp
  have p: "\<forall>k\<in>set [Unicode 104, Unicode 105]. plain_key k" by (simp add: plain_key_def)
  have x: "fst (dec_step typist () (typed 0x1b)) = Some (Unicode 0x1b)" by simp
  from edited_file_is_shown [of ?w format_bpb "''note.txt''" "''note''" "''txt''", unfolded f o l,
      OF w refl formatted_inv [OF disk_ok_blank] c s n a k e p x, of 0]
  show ?thesis by (auto simp: formatted_room formatted_files gap_step_def h simp del: run_cmd.simps)
qed

end
