(* ===== verification/Hashmap.thy ===== *)
theory Hashmap
  imports Prelude
begin

text \<open>
  The chained hash map (\<^verbatim>\<open>hashmap.rs\<close>). The hash function is the \<^verbatim>\<open>Hashable\<close> instance of the key type and is an
  argument. \<open>get\<close> reduces the hash modulo the number of buckets, \<open>put\<close> and \<open>remove\<close> index with it directly.
\<close>

section \<open>The map\<close>

record ('k, 'v) tuple =
  tuple_key :: 'k
  tuple_value :: 'v

definition tuple_matches :: "('k, 'v) tuple \<Rightarrow> 'k \<Rightarrow> bool" where
  "tuple_matches t key \<longleftrightarrow> tuple_key t = key"

definition tuple_eq :: "('k, 'v) tuple \<Rightarrow> ('k, 'v) tuple \<Rightarrow> bool" where
  "tuple_eq t other \<longleftrightarrow> tuple_key t = tuple_key other"

type_synonym ('k, 'v) hash_map = "('k, 'v) tuple list list"

definition hm_new :: "('k, 'v) hash_map" where
  "hm_new = fold (\<lambda>_ buckets. buckets @ [[]]) [0..<128] []"

fun scan_bucket :: "('k, 'v) tuple list \<Rightarrow> 'k \<Rightarrow> 'v option" where
  "scan_bucket [] key = None"
| "scan_bucket (element # rest) key =
    (if tuple_matches element key then Some (tuple_value element) else scan_bucket rest key)"

definition hm_get :: "('k \<Rightarrow> nat) \<Rightarrow> ('k, 'v) hash_map \<Rightarrow> 'k \<Rightarrow> 'v option outcome" where
  "hm_get hash m key =
    (if length m = 0 then Panic Div_By_Zero
     else let h = hash key mod length m
          in if m ! h = [] then Ret None else Ret (scan_bucket (m ! h) key))"

definition hm_put :: "('k \<Rightarrow> nat) \<Rightarrow> 'k \<Rightarrow> 'v \<Rightarrow> ('k, 'v) hash_map \<Rightarrow> ('k, 'v) hash_map outcome" where
  "hm_put hash key value m =
    (if hash key < length m
     then Ret (m[hash key := m ! hash key @ [\<lparr>tuple_key = key, tuple_value = value\<rparr>]])
     else Panic Out_Of_Bounds)"

definition hm_remove :: "('k \<Rightarrow> nat) \<Rightarrow> 'k \<Rightarrow> 'v \<Rightarrow> ('k, 'v) hash_map \<Rightarrow> ('k, 'v) hash_map outcome" where
  "hm_remove hash key value m =
    (let r = \<lparr>tuple_key = key, tuple_value = value\<rparr>
     in if hash key < length m
        then Ret (m[hash key := filter (\<lambda>x. \<not> tuple_eq x r) (m ! hash key)])
        else Panic Out_Of_Bounds)"

section \<open>Histories of operations and what they promise\<close>

datatype ('k, 'v) hm_op = Put 'k 'v | Remove 'k 'v

primrec op_key :: "('k, 'v) hm_op \<Rightarrow> 'k" where
  "op_key (Put k _) = k"
| "op_key (Remove k _) = k"

primrec hm_step :: "('k \<Rightarrow> nat) \<Rightarrow> ('k, 'v) hm_op \<Rightarrow> ('k, 'v) hash_map \<Rightarrow> ('k, 'v) hash_map outcome" where
  "hm_step hash (Put k v) m = hm_put hash k v m"
| "hm_step hash (Remove k v) m = hm_remove hash k v m"

text \<open>The contract: an association list in order of insertion, whose first entry for a key counts.\<close>

primrec al_step :: "('k, 'v) hm_op \<Rightarrow> ('k \<times> 'v) list \<Rightarrow> ('k \<times> 'v) list" where
  "al_step (Put k v) al = al @ [(k, v)]"
| "al_step (Remove k _) al = filter (\<lambda>p. fst p \<noteq> k) al"

definition as_pair :: "('k, 'v) tuple \<Rightarrow> 'k \<times> 'v" where
  "as_pair t = (tuple_key t, tuple_value t)"

text \<open>Bucket \<open>i\<close> holds the entries whose hash is \<open>i\<close>, in order, and there is no other entry.\<close>

definition hm_rel :: "('k \<Rightarrow> nat) \<Rightarrow> ('k, 'v) hash_map \<Rightarrow> ('k \<times> 'v) list \<Rightarrow> bool" where
  "hm_rel hash m al \<longleftrightarrow> length m = 128 \<and> (\<forall>p\<in>set al. hash (fst p) < 128)
     \<and> (\<forall>i<128. map as_pair (m ! i) = filter (\<lambda>p. hash (fst p) = i) al)"

lemma hm_new_eq: "hm_new = replicate 128 []"
proof -
  have "fold (\<lambda>_ buckets. buckets @ [[]]) [0..<n] [] = replicate n ([] :: ('a, 'b) tuple list)" for n
    by (induction n) (simp_all add: replicate_append_same)
  from this [of 128] show ?thesis unfolding hm_new_def .
qed

lemma hm_rel_new: "hm_rel hash hm_new []"
  by (simp add: hm_rel_def hm_new_eq)

lemma scan_bucket_map_of: "scan_bucket b key = map_of (map as_pair b) key"
  by (induction b) (auto simp: tuple_matches_def as_pair_def)

lemma map_of_filter_hash: "map_of (filter (\<lambda>p. hash (fst p) = i) al) k = (if hash k = i then map_of al k else None)"
  by (induction al) auto

lemma hm_get_rel:
  assumes "hm_rel hash m al"
  shows "hm_get hash m k = Ret (map_of al k)"
proof -
  have b: "scan_bucket (m ! h) k = (if hash k = h then map_of al k else None)" if "h < 128" for h
    using assms that by (simp add: hm_rel_def scan_bucket_map_of map_of_filter_hash)
  have none: "map_of al k = None" if "\<not> hash k < 128"
    using assms that by (auto simp: hm_rel_def map_of_eq_None_iff)
  have "length m = 128" using assms by (simp add: hm_rel_def)
  moreover have "scan_bucket (m ! (hash k mod 128)) k = map_of al k"
    using b [of "hash k mod 128"] none by (cases "hash k < 128") auto
  ultimately show ?thesis by (auto simp: hm_get_def Let_def)
qed

lemma hm_step_rel:
  assumes rel: "hm_rel hash m al" and h: "hash (op_key op) < 128"
  shows "\<exists>m'. hm_step hash op m = Ret m' \<and> hm_rel hash m' (al_step op al)"
proof (cases op)
  case (Put k v)
  then show ?thesis
    using rel h by (auto simp: hm_put_def hm_rel_def nth_list_update as_pair_def)
next
  case (Remove k v)
  have "map as_pair (filter (\<lambda>x. \<not> tuple_eq x r) b) = filter (\<lambda>p. fst p \<noteq> tuple_key r) (map as_pair b)"
    for r :: "('a, 'b) tuple" and b
    by (induction b) (auto simp: tuple_eq_def as_pair_def)
  moreover have "filter (\<lambda>p. hash (fst p) = i) (filter (\<lambda>p. fst p \<noteq> k) al) =
      (if hash k = i then filter (\<lambda>p. fst p \<noteq> k) (filter (\<lambda>p. hash (fst p) = i) al)
       else filter (\<lambda>p. hash (fst p) = i) al)" for i
    by (auto intro: filter_cong)
  ultimately show ?thesis
    using Remove rel h by (auto simp: hm_remove_def hm_rel_def nth_list_update Let_def)
qed

lemma hm_steps_rel:
  assumes "hm_rel hash m al" and "\<forall>op\<in>set ops. hash (op_key op) < 128"
  shows "\<exists>m'. for_each (hm_step hash) ops m = Ret m' \<and> hm_rel hash m' (fold al_step ops al)"
  using assms
proof (induction ops arbitrary: m al)
  case (Cons op ops)
  obtain m' where "hm_step hash op m = Ret m'" "hm_rel hash m' (al_step op al)"
    using hm_step_rel [OF Cons.prems(1)] Cons.prems(2) by auto
  then show ?case using Cons.IH Cons.prems(2) by simp
qed simp

section \<open>Properties\<close>

text \<open>
  C29: for every sequence of insertions and removals of keys with hash below 128, from the empty map, no
  operation panics, and a lookup of any key at all then answers as the association list of the insertions
  does: a removal takes back every insertion of its key, whatever value it is given, and among the
  insertions left the first one counts.
\<close>

theorem hash_map_refines_alist:
  assumes "\<forall>op\<in>set ops. hash (op_key op) < 128"
  shows "\<exists>m. for_each (hm_step hash) ops hm_new = Ret m
    \<and> (\<forall>k. hm_get hash m k = Ret (map_of (fold al_step ops []) k))"
  using hm_steps_rel [OF hm_rel_new assms] by (auto simp: hm_get_rel)

theorem hash_map_refines_alist_witness:
  "\<exists>m. for_each (hm_step (\<lambda>k. k mod 100)) [Put 7 ''a'', Put 107 ''b'', Put 7 ''c'', Remove 107 ''''] hm_new = Ret m
    \<and> hm_get (\<lambda>k. k mod 100) m 7 = Ret (Some ''a'') \<and> hm_get (\<lambda>k. k mod 100) m (107 :: nat) = Ret None"
proof -
  have "\<forall>op\<in>set [Put 7 ''a'', Put 107 ''b'', Put 7 ''c'', Remove (107 :: nat) ''''].
      (\<lambda>k. k mod 100) (op_key op) < 128" by simp
  from hash_map_refines_alist [OF this] show ?thesis by auto
qed



end
