(* ===== verification/Lisp_Types.thy ===== *)
theory Lisp_Types
  imports Lisp_Eval
begin

text \<open>
  The type invariant of the interpreter. Every value is well formed: its numbers are values of \<^verbatim>\<open>f64\<close>, its maps
  and captured environments are in key order without repetition. Reading, every built-in function and every
  special form keep it, so a program only ever sees such values.
\<close>

section \<open>Well-formed values\<close>

fun exp_ok :: "risp_exp \<Rightarrow> bool" where
  "exp_ok (Number n) = f64_ok n"
| "exp_ok (List l) = list_all exp_ok l"
| "exp_ok (Map m) = (bt_ok m \<and> list_all (\<lambda>(k, v). exp_ok v) m)"
| "exp_ok (Lambda p b c) = (exp_ok p \<and> exp_ok b \<and> bt_ok c \<and> list_all (\<lambda>(k, v). exp_ok v) c)"
| "exp_ok _ = True"

definition env_ok :: "risp_env \<Rightarrow> bool" where
  "env_ok env \<longleftrightarrow> bt_ok env \<and> list_all (\<lambda>(k, v). exp_ok v) env"

definition value_ok :: "risp_exp risp_result \<Rightarrow> bool" where
  "value_ok r \<longleftrightarrow> (\<forall>v. r = Inr v \<longrightarrow> exp_ok v)"

lemma value_ok_simps [simp]: "value_ok (Inl e)" "value_ok (Inr v) = exp_ok v" "value_ok (risp_error msg)"
  by (simp_all add: value_ok_def risp_error_def)

lemma values_insert: "list_all (\<lambda>(k, v). P v) m \<Longrightarrow> P v \<Longrightarrow> list_all (\<lambda>(k, v). P v) (bt_insert k v m)"
  using set_bt_insert_values [of k v m] by (fastforce simp: list_all_iff)

lemma values_remove: "list_all (\<lambda>(k, v). P v) m \<Longrightarrow> list_all (\<lambda>(k, v). P v) (bt_remove k m)"
  using set_bt_remove [of k m] by (auto simp: list_all_iff)

lemma env_ok_insert [simp]: "env_ok env \<Longrightarrow> exp_ok v \<Longrightarrow> env_ok (bt_insert k v env)"
  by (simp add: env_ok_def values_insert)

lemma env_ok_inserts: "env_ok env \<Longrightarrow> list_all (\<lambda>(k, v). exp_ok v) kvs \<Longrightarrow> env_ok (fold (\<lambda>(k, v). bt_insert k v) kvs env)"
  by (induction kvs arbitrary: env) auto

lemma env_get_ok: "env_ok env \<Longrightarrow> env_get k env = Some v \<Longrightarrow> exp_ok v"
  unfolding env_get_def env_ok_def by (auto dest!: bt_get_in simp: list_all_iff)

section \<open>Built-in functions\<close>

lemma rbind_ok: "(\<And>x. r = Inr x \<Longrightarrow> value_ok (f x)) \<Longrightarrow> value_ok (rbind r f)"
  by (auto simp: rbind_def split: sum.split)

lemma collect_floats: "list_all exp_ok args \<Longrightarrow> parse_list_of_floats args = Inr fs \<Longrightarrow> list_all f64_ok fs"
proof (induction args arbitrary: fs)
  case (Cons a args)
  then show ?case
    by (cases a) (auto simp: parse_list_of_floats_def rbind_def parse_single_float_def risp_error_def split: sum.splits)
qed (simp add: parse_list_of_floats_def)

lemma fold_ok: "(\<And>x y. P (f x y)) \<Longrightarrow> P a \<Longrightarrow> P (foldl f a xs)"
  by (induction xs arbitrary: a) auto

lemmas float_folds = fold_ok [of f64_ok f64_add, OF f64_add_ok] fold_ok [of f64_ok f64_mul, OF f64_mul_ok]
  fold_ok [of f64_ok f64_div, OF f64_div_ok]

lemma first_float_ok: "list_all exp_ok args \<Longrightarrow> first_float args = Inr (x, xs) \<Longrightarrow> f64_ok x"
  by (auto simp: first_float_def rbind_def risp_error_def dest!: collect_floats split: sum.splits list.splits)

lemma map_pairs_ok: "list_all exp_ok args \<Longrightarrow> exp_ok (Map m) \<Longrightarrow> value_ok (map_pairs args m)"
  by (induction args m rule: map_pairs.induct) (auto intro!: rbind_ok simp: values_insert)

lemma fn_index_ok: "list_all exp_ok args \<Longrightarrow> value_ok (fn_index args)"
proof (cases "\<exists>c i. args = [c, i]")
  case True
  then obtain c i where a: "args = [c, i]" by blast
  assume ok: "list_all exp_ok args"
  show ?thesis
  proof (cases c)
    case (List l)
    have "n < length l \<Longrightarrow> exp_ok (l ! n)" for n using ok a List by (auto simp: list_all_iff)
    then show ?thesis using a List by (auto simp: fn_index_def Let_def intro!: rbind_ok)
  next
    case (Map m)
    have "exp_ok v" if "bt_get k m = Some v" for k v using bt_get_in [OF that] ok a Map by (auto simp: list_all_iff)
    then show ?thesis using a Map by (auto simp: fn_index_def intro!: rbind_ok split: option.split)
  qed (use a in \<open>simp_all add: fn_index_def\<close>)
qed (auto simp: fn_index_def split: list.split)

lemma fn_mkeys_ok: "value_ok (fn_mkeys args)"
proof -
  have "exp_ok (key_to_exp k)" for k by (cases k) simp_all
  then show ?thesis by (auto simp: fn_mkeys_def list_all_iff split: list.split risp_exp.split)
qed

lemma fn_len_ok: "value_ok (fn_len args)"
  by (simp add: fn_len_def split: list.split risp_exp.split)

lemma fn_div_ok: "list_all exp_ok args \<Longrightarrow> value_ok (fn_div args)"
  unfolding fn_div_def by (rule rbind_ok) (auto intro: float_folds(3) [OF first_float_ok])

lemma fn_float_ok:
  "value_ok (fn_add args)" "value_ok (fn_sub args)" "value_ok (fn_mul args)" "value_ok (fn_and args)"
  "value_ok (ensure_tonicity check args)"
  unfolding fn_add_def fn_sub_def fn_mul_def fn_and_def ensure_tonicity_def f64_one_def f64_zero_def
  by (rule rbind_ok, auto intro!: float_folds)+

lemma call_func_ok: "list_all exp_ok args \<Longrightarrow> value_ok (call_func f args)"
  by (cases f) (simp_all add: fn_float_ok fn_div_ok fn_len_ok fn_mkeys_ok fn_index_ok fn_list_def fn_map_def map_pairs_ok)

section \<open>Programs that give well-formed values\<close>

definition gives :: "('a, 'w) prog \<Rightarrow> ('a \<Rightarrow> bool) \<Rightarrow> bool" where
  "gives m P \<longleftrightarrow> (\<forall>w x w'. m w = Done x w' \<longrightarrow> P x)"

definition res_ok :: "risp_exp risp_result \<times> risp_env \<Rightarrow> bool" where
  "res_ok = (\<lambda>(r, env). value_ok r \<and> env_ok env)"

definition args_ok :: "risp_exp list risp_result \<times> risp_env \<Rightarrow> bool" where
  "args_ok = (\<lambda>(r, env). (\<forall>vs. r = Inr vs \<longrightarrow> list_all exp_ok vs) \<and> env_ok env)"

definition ev_ok :: "'w evaluator \<Rightarrow> bool" where
  "ev_ok ev \<longleftrightarrow> (\<forall>e env. exp_ok e \<longrightarrow> env_ok env \<longrightarrow> gives (ev e env) res_ok)"

named_theorems gives_laws

lemma ev_okD: "ev_ok ev \<Longrightarrow> exp_ok e \<Longrightarrow> env_ok env \<Longrightarrow> gives (ev e env) res_ok"
  by (simp add: ev_ok_def)

lemma gives_ends [gives_laws]:
  "value_ok r \<Longrightarrow> env_ok env \<Longrightarrow> gives (ret (r, env)) res_ok"
  "exp_ok v \<Longrightarrow> env_ok env \<Longrightarrow> gives (ok v env) res_ok"
  "env_ok env \<Longrightarrow> gives (err msg env) res_ok"
  "value_ok r \<Longrightarrow> env_ok env \<Longrightarrow> gives (of_result r env) res_ok"
  "gives unfinished P"
  by (auto simp: gives_def res_ok_def ok_def err_def of_result_def unfinished_def)

lemma gives_pbind: "gives m P \<Longrightarrow> (\<And>x. P x \<Longrightarrow> gives (f x) Q) \<Longrightarrow> gives (pbind m f) Q"
  unfolding gives_def by (meson pbind_DoneE)

lemma gives_any: "gives m (\<lambda>_. True)"
  by (simp add: gives_def)

lemma gives_ebind [gives_laws]:
  "gives m res_ok \<Longrightarrow> (\<And>v env. exp_ok v \<Longrightarrow> env_ok env \<Longrightarrow> gives (f v env) res_ok) \<Longrightarrow> gives (ebind m f) res_ok"
  unfolding ebind_def by (erule gives_pbind) (auto simp: res_ok_def [symmetric] intro!: gives_ends split: sum.split, auto simp: res_ok_def)

lemma gives_abind [gives_laws]:
  "gives m args_ok \<Longrightarrow> (\<And>vs env. list_all exp_ok vs \<Longrightarrow> env_ok env \<Longrightarrow> gives (f vs env) res_ok) \<Longrightarrow> gives (abind m f) res_ok"
  unfolding abind_def by (erule gives_pbind) (auto simp: args_ok_def intro!: gives_ends split: sum.split)

lemma gives_case [gives_laws]:
  "(l = [] \<Longrightarrow> gives a P) \<Longrightarrow> (\<And>x xs. l = x # xs \<Longrightarrow> gives (f x xs) P) \<Longrightarrow> gives (case l of [] \<Rightarrow> a | x # xs \<Rightarrow> f x xs) P"
  "(\<And>e. r = Inl e \<Longrightarrow> gives (g e) P) \<Longrightarrow> (\<And>x. r = Inr x \<Longrightarrow> gives (k x) P) \<Longrightarrow> gives (case r of Inl e \<Rightarrow> g e | Inr x \<Rightarrow> k x) P"
  "(v = None \<Longrightarrow> gives b P) \<Longrightarrow> (\<And>x. v = Some x \<Longrightarrow> gives (m x) P) \<Longrightarrow> gives (case v of None \<Rightarrow> b | Some x \<Rightarrow> m x) P"
  "(t \<Longrightarrow> gives c P) \<Longrightarrow> (\<not> t \<Longrightarrow> gives d P) \<Longrightarrow> gives (if t then c else d) P"
  by (auto split: list.split sum.split option.split)

lemma gives_case_exp [gives_laws]:
  assumes "\<And>x. e = Bool x \<Longrightarrow> gives (f1 x) P" "\<And>x. e = Symbol x \<Longrightarrow> gives (f2 x) P" "\<And>x. e = Number x \<Longrightarrow> gives (f3 x) P"
    "\<And>x. e = String x \<Longrightarrow> gives (f4 x) P" "\<And>x. e = List x \<Longrightarrow> gives (f5 x) P" "\<And>x. e = Map x \<Longrightarrow> gives (f6 x) P"
    "\<And>x. e = Func x \<Longrightarrow> gives (f7 x) P" "\<And>x y z. e = Lambda x y z \<Longrightarrow> gives (f8 x y z) P" "\<And>x. e = Syscall x \<Longrightarrow> gives (f9 x) P"
  shows "gives (case_risp_exp f1 f2 f3 f4 f5 f6 f7 f8 f9 e) P"
  using assms by (cases e) simp_all

lemma eval_args_ok [gives_laws]:
  "ev_ok ev \<Longrightarrow> list_all exp_ok args \<Longrightarrow> list_all exp_ok acc \<Longrightarrow> env_ok env \<Longrightarrow> gives (eval_args ev args acc env) args_ok"
proof (induction args arbitrary: acc env)
  case (Cons arg args)
  have "gives (ev arg env) res_ok" using Cons.prems ev_okD by auto
  moreover have "gives (case r of Inl e \<Rightarrow> ret (Inl e, env1) | Inr v \<Rightarrow> eval_args ev args (acc @ [v]) env1) args_ok"
    if "res_ok (r, env1)" for r env1
  proof (cases r)
    case (Inr v)
    then show ?thesis using Cons.IH [of "acc @ [v]" env1] Cons.prems that by (simp add: res_ok_def)
  qed (use that in \<open>simp add: gives_def args_ok_def res_ok_def\<close>)
  ultimately show ?case unfolding eval_args.simps by (auto intro: gives_pbind)
qed (simp add: gives_def args_ok_def)

lemma eval_and_ok [gives_laws]: "ev_ok ev \<Longrightarrow> list_all exp_ok args \<Longrightarrow> env_ok env \<Longrightarrow> gives (eval_and ev args env) res_ok"
proof (induction args arbitrary: env)
  case (Cons arg args)
  then show ?case unfolding eval_and.simps by (intro gives_laws ev_okD [OF Cons.prems(1)]) auto
qed (simp add: gives_laws)

lemma eval_or_ok [gives_laws]: "ev_ok ev \<Longrightarrow> list_all exp_ok args \<Longrightarrow> env_ok env \<Longrightarrow> gives (eval_or ev args env) res_ok"
proof (induction args arbitrary: env)
  case (Cons arg args)
  then show ?case unfolding eval_or.simps by (intro gives_laws ev_okD [OF Cons.prems(1)]) auto
qed (simp add: gives_laws)

lemma eval_do_ok [gives_laws]:
  "ev_ok ev \<Longrightarrow> list_all exp_ok args \<Longrightarrow> exp_ok v \<Longrightarrow> env_ok env \<Longrightarrow> gives (eval_do ev v args env) res_ok"
proof (induction args arbitrary: v env)
  case (Cons arg args)
  then show ?case unfolding eval_do.simps by (intro gives_laws ev_okD [OF Cons.prems(1)]) auto
qed (simp add: gives_laws)

lemma for_loop_ok [gives_laws]:
  "ev_ok ev \<Longrightarrow> exp_ok condition \<Longrightarrow> exp_ok body \<Longrightarrow> env_ok env \<Longrightarrow> gives (for_loop n ev condition body env) res_ok"
proof (induction n arbitrary: env)
  case (Suc n)
  show ?case unfolding for_loop.simps by (intro gives_laws ev_okD [OF Suc.prems(1)] Suc) simp_all
qed (simp add: gives_laws)

lemma symbols_inserted: "length ks = length vs \<Longrightarrow> list_all exp_ok vs \<Longrightarrow> list_all (\<lambda>(k, v). exp_ok v) (zip ks vs)"
  by (auto simp: list_all_iff dest: set_zip_rightD)

lemma env_for_lambda_ok:
  "env_for_lambda params vs outer = Inr new_env \<Longrightarrow> list_all exp_ok vs \<Longrightarrow> env_ok outer \<Longrightarrow> env_ok new_env"
  unfolding env_for_lambda_def rbind_def risp_error_def
  by (auto intro!: env_ok_inserts symbols_inserted split: sum.splits if_splits)

lemma merge_env_ok: "exp_ok (Lambda params body captured) \<Longrightarrow> env_ok env \<Longrightarrow> env_ok (merge_env captured env)"
  by (simp add: merge_env_def env_ok_inserts)

lemma apply_lambda_ok [gives_laws]:
  assumes "ev_ok ev" "exp_ok (Lambda params body captured)" "list_all exp_ok vs" "env_ok env"
  shows "gives (apply_lambda ev params body captured vs env) res_ok"
proof -
  have body: "gives (pbind (ev body new_env) (\<lambda>(r, _). ret (r, env))) res_ok"
    if "env_for_lambda params vs (merge_env captured env) = Inr new_env" for new_env
    using env_for_lambda_ok [OF that assms(3) merge_env_ok [OF assms(2,4)]] assms
    by (intro gives_pbind [OF ev_okD]) (auto simp: res_ok_def gives_def)
  show ?thesis unfolding apply_lambda_def by (intro gives_laws body) (use assms in simp_all)
qed

lemma list_var_ok: "list_var s env = Inr l \<Longrightarrow> env_ok env \<Longrightarrow> list_all exp_ok l"
  using env_get_ok [of env s "List l"] by (auto simp: list_var_def risp_error_def split: option.splits risp_exp.splits)

lemma map_var_ok: "map_var s env = Inr m \<Longrightarrow> env_ok env \<Longrightarrow> exp_ok (Map m)"
  using env_get_ok [of env s "Map m"] by (auto simp: map_var_def risp_error_def split: option.splits risp_exp.splits)

lemma eval_if_ok [gives_laws]:
  assumes "ev_ok ev" "list_all exp_ok args" "env_ok env"
  shows "gives (eval_if ev args env) res_ok"
  unfolding eval_if_def Let_def
  by (intro gives_laws ev_okD [OF assms(1)]) (use assms in \<open>auto simp: list_all_length\<close>)

lemma eval_def_ok [gives_laws]:
  assumes "ev_ok ev" "list_all exp_ok args" "env_ok env"
  shows "gives (eval_def ev args env) res_ok"
  unfolding eval_def_def by (intro gives_laws ev_okD [OF assms(1)]) (use assms in auto)

lemma eval_append_ok [gives_laws]:
  assumes "ev_ok ev" "list_all exp_ok args" "env_ok env"
  shows "gives (eval_append ev args env) res_ok"
  unfolding eval_append_def Let_def
  by (intro gives_laws ev_okD [OF assms(1)]) (use assms list_var_ok in auto)

lemma eval_pop_ok [gives_laws]:
  assumes "env_ok env"
  shows "gives (eval_pop args env) res_ok"
proof -
  have "exp_ok (last l) \<and> exp_ok (List (butlast l))" if "list_var s env = Inr l" "l \<noteq> []" for s l
    using list_var_ok [OF that(1) assms] that(2) by (auto simp: list_all_iff dest: in_set_butlastD)
  then show ?thesis unfolding eval_pop_def by (intro gives_laws) (use assms in auto)
qed

lemma eval_mset_ok [gives_laws]:
  assumes "ev_ok ev" "list_all exp_ok args" "env_ok env"
  shows "gives (eval_mset ev args env) res_ok"
  unfolding eval_mset_def
  by (intro gives_laws ev_okD [OF assms(1)]) (use assms map_var_ok in \<open>auto simp: values_insert\<close>)

lemma eval_mdel_ok [gives_laws]:
  assumes "ev_ok ev" "list_all exp_ok args" "env_ok env"
  shows "gives (eval_mdel ev args env) res_ok"
  unfolding eval_mdel_def
  by (intro gives_laws ev_okD [OF assms(1)]) (use assms map_var_ok in \<open>auto simp: values_remove\<close>)

lemma eval_error_ok [gives_laws]:
  assumes "ev_ok ev" "list_all exp_ok args" "env_ok env"
  shows "gives (eval_error ev args env) res_ok"
  unfolding eval_error_def
  by (intro gives_laws ev_okD [OF assms(1)] gives_pbind [OF gives_any]) (use assms in auto)

lemma eval_call_ok [gives_laws]:
  assumes "ev_ok ev" "exp_ok first_form" "list_all exp_ok args" "env_ok env"
  shows "gives (eval_call ev first_form args env) res_ok"
  unfolding eval_call_def
  by (intro gives_laws ev_okD [OF assms(1)] call_func_ok) (use assms in auto)

lemma eval_sys_ok [gives_laws]:
  assumes "ev_ok ev" "list_all exp_ok args" "env_ok env"
  shows "gives (eval_sys h ev args env) res_ok"
proof -
  have call: "gives (case res of Call_Done s \<Rightarrow> pbind (if print_code s then host_println h (success_code s) else ret ())
                  (\<lambda>_. ok (Syscall cmd_vec) env1)
              | Call_Failed msg \<Rightarrow> err (''Syscall failed: '' @ msg) env1
              | Lookup_Failed msg \<Rightarrow> err (''Command lookup failed: '' @ msg) env1) res_ok" if "env_ok env1" for res cmd_vec env1
    using that by (cases res) (auto intro!: gives_laws gives_pbind [OF gives_any])
  show ?thesis unfolding eval_sys_def
    by (intro gives_laws gives_pbind [OF gives_any] call) (use assms in auto)
qed

lemma eval_quote_ok [gives_laws]: "list_all exp_ok args \<Longrightarrow> env_ok env \<Longrightarrow> gives (eval_quote args env) res_ok"
  unfolding eval_quote_def by (intro gives_laws) auto

lemma eval_for_ok [gives_laws]:
  "ev_ok ev \<Longrightarrow> list_all exp_ok args \<Longrightarrow> env_ok env \<Longrightarrow> gives (eval_for n ev args env) res_ok"
  unfolding eval_for_def by (intro gives_laws) auto

lemma eval_lambda_args_ok: "list_all exp_ok args \<Longrightarrow> env_ok env \<Longrightarrow> value_ok (eval_lambda_args args env)"
  by (auto simp: eval_lambda_args_def env_ok_def split: list.split)

lemma eval_step_ok:
  assumes "ev_ok ev"
  shows "ev_ok (eval_step h n ev)"
proof -
  have "gives (eval_step h n ev e env) res_ok" if "exp_ok e" "env_ok env" for e env
    unfolding eval_step_def eval_list_def
    by (intro gives_laws eval_lambda_args_ok) (use assms that env_get_ok in auto)
  then show ?thesis by (simp add: ev_ok_def)
qed

lemma eval_ok: "ev_ok (eval n h)"
proof (induction n)
  case (Suc n)
  then show ?case using eval_step_ok [OF Suc, of h n] by (simp add: ev_ok_def)
qed (simp add: ev_ok_def gives_laws)

section \<open>Source text\<close>

lemma parse_atom_ok: "parse_atom token = Ret e \<Longrightarrow> exp_ok e"
  by (auto simp: parse_atom_def split: if_splits option.splits dest: parse_f64_ok)

lemma parse_ok:
  "parse xs = Ret (Inr (e, ys)) \<Longrightarrow> exp_ok e"
  "read_seq xs res = Ret (Inr (e, ys)) \<Longrightarrow> list_all exp_ok res \<Longrightarrow> exp_ok e"
proof (induction xs and xs res arbitrary: e ys and e ys rule: parse_read_seq.induct)
  case (2 token rest)
  then show ?case by (auto split: if_splits dest: parse_atom_ok)
next
  case (4 next_token rest res)
  show ?case
  proof (cases "next_token = '')''")
    case False
    obtain e1 ys1 where p: "parse (next_token # rest) = Ret (Inr (e1, ys1))"
      using 4(3) False by (auto simp del: parse.simps split: outcome.splits sum.splits)
    then have "read_seq ys1 (res @ [e1]) = Ret (Inr (e, ys))" using 4(3) False by (simp del: parse.simps)
    then show ?thesis using 4(1) [OF False p] 4(2) [OF False p] 4(4) by simp
  qed (use 4 in auto)
qed auto

lemma arg_step_ok: "env_ok env \<Longrightarrow> env_ok (fst (arg_step arg_str (env, b, n)))"
  by (auto simp: arg_step_def parse_f64_ok split: option.split)

lemma arg_steps_ok: "env_ok (fst s) \<Longrightarrow> env_ok (fst (fold arg_step args s))"
proof (induction args arbitrary: s)
  case (Cons a args)
  then show ?case using arg_step_ok [of "fst s" a "fst (snd s)" "snd (snd s)"] by simp
qed simp

lemma commands_ok: "env_ok env \<Longrightarrow> env_ok (fold (\<lambda>call. bt_insert call (Symbol call)) commands env)"
  by (induction commands arbitrary: env) auto

lemma program_env_ok: "env_ok (program_env commands args)"
proof -
  have "env_ok default_env" unfolding default_env_def by (rule env_ok_inserts) (simp_all add: env_ok_def)
  then show ?thesis unfolding program_env_def Let_def
    by (intro arg_steps_ok) (simp add: commands_ok f64_zero_def)
qed


definition quiet_host :: "unit host" where
  "quiet_host = \<lparr>host_run = (\<lambda>_. ret (Lookup_Failed [])), host_println = (\<lambda>_. ret ())\<rparr>"


end
