(* ===== verification/Lisp_Programs.thy ===== *)
theory Lisp_Programs
  imports Lisp_Laws Lisp_Types
begin

text \<open>
  What Lisp programs compute: arithmetic on whole numbers is exact, calls see their parameters before the
  captured environment before the caller's, and a counting loop, read from its source text, ends with the sum.
\<close>

section \<open>Whole numbers\<close>

abbreviation num :: "int \<Rightarrow> risp_exp" where
  "num i \<equiv> Number (f64_of_int i)"

lemma whole_add: "\<bar>i\<bar> + \<bar>j\<bar> < 2 ^ 53 \<Longrightarrow> f64_add (f64_of_int i) (f64_of_int j) = f64_of_int (i + j)"
  using f64_add_whole [OF is_whole_of_int is_whole_of_int, of i j]
  by (auto simp: f64_of_int_def round_ratio_def f64_zero_def)

lemma whole_neg: "is_whole x i \<Longrightarrow> i \<noteq> 0 \<Longrightarrow> is_whole (f64_neg x) (- i)"
  by (auto simp: is_whole_def)

lemma whole_sub:
  assumes "\<bar>i\<bar> + \<bar>j\<bar> < 2 ^ 53"
  shows "f64_sub (f64_of_int i) (f64_of_int j) = f64_of_int (i - j)"
proof (cases "j = 0")
  case True
  obtain m e where i: "f64_of_int i = Finite (i < 0) m e" "mag m e = real_of_int \<bar>i\<bar>"
    using is_whole_of_int [of i] assms True by (auto simp: is_whole_def)
  have m: "m \<noteq> 0" if "i < 0" using mag_zero_iff [of m e] i(2) that by auto
  have z: "f64_of_int 0 = Finite False 0 (- 1074)" by (simp add: f64_of_int_def round_ratio_def f64_zero_def)
  have "f64_add (f64_of_int i) (Finite True 0 (- 1074)) = f64_add (f64_of_int i) (Finite False 0 (- 1074))"
    using m by (auto simp: i(1) at_exp_def Let_def)
  then show ?thesis using True whole_add [of i 0] assms by (simp add: f64_sub_def z)
next
  case False
  have "is_whole (f64_neg (f64_of_int j)) (- j)" using whole_neg [OF is_whole_of_int False] assms by simp
  from f64_add_whole [OF is_whole_of_int this, of i] assms show ?thesis
    by (auto simp: f64_sub_def f64_of_int_def round_ratio_def f64_zero_def)
qed

lemma floats_of_nums: "parse_list_of_floats (map num is) = Inr (map f64_of_int is)"
  by (induction "is") (simp_all add: parse_list_of_floats_def parse_single_float_def rbind_def)

lemma sum_floats:
  "\<bar>a\<bar> + (\<Sum>i\<leftarrow>is. \<bar>i\<bar>) < 2 ^ 53 \<Longrightarrow> foldl f64_add (f64_of_int a) (map f64_of_int is) = f64_of_int (a + sum_list is)"
proof (induction "is" arbitrary: a)
  case (Cons i "is")
  have "0 \<le> (\<Sum>i\<leftarrow>is. \<bar>i\<bar>)" by (induction "is") auto
  then show ?case using Cons whole_add [of a i] by (simp add: add.assoc)
qed simp

lemma product_floats:
  "\<bar>a * prod_list is\<bar> < 2 ^ 53 \<Longrightarrow> a \<noteq> 0 \<Longrightarrow> 0 \<notin> set is \<Longrightarrow> foldl f64_mul (f64_of_int a) (map f64_of_int is) = f64_of_int (a * prod_list is)"
proof (induction "is" arbitrary: a)
  case (Cons i "is")
  have p: "prod_list is \<noteq> 0" using Cons.prems(3) by (induction "is") auto
  have ai: "\<bar>a * i\<bar> \<le> \<bar>a * i * prod_list is\<bar>" "\<bar>a\<bar> \<le> \<bar>a * i\<bar>" "\<bar>i\<bar> \<le> \<bar>a * i\<bar>"
    using p Cons.prems(2,3) by (auto simp: abs_mult mult_le_cancel_left1 mult_le_cancel_right1 zero_less_abs_iff [of "_ :: int"]
        int_one_le_iff_zero_less mult_less_0_iff)
  then have "\<bar>a * i\<bar> < 2 ^ 53" "\<bar>a\<bar> < 2 ^ 53" "\<bar>i\<bar> < 2 ^ 53" using Cons.prems(1) by (simp_all add: mult.assoc)
  then have "f64_mul (f64_of_int a) (f64_of_int i) = f64_of_int (a * i)"
    using f64_mul_whole [OF is_whole_of_int is_whole_of_int, of a i] Cons.prems(2,3) by simp
  then show ?case using Cons by (simp add: mult.assoc)
qed simp

lemma tonic_whole:
  assumes "\<And>i j. \<bar>i\<bar> < 2 ^ 53 \<Longrightarrow> \<bar>j\<bar> < 2 ^ 53 \<Longrightarrow> check (f64_of_int i) (f64_of_int j) = R i j" and "transp R"
  shows "\<forall>j\<in>set (i # is). \<bar>j\<bar> < 2 ^ 53 \<Longrightarrow> tonic check (f64_of_int i) (map f64_of_int is) = sorted_wrt R (i # is)"
proof (induction "is" arbitrary: i)
  case (Cons j "is")
  have "\<forall>k\<in>set is. R j k \<longrightarrow> R i j \<longrightarrow> R i k" using assms(2) by (meson transpD)
  then show ?case using Cons assms(1) [of i j] by auto
qed simp

lemma compare_whole:
  assumes "\<bar>i\<bar> < 2 ^ 53" "\<bar>j\<bar> < 2 ^ 53"
  shows "f64_less (f64_of_int i) (f64_of_int j) = (i < j)" "f64_eq (f64_of_int i) (f64_of_int j) = (i = j)"
    "f64_le (f64_of_int i) (f64_of_int j) = (i \<le> j)"
  using f64_compare_whole [OF is_whole_of_int [OF assms(1)] is_whole_of_int [OF assms(2)]]
  by (auto simp: f64_le_def)

lemma ensure_tonicity_whole:
  assumes "\<And>i j. \<bar>i\<bar> < 2 ^ 53 \<Longrightarrow> \<bar>j\<bar> < 2 ^ 53 \<Longrightarrow> check (f64_of_int i) (f64_of_int j) = R i j" "transp R"
    and "is \<noteq> []" "\<forall>j\<in>set is. \<bar>j\<bar> < 2 ^ 53"
  shows "ensure_tonicity check (map num is) = Inr (Bool (sorted_wrt R is))"
  using tonic_whole [of check R "hd is" "tl is", OF assms(1,2)] assms(3,4)
  by (cases "is") (simp_all add: ensure_tonicity_def first_float_def floats_of_nums [of "_ # _", simplified] rbind_def)

lemma abs_le_sum: "i \<in> set is \<Longrightarrow> \<bar>i\<bar> \<le> (\<Sum>i\<leftarrow>is. \<bar>i\<bar> :: int)"
proof (induction "is")
  case (Cons j "is")
  have "0 \<le> (\<Sum>i\<leftarrow>is. \<bar>i\<bar>)" by (induction "is") auto
  then show ?case using Cons by auto
qed simp



lemma parse_whole:
  assumes "\<bar>i\<bar> < 2 ^ 53"
  shows "parse_f64 ((if i < 0 then ''-'' else []) @ nat_str (nat \<bar>i\<bar>)) = Some (f64_of_int i)"
proof -
  obtain m e where x: "f64_of_int i = Finite (i < 0) m e" "f64_ok (Finite (i < 0) m e)"
    using is_whole_of_int [OF assms] unfolding is_whole_def by metis
  show ?thesis
    using parse_show_finite [OF x(2)] show_whole [OF is_whole_of_int [OF assms]] unfolding x(1) [symmetric] by simp
qed

section \<open>Calls\<close>

lemma symbol_strings: "parse_list_of_symbol_strings (List (map Symbol ks)) = Inr ks"
  by (induction ks) (simp_all add: parse_list_of_symbol_strings_def rbind_def)

text \<open>
  C34: a call binds its parameters, then sees the environment its function captured, and behind that the
  caller's; whatever the body defines is gone after the call, and only the number of arguments can be wrong.
\<close>

theorem call_scope:
  assumes "bt_ok env" and "bt_ok captured"
  shows "(length ks = length vs \<longrightarrow> (\<exists>inner. apply_lambda ev (List (map Symbol ks)) body captured vs env
        = pbind (ev body inner) (\<lambda>(r, _). ret (r, env))
      \<and> (\<forall>k. env_get k inner = (case map_of (rev (zip ks vs)) k of Some v \<Rightarrow> Some v
            | None \<Rightarrow> (case env_get k captured of Some v \<Rightarrow> Some v | None \<Rightarrow> env_get k env)))))
    \<and> (length ks \<noteq> length vs \<longrightarrow> apply_lambda ev (List (map Symbol ks)) body captured vs env
        = err (''expected '' @ nat_str (length ks) @ '' arguments, got '' @ nat_str (length vs)) env)"
proof -
  define outer where "outer = fold (\<lambda>(k, v). bt_insert k v) captured env"
  have ins: "bt_get k (fold (\<lambda>(k, v). bt_insert k v) kvs m) = (case map_of (rev kvs) k of Some v \<Rightarrow> Some v | None \<Rightarrow> bt_get k m)"
    "bt_ok (fold (\<lambda>(k, v). bt_insert k v) kvs m)" if "bt_ok m" for k m and kvs :: "(string \<times> risp_exp) list"
    using bt.get_ins_all [OF that, of k kvs] bt.ok_ins_all [OF that, of kvs] by (simp_all add: bt.ins_all_def)
  have "distinct (map fst captured)" using assms(2) by (simp add: bt_ok_def strict_sorted_iff)
  then have "map_of (rev captured) = map_of captured" by (simp add: map_of_inject_set rev_map [symmetric])
  then have "map_of (rev captured) k = bt_get k captured" for k using assms(2) by (simp add: bt_get_map_of)
  then have outer: "bt_ok outer"
    "bt_get k outer = (case bt_get k captured of Some v \<Rightarrow> Some v | None \<Rightarrow> bt_get k env)" for k
    using ins [OF assms(1)] by (simp_all add: outer_def)
  let ?inner = "fold (\<lambda>(k, v). bt_insert k v) (zip ks vs) outer"
  have "apply_lambda ev (List (map Symbol ks)) body captured vs env = pbind (ev body ?inner) (\<lambda>(r, _). ret (r, env))"
    if "length ks = length vs"
    using that by (simp add: apply_lambda_def env_for_lambda_def symbol_strings rbind_def merge_env_def outer_def)
  moreover have "env_get k ?inner = (case map_of (rev (zip ks vs)) k of Some v \<Rightarrow> Some v
            | None \<Rightarrow> (case env_get k captured of Some v \<Rightarrow> Some v | None \<Rightarrow> env_get k env))" for k
    using ins(1) [OF outer(1), of k "zip ks vs"] outer(2) [of k] unfolding env_get_def by (simp only:)
  ultimately show ?thesis
    by (auto simp: apply_lambda_def env_for_lambda_def symbol_strings rbind_def risp_error_def err_def)
qed

theorem call_scope_witness:
  "\<exists>inner. apply_lambda (eval 1 quiet_host) (List (map Symbol [''x''])) (Symbol ''y'') [(''y'', Bool True)] [Bool False] [(''y'', List [])] ()
      = pbind (eval 1 quiet_host (Symbol ''y'') inner) (\<lambda>(r, _). ret (r, [(''y'', List [])])) ()
    \<and> env_get ''x'' inner = Some (Bool False) \<and> env_get ''y'' inner = Some (Bool True)"
proof -
  let ?env = "[(''y'', List [])]" and ?cap = "[(''y'', Bool True)]"
  have ok: "bt_ok ?env" "bt_ok ?cap" by (simp_all add: bt_ok_def)
  obtain inner where i: "apply_lambda (eval 1 quiet_host) (List (map Symbol [''x''])) (Symbol ''y'') ?cap [Bool False] ?env
      = pbind (eval 1 quiet_host (Symbol ''y'') inner) (\<lambda>(r, _). ret (r, ?env))"
    "\<forall>k. env_get k inner = (case map_of (rev (zip [''x''] [Bool False])) k of Some v \<Rightarrow> Some v
        | None \<Rightarrow> (case env_get k ?cap of Some v \<Rightarrow> Some v | None \<Rightarrow> env_get k ?env))"
    using call_scope [OF ok, of "[''x'']" "[Bool False]" "eval 1 quiet_host" "Symbol ''y''"] by auto
  have "env_get ''x'' inner = Some (Bool False)" "env_get ''y'' inner = Some (Bool True)" using i(2) by (simp_all add: env_get_def)
  then show ?thesis unfolding i(1) by blast
qed

section \<open>A counting loop\<close>

lemma ok_binds [simp]:
  "ebind (ok v env) f = f v env" "pbind (ok v env) g = g (Inr v, env)" "abind (ret (Inr vs, env)) k = k vs env"
  "abind (Done (Inr vs, env)) k = k vs env" "of_result (Inr v) env = ok v env"
  by (auto simp: ebind_def abind_def ok_def of_result_def pbind_def)

definition sum_source :: string where
  "sum_source = ''(for (< i k) (do (def s (+ s i)) (def i (+ i 1))))''"

definition loop_test :: risp_exp where
  "loop_test = List [Symbol ''<'', Symbol ''i'', Symbol ''k'']"

definition loop_body :: risp_exp where
  "loop_body = List [Symbol ''do'', List [Symbol ''def'', Symbol ''s'', List [Symbol ''+'', Symbol ''s'', Symbol ''i'']],
     List [Symbol ''def'', Symbol ''i'', List [Symbol ''+'', Symbol ''i'', num 1]]]"

lemma sum_source_read: "parse (tokenize sum_source) = Ret (Inr (List [Symbol ''for'', loop_test, loop_body], []))"
proof -
  have "tokenize sum_source = [''('', ''for'', ''('', ''<'', ''i'', ''k'', '')'', ''('', ''do'', ''('', ''def'', ''s'', ''('', ''+'', ''s'', ''i'', '')'', '')'',
      ''('', ''def'', ''i'', ''('', ''+'', ''i'', ''1'', '')'', '')'', '')'', '')'']"
    by (simp add: sum_source_def tokenize_def chars_ascii token_step_def flush_token_def push_char_def is_whitespace_def Let_def encode_ascii)
      code_simp
  moreover have "parse_f64 ''for'' = None" "parse_f64 ''<'' = None" "parse_f64 ''i'' = None" "parse_f64 ''k'' = None"
      "parse_f64 ''do'' = None" "parse_f64 ''def'' = None" "parse_f64 ''s'' = None" "parse_f64 ''+'' = None"
    by code_simp+
  moreover have "nat_str 1 = ''1''" by code_simp
  then have "parse_f64 ''1'' = Some (f64_of_int 1)" using parse_whole [of 1] by simp
  ultimately show ?thesis by (simp add: parse_atom_def loop_test_def loop_body_def)
qed

text \<open>What the loop relies on: the two operators, the bound, the counter and the sum so far.\<close>

definition sum_env :: "int \<Rightarrow> int \<Rightarrow> int \<Rightarrow> risp_env \<Rightarrow> bool" where
  "sum_env k i s env \<longleftrightarrow> bt_ok env \<and> env_get ''+'' env = Some (Func Fn_Add) \<and> env_get ''<'' env = Some (Func Fn_Lt)
    \<and> env_get ''k'' env = Some (num k) \<and> env_get ''i'' env = Some (num i) \<and> env_get ''s'' env = Some (num s)"

lemma eval_plus:
  assumes "env_get ''+'' env = Some (Func Fn_Add)" "eval (Suc n) h a env = ok (num x) env" "eval (Suc n) h b env = ok (num y) env"
    "\<bar>x\<bar> + \<bar>y\<bar> < 2 ^ 53"
  shows "eval (Suc (Suc n)) h (List [Symbol ''+'', a, b]) env = ok (num (x + y)) env"
proof -
  have z: "f64_of_int 0 = f64_zero False" by (simp add: f64_of_int_def round_ratio_def f64_zero_def)
  have "call_func Fn_Add [num x, num y] = Inr (num (x + y))"
    using sum_floats [of 0 "[x, y]"] floats_of_nums [of "[x, y]"] assms(4) by (simp add: fn_add_def rbind_def z)
  moreover have "eval (Suc n) h (Symbol ''+'') env = ok (Func Fn_Add) env" using assms(1) by (simp add: eval_step_def)
  ultimately show ?thesis
    using assms(2,3) unfolding eval.simps(2) [of "Suc n"]
    by (simp add: eval_step_def eval_list_def eval_call_def del: eval.simps)
qed

lemma eval_test:
  assumes "sum_env k i s env" "\<bar>i\<bar> < 2 ^ 53" "\<bar>k\<bar> < 2 ^ 53"
  shows "eval (Suc (Suc n)) h loop_test env = ok (Bool (i < k)) env"
proof -
  have "call_func Fn_Lt [num i, num k] = Inr (Bool (i < k))"
    using ensure_tonicity_whole [of f64_less "(<)" "[i, k]"] assms(2,3) compare_whole by simp
  then show ?thesis
    using assms(1) unfolding loop_test_def sum_env_def
    by (simp add: eval_step_def eval_list_def eval_call_def)
qed

lemma eval_body:
  assumes "sum_env k i s env" "0 \<le> i" "0 \<le> s" "s + i + 1 < 2 ^ 53"
  shows "eval (Suc (Suc (Suc (Suc n)))) h loop_body env
    = ok (Symbol ''i'') (bt_insert ''i'' (num (i + 1)) (bt_insert ''s'' (num (s + i)) env))"
proof -
  let ?env = "bt_insert ''s'' (num (s + i)) env"
  have v: "eval (Suc m) h (Symbol ''s'') env = ok (num s) env" "eval (Suc m) h (Symbol ''i'') env = ok (num i) env"
    "eval (Suc m) h (num 1) env = ok (num 1) env" for m
    using assms(1) by (simp_all add: sum_env_def eval_step_def)
  have p1: "eval (Suc (Suc n)) h (List [Symbol ''+'', Symbol ''s'', Symbol ''i'']) env = ok (num (s + i)) env"
    using assms v by (intro eval_plus) (auto simp: sum_env_def)
  have i: "env_get ''+'' ?env = Some (Func Fn_Add)" "env_get ''i'' ?env = Some (num i)"
    using assms(1) by (simp_all add: sum_env_def env_get_def)
  have p2: "eval (Suc (Suc n)) h (List [Symbol ''+'', Symbol ''i'', num 1]) ?env = ok (num (i + 1)) ?env"
    using assms i by (intro eval_plus) (auto simp: eval_step_def)
  have d: "eval (Suc (Suc (Suc n))) h (List [Symbol ''def'', Symbol x, e]) en = ebind (eval (Suc (Suc n)) h e en) (\<lambda>v en1.
        ok (Symbol x) (bt_insert x v en1))" for x e en
    unfolding eval.simps(2) [of "Suc (Suc n)"] by (simp add: eval_step_def eval_list_def eval_def_def del: eval.simps)
  show ?thesis
    unfolding loop_body_def eval.simps(2) [of "Suc (Suc (Suc n))"]
    by (simp add: eval_step_def eval_list_def d p1 p2 del: eval.simps)
qed

lemma sum_env_next:
  "sum_env k i s env \<Longrightarrow> sum_env k (i + 1) (s + i) (bt_insert ''i'' (num (i + 1)) (bt_insert ''s'' (num (s + i)) env))"
  by (simp add: sum_env_def env_get_def)

text \<open>Twice the sum so far is \<open>i * (i - 1)\<close>, so the next sum is exact when the final one is.\<close>

lemma sum_bound:
  assumes "0 \<le> i" "i < k" "2 * s = i * (i - 1)" "k * (k - 1) < 2 ^ 53" "(k :: int) < 2 ^ 52"
  shows "0 \<le> s" "s + i + 1 < 2 ^ 53"
proof -
  have "0 \<le> i * (i - 1)" using assms(1) by (cases "i = 0") auto
  then show "0 \<le> s" using assms(3) by linarith
  have "0 \<le> (k - i) * (k + i - 1)" using assms(1,2) by simp
  then have "i * (i - 1) \<le> k * (k - 1)" by (simp add: algebra_simps)
  then have "2 * s < 2 ^ 53" using assms(3,4) by linarith
  then show "s + i + 1 < 2 ^ 53" using assms(2,5) by simp
qed

lemma sum_rounds:
  assumes "sum_env k i s env" "0 \<le> i" "i \<le> k" "2 * s = i * (i - 1)" "k * (k - 1) < 2 ^ 53" "k < 2 ^ 52" "nat (k - i) < r"
  shows "\<exists>env' t. for_loop r (eval (Suc (Suc (Suc (Suc n)))) h) loop_test loop_body env = ok (Bool False) env'
    \<and> sum_env k k t env' \<and> 2 * t = k * (k - 1) \<and> (\<forall>x. x \<noteq> ''i'' \<longrightarrow> x \<noteq> ''s'' \<longrightarrow> env_get x env' = env_get x env)"
  using assms
proof (induction r arbitrary: i s env)
  case (Suc r)
  note test = eval_test [OF Suc.prems(1), of "Suc (Suc n)" h]
  show ?case
  proof (cases "i < k")
    case True
    let ?env = "bt_insert ''i'' (num (i + 1)) (bt_insert ''s'' (num (s + i)) env)"
    note b = sum_bound [OF Suc.prems(2) True Suc.prems(4-6)]
    have body: "eval (Suc (Suc (Suc (Suc n)))) h loop_body env = ok (Symbol ''i'') ?env"
      by (rule eval_body [OF Suc.prems(1,2) b])
    have s: "2 * (s + i) = (i + 1) * (i + 1 - 1)" using Suc.prems(4) by (simp add: algebra_simps)
    have "nat (k - (i + 1)) < r" "0 \<le> i + 1" "i + 1 \<le> k" using Suc.prems(2,7) True by auto
    then obtain env' t where r: "for_loop r (eval (Suc (Suc (Suc (Suc n)))) h) loop_test loop_body ?env = ok (Bool False) env'"
      "sum_env k k t env'" "2 * t = k * (k - 1)" "\<forall>x. x \<noteq> ''i'' \<longrightarrow> x \<noteq> ''s'' \<longrightarrow> env_get x env' = env_get x ?env"
      using Suc.IH [OF sum_env_next [OF Suc.prems(1)] _ _ s Suc.prems(5,6)] by blast
    have "bt_ok env" using Suc.prems(1) by (simp add: sum_env_def)
    then have "\<forall>x. x \<noteq> ''i'' \<longrightarrow> x \<noteq> ''s'' \<longrightarrow> env_get x env' = env_get x env" using r(4) by (simp add: env_get_def)
    moreover have "for_loop (Suc r) (eval (Suc (Suc (Suc (Suc n)))) h) loop_test loop_body env = ok (Bool False) env'"
      using test body r(1) True Suc.prems(2,6) by (simp del: eval.simps)
    ultimately show ?thesis using r(2,3) by blast
  next
    case False
    then have "i = k" using Suc.prems(3) by simp
    then show ?thesis using test Suc.prems by (intro exI [of _ env] exI [of _ s]) (simp del: eval.simps)
  qed
qed simp



end
