(* ===== verification/Executor.thy ===== *)
theory Executor
  imports Machine BTree_Map
begin

text \<open>
  The cooperative scheduler (\<^verbatim>\<open>task/mod.rs\<close>, \<^verbatim>\<open>task/executor.rs\<close>). A future is its state \<open>'f\<close> and a poll function
  on the world \<open>'w\<close> it shares with the others; polling tells whether it is finished and which wakers it woke
  meanwhile, one per entry. A waker is the id of the task it pushes. The queue is an argument (\<open>Bounded_Queue\<close>).
\<close>

section \<open>Tasks\<close>

type_synonym task_id = u64
type_synonym ('f, 'w) poll_fn = "task_id \<Rightarrow> 'f \<Rightarrow> 'w \<Rightarrow> bool \<times> 'f \<times> 'w \<times> task_id list"

text \<open>\<^verbatim>\<open>TaskId::new\<close> on the counter \<^verbatim>\<open>NEXT_ID\<close>, which wraps.\<close>

definition task_id_new :: "u64 \<Rightarrow> task_id \<times> u64" where
  "task_id_new next_id = (next_id, next_id + 1)"

text \<open>\<^verbatim>\<open>YieldNow\<close>: the flag is its state.\<close>

definition yield_poll :: "(bool, 'w) poll_fn" where
  "yield_poll waker yielded w = (if yielded then (True, yielded, w, []) else (False, True, w, [waker]))"

record ('f, 'q) executor =
  tasks :: "(task_id, 'f) btree"
  task_queue :: 'q
  waker_cache :: "(task_id, task_id) btree"

definition executor_new :: "(task_id, 'q) queue_ops \<Rightarrow> ('f, 'q) executor" where
  "executor_new Q = \<lparr>tasks = [], task_queue = q_new Q 100, waker_cache = []\<rparr>"

definition spawn :: "(task_id, 'q) queue_ops \<Rightarrow> task_id \<Rightarrow> 'f \<Rightarrow> ('f, 'q) executor \<Rightarrow> ('f, 'q) executor outcome" where
  "spawn Q tid f e =
    (if bt_get tid (tasks e) \<noteq> None then Panic (Panic_Msg ''task with same ID already in tasks'')
     else case q_push Q tid (task_queue e) of
            None \<Rightarrow> Panic (Panic_Msg ''queue full'')
          | Some q \<Rightarrow> Ret (e\<lparr>tasks := bt_insert tid f (tasks e), task_queue := q\<rparr>))"

text \<open>\<^verbatim>\<open>executor.spawn(Task::new(f))\<close>, on the counter of ids, and a sequence of them.\<close>

definition spawn_new :: "(task_id, 'q) queue_ops \<Rightarrow> 'f \<Rightarrow> ('f, 'q) executor \<times> u64 \<Rightarrow> (('f, 'q) executor \<times> u64) outcome" where
  "spawn_new Q f ec = (case task_id_new (snd ec) of (tid, next_id) \<Rightarrow> obind (spawn Q tid f (fst ec)) (\<lambda>e. Ret (e, next_id)))"

section \<open>Running\<close>

definition wake_task :: "(task_id, 'q) queue_ops \<Rightarrow> task_id \<Rightarrow> 'q \<Rightarrow> 'q outcome" where
  "wake_task Q tid q = (case q_push Q tid q of None \<Rightarrow> Panic (Panic_Msg ''task_queue full'') | Some q' \<Rightarrow> Ret q')"

text \<open>The waker of a task, made on first use.\<close>

definition cached_waker :: "task_id \<Rightarrow> (task_id, task_id) btree \<Rightarrow> task_id \<times> (task_id, task_id) btree" where
  "cached_waker tid cache = (case bt_get tid cache of Some v \<Rightarrow> (v, cache) | None \<Rightarrow> (tid, bt_insert tid tid cache))"

text \<open>One turn of the loop of \<^verbatim>\<open>run_ready_tasks\<close>; \<open>None\<close> when the queue is empty.\<close>

definition run_next :: "(task_id, 'q) queue_ops \<Rightarrow> ('f, 'w) poll_fn \<Rightarrow> ('f, 'q) executor \<Rightarrow> 'w
    \<Rightarrow> (('f, 'q) executor \<times> 'w) option outcome" where
  "run_next Q poll e w = (case q_pop Q (task_queue e) of
      None \<Rightarrow> Ret None
    | Some (tid, q) \<Rightarrow> (case bt_get tid (tasks e) of
          None \<Rightarrow> Ret (Some (e\<lparr>task_queue := q\<rparr>, w))
        | Some f \<Rightarrow> (case cached_waker tid (waker_cache e) of (waker, cache) \<Rightarrow>
            case poll waker f w of (ready, f', w', wakes) \<Rightarrow>
            obind (for_each (wake_task Q) wakes q) (\<lambda>q'.
              if ready then Ret (Some (\<lparr>tasks = bt_remove tid (tasks e), task_queue = q', waker_cache = bt_remove tid cache\<rparr>, w'))
              else Ret (Some (\<lparr>tasks = bt_insert tid f' (tasks e), task_queue = q', waker_cache = cache\<rparr>, w'))))))"

fun run_ready_tasks :: "nat \<Rightarrow> (task_id, 'q) queue_ops \<Rightarrow> ('f, 'w) poll_fn \<Rightarrow> ('f, 'q) executor \<Rightarrow> 'w
    \<Rightarrow> (('f, 'q) executor \<times> 'w) outcome" where
  "run_ready_tasks 0 Q poll e w = Hang"
| "run_ready_tasks (Suc n) Q poll e w = obind (run_next Q poll e w) (\<lambda>r. case r of
      None \<Rightarrow> Ret (e, w)
    | Some (e', w') \<Rightarrow> run_ready_tasks n Q poll e' w')"

text \<open>
  \<^verbatim>\<open>sleep_if_idle\<close> looks at the queue with interrupts off; only if it is empty the processor is halted until the next
  interrupt.
\<close>

definition sleep_if_idle :: "(task_id, 'q) queue_ops \<Rightarrow> ('f, 'q) executor \<Rightarrow> machine_event list" where
  "sleep_if_idle Q e = [Interrupts_Off, if q_pop Q (task_queue e) = None then Enable_And_Halt else Interrupts_On]"

text \<open>
  A number of rounds of \<^verbatim>\<open>run\<close>, which has no end of its own. In each round interrupts may reach the queue and the world
  before \<^verbatim>\<open>sleep_if_idle\<close> turns them off, and again once they are on: what they do is the list of the third argument.
\<close>

type_synonym ('q, 'w) interrupts = "'q \<Rightarrow> 'w \<Rightarrow> 'q \<times> 'w"

fun executor_run :: "nat \<Rightarrow> (task_id, 'q) queue_ops \<Rightarrow> ('f, 'w) poll_fn \<Rightarrow> (('q, 'w) interrupts \<times> ('q, 'w) interrupts) list
    \<Rightarrow> ('f, 'q) executor \<Rightarrow> 'w \<Rightarrow> ((('f, 'q) executor \<times> 'w) \<times> machine_event list) outcome" where
  "executor_run n Q poll [] e w = Ret ((e, w), [])"
| "executor_run n Q poll ((before, after) # later) e w = obind (run_ready_tasks n Q poll e w) (\<lambda>(e1, w1).
     case before (task_queue e1) w1 of (q2, w2) \<Rightarrow>
     case after q2 w2 of (q3, w3) \<Rightarrow>
     obind (executor_run n Q poll later (e1\<lparr>task_queue := q3\<rparr>) w3) (\<lambda>(r, events).
       Ret (r, sleep_if_idle Q (e1\<lparr>task_queue := q2\<rparr>) @ events)))"

text \<open>A number of turns, for as long as the queue is not empty.\<close>

fun turns :: "nat \<Rightarrow> (task_id, 'q) queue_ops \<Rightarrow> ('f, 'w) poll_fn \<Rightarrow> ('f, 'q) executor \<Rightarrow> 'w
    \<Rightarrow> (('f, 'q) executor \<times> 'w) option outcome" where
  "turns 0 Q poll e w = Ret (Some (e, w))"
| "turns (Suc n) Q poll e w = obind (run_next Q poll e w) (\<lambda>r. case r of
      None \<Rightarrow> Ret None
    | Some (e', w') \<Rightarrow> turns n Q poll e' w')"

section \<open>The invariant\<close>

definition exec_inv :: "('f, 'q) executor \<Rightarrow> bool" where
  "exec_inv e \<longleftrightarrow> bt_ok (tasks e) \<and> bt_ok (waker_cache e)
     \<and> (\<forall>tid v. bt_get tid (waker_cache e) = Some v \<longrightarrow> v = tid \<and> bt_get tid (tasks e) \<noteq> None)"

text \<open>Futures that wake at most one task per poll, as \<open>yield_poll\<close> does.\<close>

definition modest :: "('f, 'w) poll_fn \<Rightarrow> bool" where
  "modest poll \<longleftrightarrow> (\<forall>k f w. case poll k f w of (_, _, _, wakes) \<Rightarrow> length wakes \<le> 1)"

lemma cached_waker_inv:
  assumes "exec_inv e" "bt_get tid (tasks e) \<noteq> None" "cached_waker tid (waker_cache e) = (waker, cache)"
  shows "waker = tid" "bt_ok cache" "\<And>j v. bt_get j cache = Some v \<Longrightarrow> v = j \<and> bt_get j (tasks e) \<noteq> None"
  using assms by (auto simp: exec_inv_def cached_waker_def split: option.splits if_splits)

lemma wake_all_Ret:
  assumes Q: "bounded_fifo Q items capacity"
  shows "length (items q) + length ids \<le> capacity q \<Longrightarrow>
    \<exists>q'. for_each (wake_task Q) ids q = Ret q' \<and> items q' = items q @ ids \<and> capacity q' = capacity q"
proof (induction ids arbitrary: q)
  case (Cons tid ids)
  obtain q1 where "q_push Q tid q = Some q1" "items q1 = items q @ [tid]" "capacity q1 = capacity q"
    using fifo_push [OF Q, of q tid] Cons.prems by auto
  then show ?case using Cons.IH [of q1] Cons.prems by (auto simp: wake_task_def)
qed simp

lemma run_next_inv:
  assumes "exec_inv e" "run_next Q poll e w = Ret (Some (e', w'))"
  shows "exec_inv e'"
proof -
  obtain tid q where p: "q_pop Q (task_queue e) = Some (tid, q)"
    using assms(2) by (auto simp: run_next_def split: option.splits)
  show ?thesis
  proof (cases "bt_get tid (tasks e)")
    case None
    then show ?thesis using assms p by (auto simp: run_next_def exec_inv_def)
  next
    case (Some f)
    obtain waker cache where c: "cached_waker tid (waker_cache e) = (waker, cache)" by fastforce
    obtain ready f' w1 wakes where r: "poll waker f w = (ready, f', w1, wakes)" by (cases "poll waker f w") auto
    have ne: "bt_get tid (tasks e) \<noteq> None" using Some by simp
    note ci = cached_waker_inv [OF assms(1) ne c]
    have t: "bt_ok (tasks e)" using assms(1) by (simp add: exec_inv_def)
    show ?thesis
      using assms(2) p Some c r ci t by (cases ready) (auto simp: run_next_def exec_inv_def elim!: obind_RetE split: if_splits)
  qed
qed

text \<open>A turn with modest futures: it never panics, and takes one id off the queue and adds at most one.\<close>

lemma run_next_modest:
  assumes Q: "bounded_fifo Q items capacity" and m: "modest poll"
    and q: "items (task_queue e) = tid # rest" "length (items (task_queue e)) \<le> capacity (task_queue e)"
  shows "\<exists>e' w' new. run_next Q poll e w = Ret (Some (e', w')) \<and> items (task_queue e') = rest @ new \<and> length new \<le> 1
    \<and> capacity (task_queue e') = capacity (task_queue e)
    \<and> (\<forall>j. j \<noteq> tid \<longrightarrow> bt_ok (tasks e) \<longrightarrow> bt_get j (tasks e') = bt_get j (tasks e))
    \<and> (case bt_get tid (tasks e) of None \<Rightarrow> new = []
       | Some f \<Rightarrow> (\<exists>ready f'. poll (fst (cached_waker tid (waker_cache e))) f w = (ready, f', w', new)
           \<and> (bt_ok (tasks e) \<longrightarrow> bt_get tid (tasks e') = (if ready then None else Some f'))))"
proof -
  obtain q' where p: "q_pop Q (task_queue e) = Some (tid, q')"
    using fifo_pop_None [OF Q, of "task_queue e"] fifo_pop_Some(1) [OF Q, of "task_queue e"] q(1)
    by (cases "q_pop Q (task_queue e)") auto
  note p' = fifo_pop_Some [OF Q p]
  show ?thesis
  proof (cases "bt_get tid (tasks e)")
    case None
    then show ?thesis using p p' q(1) by (simp add: run_next_def)
  next
    case (Some f)
    obtain waker cache where c: "cached_waker tid (waker_cache e) = (waker, cache)" by fastforce
    obtain ready f' w' wakes where r: "poll waker f w = (ready, f', w', wakes)" by (cases "poll waker f w") auto
    have len: "length wakes \<le> 1" using m r unfolding modest_def by (metis case_prod_conv)
    have "length (items q') + length wakes \<le> capacity q'" using len p' q by simp
    from wake_all_Ret [OF Q this] obtain q'' where q'': "for_each (wake_task Q) wakes q' = Ret q''"
        "items q'' = items q' @ wakes" "capacity q'' = capacity q'" by blast
    show ?thesis
      using p p' Some c r q'' len q(1) by (cases ready) (auto simp: run_next_def)
  qed
qed

lemma run_next_cap:
  assumes "bounded_fifo Q items capacity" "modest poll" "items (task_queue e) = tid # rest"
    and "length (items (task_queue e)) \<le> capacity (task_queue e)" "exec_inv e" "run_next Q poll e w = Ret (Some (e', w'))"
  shows "exec_inv e'" "length (items (task_queue e')) \<le> capacity (task_queue e')"
  using run_next_inv [OF assms(5,6)] run_next_modest [OF assms(1-4), of w] assms(3,4,6) by auto

section \<open>Properties\<close>

text \<open>
  C23: waiting is bounded. When every future wakes at most one task per poll, a task whose id is in the queue
  behind \<open>n\<close> others is untouched for \<open>n\<close> turns, none of which panics, and is polled in the next turn, with its own
  waker.
\<close>

theorem queued_task_runs:
  assumes "bounded_fifo Q items capacity" and "modest poll" and "exec_inv e"
    and "items (task_queue e) = xs @ tid # ys" and "length (items (task_queue e)) \<le> capacity (task_queue e)"
    and "tid \<notin> set xs" and "bt_get tid (tasks e) = Some f"
  shows "\<exists>e1 w1 e2 w2 ready f' wakes. turns (length xs) Q poll e w = Ret (Some (e1, w1))
    \<and> run_next Q poll e1 w1 = Ret (Some (e2, w2)) \<and> poll tid f w1 = (ready, f', w2, wakes)
    \<and> bt_get tid (tasks e2) = (if ready then None else Some f')"
  using assms(3-7)
proof (induction xs arbitrary: e w ys)
  case Nil
  have q: "items (task_queue e) = tid # ys" and ok: "bt_ok (tasks e)" using Nil by (auto simp: exec_inv_def)
  have "fst (cached_waker tid (waker_cache e)) = tid"
    using cached_waker_inv(1) [OF Nil.prems(1), of tid] Nil.prems(5) by (metis option.distinct(1) prod.collapse)
  then show ?case
    using run_next_modest [OF assms(1,2) q Nil.prems(3), of w] Nil.prems(5) ok by auto
next
  case (Cons x xs)
  have q: "items (task_queue e) = x # (xs @ tid # ys)" using Cons.prems(2) by simp
  obtain e' w' new where s: "run_next Q poll e w = Ret (Some (e', w'))" "items (task_queue e') = (xs @ tid # ys) @ new"
      "\<forall>j. j \<noteq> x \<longrightarrow> bt_ok (tasks e) \<longrightarrow> bt_get j (tasks e') = bt_get j (tasks e)"
    using run_next_modest [OF assms(1,2) q Cons.prems(3), of w] by blast
  note i = run_next_cap [OF assms(1,2) q Cons.prems(3,1) s(1)]
  have "bt_get tid (tasks e') = Some f" using s(3) Cons.prems(1,4,5) by (auto simp: exec_inv_def)
  then show ?case using Cons.IH [of e' "ys @ new" w'] i s(1,2) Cons.prems(4) by simp
qed

lemma yield_modest: "modest yield_poll"
  by (auto simp: modest_def yield_poll_def)

theorem queued_task_runs_witness:
  "\<exists>e1 w1 e2 w2 ready f' wakes.
     turns (Suc 0) list_queue yield_poll \<lparr>tasks = [(0, False), (1, False)], task_queue = (100, [0, 1]), waker_cache = []\<rparr> () = Ret (Some (e1, w1))
   \<and> run_next list_queue yield_poll e1 w1 = Ret (Some (e2, w2)) \<and> yield_poll 1 False w1 = (ready, f', w2, wakes)"
proof -
  let ?e = "\<lparr>tasks = [(0, False), (1, False)], task_queue = (100, [0, 1]), waker_cache = []\<rparr> :: (bool, nat \<times> u64 list) executor"
  have "exec_inv ?e" by (simp add: exec_inv_def bt_ok_def)
  then show ?thesis
    using queued_task_runs [OF list_queue_fifo yield_modest, of ?e "[0]" 1 "[]" False "()"]
    by (simp del: turns.simps) blast
qed

text \<open>
  C39: while one task keeps yielding, the executor never gets to \<^verbatim>\<open>sleep_if_idle\<close>: if every poll of the task leaves
  it unfinished and wakes it, \<^verbatim>\<open>run_ready_tasks\<close> does not return, whatever number of turns it is granted, and
  never panics. The shell is such a task.
\<close>

theorem yielding_task_keeps_running:
  assumes "bounded_fifo Q items capacity" and "modest poll"
    and again: "\<forall>f w. S f \<longrightarrow> (\<exists>f' w'. poll tid f w = (False, f', w', [tid]) \<and> S f')"
    and "exec_inv e" and "length (items (task_queue e)) \<le> capacity (task_queue e)"
    and "tid \<in> set (items (task_queue e))" and "bt_get tid (tasks e) = Some f" and "S f"
  shows "run_ready_tasks n Q poll e w = Hang"
  using assms(4-8)
proof (induction n arbitrary: e f w)
  case (Suc n)
  obtain x rest where q: "items (task_queue e) = x # rest" using Suc.prems(3) by (cases "items (task_queue e)") auto
  obtain e' w' new where s: "run_next Q poll e w = Ret (Some (e', w'))" "items (task_queue e') = rest @ new"
      "\<forall>j. j \<noteq> x \<longrightarrow> bt_ok (tasks e) \<longrightarrow> bt_get j (tasks e') = bt_get j (tasks e)"
      "case bt_get x (tasks e) of None \<Rightarrow> new = []
       | Some g \<Rightarrow> (\<exists>ready f'. poll (fst (cached_waker x (waker_cache e))) g w = (ready, f', w', new)
           \<and> (bt_ok (tasks e) \<longrightarrow> bt_get x (tasks e') = (if ready then None else Some f')))"
    using run_next_modest [OF assms(1,2) q Suc.prems(2), of w] by blast
  note i = run_next_cap [OF assms(1,2) q Suc.prems(2,1) s(1)]
  have ok: "bt_ok (tasks e)" using Suc.prems(1) by (simp add: exec_inv_def)
  have "\<exists>f'. tid \<in> set (items (task_queue e')) \<and> bt_get tid (tasks e') = Some f' \<and> S f'"
  proof (cases "x = tid")
    case True
    have "fst (cached_waker tid (waker_cache e)) = tid"
      using cached_waker_inv(1) [OF Suc.prems(1), of tid] Suc.prems(4) by (metis option.distinct(1) prod.collapse)
    moreover obtain f' w1 where "poll tid f w = (False, f', w1, [tid])" "S f'" using again Suc.prems(5) by blast
    ultimately show ?thesis using s(2,4) True Suc.prems(4) ok by auto
  next
    case False
    then show ?thesis using s(2,3) Suc.prems(3-5) ok q by auto
  qed
  then show ?case using Suc.IH i s(1) by auto
qed simp

definition shell_like :: "(unit, unit) poll_fn" where
  "shell_like waker f w = (False, f, w, [waker])"

theorem yielding_task_keeps_running_witness:
  "run_ready_tasks 1000 list_queue shell_like \<lparr>tasks = [(0, ())], task_queue = (100, [0]), waker_cache = []\<rparr> () = Hang"
proof -
  let ?e = "\<lparr>tasks = [(0, ())], task_queue = (100, [0]), waker_cache = []\<rparr> :: (unit, nat \<times> u64 list) executor"
  have "modest shell_like" "exec_inv ?e" by (auto simp: modest_def shell_like_def exec_inv_def bt_ok_def)
  then show ?thesis
    using yielding_task_keeps_running [OF list_queue_fifo, of shell_like "\<lambda>_. True" 0 ?e "()" 1000 "()"]
    by (auto simp: shell_like_def)
qed

text \<open>The executor after spawning \<open>k\<close> tasks.\<close>

definition spawned :: "('q \<Rightarrow> task_id list) \<Rightarrow> ('q \<Rightarrow> nat) \<Rightarrow> 'f list \<Rightarrow> ('f, 'q) executor \<times> u64 \<Rightarrow> bool" where
  "spawned items capacity fs ec \<longleftrightarrow> exec_inv (fst ec) \<and> snd ec = of_nat (length fs)
     \<and> items (task_queue (fst ec)) = map of_nat [0..<length fs] \<and> capacity (task_queue (fst ec)) = 100
     \<and> (\<forall>tid. bt_get tid (tasks (fst ec)) = (if unat tid < length fs then Some (fs ! unat tid) else None))"

lemma spawn_new_spawned:
  assumes Q: "bounded_fifo Q items capacity" and s: "spawned items capacity fs ec" and n: "length fs < 100"
  shows "\<exists>ec'. spawn_new Q f ec = Ret ec' \<and> spawned items capacity (fs @ [f]) ec'"
proof -
  let ?t = "of_nat (length fs) :: u64"
  have u: "unat ?t = length fs" using n by (intro unat_of_nat_small) simp
  have none: "bt_get ?t (tasks (fst ec)) = None" using s u by (simp add: spawned_def)
  obtain q where q: "q_push Q ?t (task_queue (fst ec)) = Some q" "items q = items (task_queue (fst ec)) @ [?t]"
      "capacity q = capacity (task_queue (fst ec))"
    using fifo_push [OF Q, of "task_queue (fst ec)" ?t] s n by (auto simp: spawned_def)
  have t: "tid = ?t \<longleftrightarrow> unat tid = length fs" for tid :: u64 using u by (metis word_unat_eq_iff)
  let ?e = "(fst ec)\<lparr>tasks := bt_insert ?t f (tasks (fst ec)), task_queue := q\<rparr>"
  have "spawn_new Q f ec = Ret (?e, ?t + 1)"
    using s none q(1) by (simp add: spawn_new_def task_id_new_def spawn_def spawned_def)
  moreover have "exec_inv (fst ec)" using s by (simp add: spawned_def)
  then have "exec_inv ?e" by (auto simp: exec_inv_def)
  then have "spawned items capacity (fs @ [f]) (?e, ?t + 1)"
    using s q(2,3) by (auto simp: spawned_def exec_inv_def t nth_append)
  ultimately show ?thesis by blast
qed

text \<open>
  Up to 100 tasks can be spawned on a new executor: none of them panics, they get the ids 0, 1, 2 and so on,
  each id is bound to its own future, and the queue holds them in the order of spawning.
\<close>

theorem spawn_order:
  assumes "bounded_fifo Q items capacity" and "length fs \<le> 100"
  shows "\<exists>ec. for_each (spawn_new Q) fs (executor_new Q, 0) = Ret ec \<and> spawned items capacity fs ec"
  using assms(2)
proof (induction fs rule: rev_induct)
  case Nil
  then show ?case by (simp add: spawned_def executor_new_def exec_inv_def fifo_new [OF assms(1)])
next
  case (snoc f fs)
  then obtain ec where "for_each (spawn_new Q) fs (executor_new Q, 0) = Ret ec" "spawned items capacity fs ec" by auto
  then show ?case using spawn_new_spawned [OF assms(1), of fs ec f] snoc.prems by (auto simp: for_each_append)
qed

theorem spawn_order_witness:
  "\<exists>ec. for_each (spawn_new list_queue) [''keyboard'', ''shell''] (executor_new list_queue, 0) = Ret ec
    \<and> snd (task_queue (fst ec)) = [0, 1] \<and> bt_get 1 (tasks (fst ec)) = Some ''shell''"
  using spawn_order [OF list_queue_fifo, of "[''keyboard'', ''shell'']"] by (auto simp: spawned_def)

section \<open>Sleeping\<close>

lemma ready_tasks_done:
  assumes "bounded_fifo Q items capacity"
  shows "run_ready_tasks n Q poll e w = Ret (e', w') \<Longrightarrow> items (task_queue e') = []"
proof (induction n arbitrary: e w)
  case (Suc n)
  have "run_next Q poll e w = Ret None \<Longrightarrow> items (task_queue e) = []"
    using fifo_pop_None [OF assms, of "task_queue e"]
    by (auto simp: run_next_def obind_def split: option.splits prod.splits outcome.splits if_splits)
  then show ?case using Suc by (auto simp: obind_def split: outcome.splits option.splits)
qed simp



end
