(* ===== verification/Memory.thy ===== *)
theory Memory
  imports Prelude
begin

text \<open>
  Paging and the frame allocator (\<^verbatim>\<open>memory.rs\<close>) and the set-up of the heap (\<^verbatim>\<open>allocator.rs\<close>). Addresses are
  natural numbers. The page tables, the mapper, the page and frame types are those of the \<^verbatim>\<open>x86_64\<close> crate and the
  heap is that of \<^verbatim>\<open>linked_list_allocator\<close>; they are arguments, with their documented behaviour as hypotheses.
\<close>

section \<open>Address translation\<close>

datatype frame_result = Frame nat | Frame_Not_Present | Huge_Frame

text \<open>
  The indices of a virtual address into the tables of levels 4 to 1, its offset in the page, the checked
  additions on virtual and physical addresses, and the frame of an entry of the table at a virtual address.
\<close>

record paging =
  va_index :: "nat \<Rightarrow> nat \<Rightarrow> nat"
  va_offset :: "nat \<Rightarrow> nat"
  va_add :: "nat \<Rightarrow> nat \<Rightarrow> nat outcome"
  pa_add :: "nat \<Rightarrow> nat \<Rightarrow> nat outcome"
  entry_frame :: "nat \<Rightarrow> nat \<Rightarrow> frame_result"

definition active_level_4_table :: "paging \<Rightarrow> nat \<Rightarrow> nat \<Rightarrow> nat outcome" where
  "active_level_4_table P cr3 physical_memory_offset = va_add P physical_memory_offset cr3"

text \<open>\<^verbatim>\<open>memory::init\<close>: the level 4 table and the offset the mapper works with.\<close>

definition memory_init :: "paging \<Rightarrow> nat \<Rightarrow> nat \<Rightarrow> (nat \<times> nat) outcome" where
  "memory_init P cr3 physical_memory_offset =
     obind (active_level_4_table P cr3 physical_memory_offset) (\<lambda>table. Ret (table, physical_memory_offset))"

fun walk_tables :: "paging \<Rightarrow> nat \<Rightarrow> nat list \<Rightarrow> nat \<Rightarrow> nat option outcome" where
  "walk_tables P physical_memory_offset [] frame = Ret (Some frame)"
| "walk_tables P physical_memory_offset (index # table_indexes) frame =
    obind (va_add P physical_memory_offset frame) (\<lambda>virt.
    case entry_frame P virt index of
      Frame frame' \<Rightarrow> walk_tables P physical_memory_offset table_indexes frame'
    | Frame_Not_Present \<Rightarrow> Ret None
    | Huge_Frame \<Rightarrow> Panic (Panic_Msg ''huge pages not supported''))"

definition translate_addr :: "paging \<Rightarrow> nat \<Rightarrow> nat \<Rightarrow> nat \<Rightarrow> nat option outcome" where
  "translate_addr P cr3 addr physical_memory_offset =
    obind (walk_tables P physical_memory_offset [va_index P 4 addr, va_index P 3 addr, va_index P 2 addr, va_index P 1 addr] cr3)
      (\<lambda>r. case r of
         None \<Rightarrow> Ret None
       | Some frame \<Rightarrow> obind (pa_add P frame (va_offset P addr)) (\<lambda>pa. Ret (Some pa)))"

section \<open>Frames\<close>

datatype region_type = Usable | Other_Region nat

record region =
  region_type :: region_type
  start_addr :: nat
  end_addr :: nat

record frame_allocator =
  memory_map :: "region list"
  next_frame :: nat

definition frame_allocator_init :: "region list \<Rightarrow> frame_allocator" where
  "frame_allocator_init mm = \<lparr>memory_map = mm, next_frame = 0\<rparr>"

text \<open>\<^verbatim>\<open>(start..end).step_by(4096)\<close>.\<close>

definition frame_addresses :: "region \<Rightarrow> nat list" where
  "frame_addresses r = map (\<lambda>i. start_addr r + 4096 * i) [0..<(end_addr r - start_addr r + 4095) div 4096]"

definition usable_frames :: "(nat \<Rightarrow> nat) \<Rightarrow> frame_allocator \<Rightarrow> nat list" where
  "usable_frames containing fa =
     map containing (concat (map frame_addresses (filter (\<lambda>r. region_type r = Usable) (memory_map fa))))"

definition allocate_frame :: "(nat \<Rightarrow> nat) \<Rightarrow> frame_allocator \<Rightarrow> (nat option \<times> frame_allocator) outcome" where
  "allocate_frame containing fa =
    (let frames = usable_frames containing fa;
         frame = (if next_frame fa < length frames then Some (frames ! next_frame fa) else None)
     in if next_frame fa + 1 < 2 ^ 64 then Ret (frame, fa\<lparr>next_frame := next_frame fa + 1\<rparr>) else Panic Overflow)"

text \<open>\<^verbatim>\<open>EmptyFrameAllocator\<close>.\<close>

definition empty_allocate_frame :: "'a \<Rightarrow> (nat option \<times> 'a) outcome" where
  "empty_allocate_frame a = Ret (None, a)"

section \<open>Mapping\<close>

datatype page_flag = Present | Writable

datatype 'x map_error = Frame_Allocation_Failed | Mapper_Error 'x

text \<open>
  The mapper: \<open>map_to\<close> takes the allocator's operation and its state, from which it takes frames for new
  tables.
\<close>

type_synonym ('m, 'a, 'x) mapper =
  "('a \<Rightarrow> (nat option \<times> 'a) outcome) \<Rightarrow> nat \<Rightarrow> nat \<Rightarrow> page_flag list \<Rightarrow> 'm \<Rightarrow> 'a \<Rightarrow> (('x + 'm) \<times> 'a) outcome"

definition create_example_mapping :: "('m, 'a, 'x) mapper \<Rightarrow> (nat \<Rightarrow> nat) \<Rightarrow> ('a \<Rightarrow> (nat option \<times> 'a) outcome)
    \<Rightarrow> nat \<Rightarrow> 'm \<Rightarrow> 'a \<Rightarrow> ('m \<times> 'a) outcome" where
  "create_example_mapping map_to containing allocate page m a =
    obind (map_to allocate page (containing 0xb8000) [Present, Writable] m a) (\<lambda>(r, a').
      case r of Inr m' \<Rightarrow> Ret (m', a') | Inl _ \<Rightarrow> Panic (Panic_Msg ''map_to failed''))"

section \<open>The heap\<close>

definition HEAP_START :: nat where
  "HEAP_START = 0x444444440000"

definition HEAP_SIZE :: nat where
  "HEAP_SIZE = 8 * 1024 * 1024"

definition map_page :: "('m, 'a, 'x) mapper \<Rightarrow> ('a \<Rightarrow> (nat option \<times> 'a) outcome) \<Rightarrow> nat \<Rightarrow> 'm \<Rightarrow> 'a
    \<Rightarrow> (('x map_error + 'm) \<times> 'a) outcome" where
  "map_page map_to allocate page m a =
    obind (allocate a) (\<lambda>(frame, a1). case frame of
      None \<Rightarrow> Ret (Inl Frame_Allocation_Failed, a1)
    | Some f \<Rightarrow> obind (map_to allocate page f [Present, Writable] m a1) (\<lambda>(r, a2).
        Ret (case r of Inl x \<Rightarrow> Inl (Mapper_Error x) | Inr m' \<Rightarrow> Inr m', a2)))"

fun map_pages :: "('m, 'a, 'x) mapper \<Rightarrow> ('a \<Rightarrow> (nat option \<times> 'a) outcome) \<Rightarrow> nat list \<Rightarrow> 'm \<Rightarrow> 'a
    \<Rightarrow> (('x map_error + 'm) \<times> 'a) outcome" where
  "map_pages map_to allocate [] m a = Ret (Inr m, a)"
| "map_pages map_to allocate (page # pages) m a =
    obind (map_page map_to allocate page m a) (\<lambda>(r, a1). case r of
      Inl x \<Rightarrow> Ret (Inl x, a1)
    | Inr m' \<Rightarrow> map_pages map_to allocate pages m' a1)"

text \<open>
  \<^verbatim>\<open>init_heap\<close>: \<open>pages s e\<close> is the range of the pages from the one containing \<open>s\<close> to the one containing \<open>e\<close>. On
  success the heap has the given start and size.
\<close>

definition init_heap :: "('m, 'a, 'x) mapper \<Rightarrow> (nat \<Rightarrow> nat \<Rightarrow> nat list) \<Rightarrow> ('a \<Rightarrow> (nat option \<times> 'a) outcome)
    \<Rightarrow> 'm \<Rightarrow> 'a \<Rightarrow> (('x map_error + ('m \<times> nat \<times> nat)) \<times> 'a) outcome" where
  "init_heap map_to pages allocate m a =
    obind (map_pages map_to allocate (pages HEAP_START (HEAP_START + HEAP_SIZE - 1)) m a) (\<lambda>(r, a').
      Ret (case r of Inl x \<Rightarrow> Inl x | Inr m' \<Rightarrow> Inr (m', HEAP_START, HEAP_SIZE), a'))"

text \<open>The allocator \<^verbatim>\<open>Dummy\<close>, which is not the global one.\<close>

definition dummy_alloc :: "nat" where
  "dummy_alloc = 0"

definition dummy_dealloc :: "unit outcome" where
  "dummy_dealloc = Panic (Panic_Msg ''dealloc should be never called'')"

section \<open>Translation is page by page\<close>

text \<open>The documented indices and offset of 48-bit addresses with four levels of 512 entries.\<close>

definition four_level :: "paging \<Rightarrow> bool" where
  "four_level P \<longleftrightarrow> (\<forall>a. va_offset P a = a mod 4096)
     \<and> (\<forall>k a. 1 \<le> k \<and> k \<le> 4 \<longrightarrow> va_index P k a = a div 2 ^ (12 + 9 * (k - 1)) mod 512)"

lemma same_page_index:
  assumes "four_level P" "a div 4096 = b div 4096" "1 \<le> k" "k \<le> 4"
  shows "va_index P k a = va_index P k b"
proof -
  have "x div 2 ^ (12 + 9 * (k - 1)) = x div 4096 div 2 ^ (9 * (k - 1))" for x :: nat
    by (simp add: power_add div_mult2_eq)
  then show ?thesis using assms by (simp add: four_level_def)
qed

lemma translate_same_page:
  assumes "four_level P" "a div 4096 = b div 4096" "\<forall>f d. pa_add P f d = Ret (f + d)"
    and "translate_addr P cr3 a off = Ret (Some pa)"
  shows "translate_addr P cr3 b off = Ret (Some (pa - a mod 4096 + b mod 4096))" "a mod 4096 \<le> pa"
proof -
  let ?ix = "\<lambda>x. [va_index P 4 x, va_index P 3 x, va_index P 2 x, va_index P 1 x]"
  have ix: "?ix b = ?ix a" using same_page_index [OF assms(1,2)] by simp
  obtain r where r: "walk_tables P off (?ix a) cr3 = Ret r"
    using assms(4) unfolding translate_addr_def by (auto elim: obind_RetE)
  obtain frame where "r = Some frame" using assms(4) r by (cases r) (auto simp: translate_addr_def)
  moreover have "va_offset P x = x mod 4096" for x using assms(1) by (simp add: four_level_def)
  ultimately show "translate_addr P cr3 b off = Ret (Some (pa - a mod 4096 + b mod 4096))" "a mod 4096 \<le> pa"
    using r assms(3,4) unfolding translate_addr_def ix by auto
qed

section \<open>Frames are handed out once\<close>

text \<open>What the bootloader documents of its memory map: page-aligned regions that do not overlap.\<close>

definition regions_ok :: "region list \<Rightarrow> bool" where
  "regions_ok mm \<longleftrightarrow> (\<forall>r\<in>set mm. 4096 dvd start_addr r \<and> 4096 dvd end_addr r)
     \<and> sorted_wrt (\<lambda>r s. end_addr r \<le> start_addr s \<or> end_addr s \<le> start_addr r) mm"

definition aligns_down :: "(nat \<Rightarrow> nat) \<Rightarrow> bool" where
  "aligns_down containing \<longleftrightarrow> (\<forall>a. containing a = a div 4096 * 4096)"

lemma frame_addresses_bounds:
  assumes "x \<in> set (frame_addresses r)" "4096 dvd start_addr r" "4096 dvd end_addr r"
  shows "start_addr r \<le> x" "x + 4096 \<le> end_addr r" "4096 dvd x"
proof -
  obtain i where i: "x = start_addr r + 4096 * i" "i < (end_addr r - start_addr r + 4095) div 4096"
    using assms(1) by (auto simp: frame_addresses_def)
  obtain s e where se: "start_addr r = 4096 * s" "end_addr r = 4096 * e" using assms(2,3) by (auto elim!: dvdE)
  have "i < e - s" using i(2) se by (simp add: diff_mult_distrib2 [symmetric])
  then show "start_addr r \<le> x" "x + 4096 \<le> end_addr r" "4096 dvd x" using i(1) se by simp_all
qed

lemma length_frame_addresses: "length (frame_addresses r) = (end_addr r - start_addr r + 4095) div 4096"
  by (simp add: frame_addresses_def)

lemma distinct_frame_addresses: "distinct (frame_addresses r)"
  by (auto simp: frame_addresses_def distinct_map inj_on_def)

lemma distinct_region_frames:
  "regions_ok mm \<Longrightarrow> distinct (concat (map frame_addresses mm))"
proof (induction mm)
  case (Cons r mm)
  have al: "4096 dvd start_addr s" "4096 dvd end_addr s" if "s \<in> set (r # mm)" for s
    using Cons.prems that by (auto simp: regions_ok_def)
  have "set (frame_addresses r) \<inter> set (frame_addresses s) = {}" if s: "s \<in> set mm" for s
  proof -
    have "end_addr r \<le> start_addr s \<or> end_addr s \<le> start_addr r" using Cons.prems s by (simp add: regions_ok_def)
    then show ?thesis
      using frame_addresses_bounds(1,2) [of _ r] frame_addresses_bounds(1,2) [of _ s] al [of r] al [of s] s by fastforce
  qed
  then show ?case using Cons distinct_frame_addresses by (auto simp: regions_ok_def)
qed simp

lemma regions_ok_filter: "regions_ok mm \<Longrightarrow> regions_ok (filter p mm)"
  by (auto simp: regions_ok_def sorted_wrt_filter)

lemma usable_frames_aligned:
  assumes "regions_ok (memory_map fa)" "aligns_down containing"
  shows "usable_frames containing fa = concat (map frame_addresses (filter (\<lambda>r. region_type r = Usable) (memory_map fa)))"
proof -
  have "containing x = x"
    if "x \<in> set (frame_addresses r)" "r \<in> set (memory_map fa)" for x r
    using frame_addresses_bounds(3) [OF that(1)] assms that(2) by (auto simp: regions_ok_def aligns_down_def)
  then show ?thesis by (auto simp: usable_frames_def intro!: map_idI)
qed

lemma usable_frames_distinct:
  assumes "regions_ok (memory_map fa)" "aligns_down containing"
  shows "distinct (usable_frames containing fa)"
  using distinct_region_frames [OF regions_ok_filter [OF assms(1)]] by (simp add: usable_frames_aligned [OF assms])

lemma usable_frames_in_region:
  assumes "regions_ok (memory_map fa)" "aligns_down containing" "f \<in> set (usable_frames containing fa)"
  shows "\<exists>r\<in>set (memory_map fa). region_type r = Usable \<and> start_addr r \<le> f \<and> f + 4096 \<le> end_addr r"
  using assms(3) frame_addresses_bounds(1,2) [of f] assms(1)
  by (fastforce simp: usable_frames_aligned [OF assms(1,2)] regions_ok_def)

lemma usable_frames_next [simp]: "usable_frames containing (fa\<lparr>next_frame := k\<rparr>) = usable_frames containing fa"
  by (simp add: usable_frames_def)

fun allocate_many :: "(nat \<Rightarrow> nat) \<Rightarrow> nat \<Rightarrow> frame_allocator \<Rightarrow> (nat option list \<times> frame_allocator) outcome" where
  "allocate_many containing 0 fa = Ret ([], fa)"
| "allocate_many containing (Suc n) fa = obind (allocate_frame containing fa) (\<lambda>(frame, fa1).
     obind (allocate_many containing n fa1) (\<lambda>(frames, fa2). Ret (frame # frames, fa2)))"

definition nth_frame :: "nat list \<Rightarrow> nat \<Rightarrow> nat option" where
  "nth_frame frames i = (if i < length frames then Some (frames ! i) else None)"

lemma allocate_many_eq:
  "next_frame fa + n < 2 ^ 64 \<Longrightarrow>
    allocate_many containing n fa =
      Ret (map (nth_frame (usable_frames containing fa)) [next_frame fa..<next_frame fa + n], fa\<lparr>next_frame := next_frame fa + n\<rparr>)"
proof (induction n arbitrary: fa)
  case (Suc n)
  have "[next_frame fa..<next_frame fa + Suc n] = next_frame fa # [Suc (next_frame fa)..<Suc (next_frame fa) + n]"
    by (simp add: upt_rec [of "next_frame fa"])
  then show ?case
    using Suc by (simp add: allocate_frame_def Let_def nth_frame_def)
qed simp

section \<open>The heap is mapped\<close>

text \<open>
  What is documented of the mapper: an unmapped page is mapped to the frame given, for which it may take up
  to three frames for new tables from the allocator, and no other page changes; and of a range of pages.
\<close>

definition mapper_ok :: "(nat \<Rightarrow> nat) \<Rightarrow> ('m, frame_allocator, 'x) mapper \<Rightarrow> ('m \<Rightarrow> nat \<Rightarrow> nat option) \<Rightarrow> bool" where
  "mapper_ok containing map_to lookup \<longleftrightarrow>
     (\<forall>page f flags m fa. lookup m page = None \<and> next_frame fa + 3 \<le> length (usable_frames containing fa) \<longrightarrow>
       (\<exists>m' k. map_to (allocate_frame containing) page f flags m fa = Ret (Inr m', fa\<lparr>next_frame := next_frame fa + k\<rparr>)
          \<and> k \<le> 3 \<and> lookup m' page = Some f \<and> (\<forall>p. p \<noteq> page \<longrightarrow> lookup m' p = lookup m p)))"

definition page_range :: "(nat \<Rightarrow> nat \<Rightarrow> nat list) \<Rightarrow> bool" where
  "page_range pages \<longleftrightarrow> (\<forall>s e. 4096 dvd s \<and> s \<le> e \<longrightarrow> pages s e = map (\<lambda>i. s + 4096 * i) [0..<(e - s) div 4096 + 1])"

lemma map_pages_ok:
  assumes mp: "mapper_ok containing map_to lookup" and d: "distinct F" and l: "length F < 2 ^ 64"
  shows "usable_frames containing fa = F \<Longrightarrow> next_frame fa + 4 * length pages \<le> length F \<Longrightarrow> distinct pages \<Longrightarrow>
    \<forall>p\<in>set pages. lookup m p = None \<Longrightarrow>
    \<exists>m' k fs. map_pages map_to (allocate_frame containing) pages m fa = Ret (Inr m', fa\<lparr>next_frame := k\<rparr>)
      \<and> length fs = length pages \<and> distinct fs \<and> set fs \<subseteq> set (drop (next_frame fa) F)
      \<and> (\<forall>i<length pages. lookup m' (pages ! i) = Some (fs ! i)) \<and> (\<forall>p. p \<notin> set pages \<longrightarrow> lookup m' p = lookup m p)"
proof (induction pages arbitrary: m fa)
  case Nil
  then show ?case by (intro exI [of _ m] exI [of _ "next_frame fa"] exI [of _ "[]"]) simp
next
  case (Cons page pages)
  let ?n = "next_frame fa" and ?f = "F ! next_frame fa"
  let ?fa1 = "fa\<lparr>next_frame := ?n + 1\<rparr>"
  have n: "?n < length F" using Cons.prems(2) by simp
  have al: "allocate_frame containing fa = Ret (Some ?f, ?fa1)"
    using Cons.prems(1) n l by (simp add: allocate_frame_def Let_def)
  have pre: "lookup m page = None \<and> next_frame ?fa1 + 3 \<le> length (usable_frames containing ?fa1)"
    using Cons.prems by simp
  obtain m1 k where m1: "map_to (allocate_frame containing) page ?f [Present, Writable] m ?fa1
        = Ret (Inr m1, ?fa1\<lparr>next_frame := next_frame ?fa1 + k\<rparr>)"
      "k \<le> 3" "lookup m1 page = Some ?f" "\<forall>p. p \<noteq> page \<longrightarrow> lookup m1 p = lookup m p"
    using mp pre unfolding mapper_ok_def by blast
  let ?fa2 = "fa\<lparr>next_frame := ?n + 1 + k\<rparr>"
  have un: "\<forall>p\<in>set pages. lookup m1 p = None" using Cons.prems(3,4) m1(4) by auto
  have len2: "next_frame ?fa2 + 4 * length pages \<le> length F" using Cons.prems(2) m1(2) by simp
  obtain m' k' fs where ih: "map_pages map_to (allocate_frame containing) pages m1 ?fa2 = Ret (Inr m', ?fa2\<lparr>next_frame := k'\<rparr>)"
      "length fs = length pages" "distinct fs" "set fs \<subseteq> set (drop (next_frame ?fa2) F)"
      "\<forall>i<length pages. lookup m' (pages ! i) = Some (fs ! i)" "\<forall>p. p \<notin> set pages \<longrightarrow> lookup m' p = lookup m1 p"
    using Cons.IH [of ?fa2 m1] Cons.prems(1,3) un len2 by auto
  have dr: "drop ?n F = ?f # drop (Suc ?n) F" using n by (simp add: Cons_nth_drop_Suc)
  have sub: "set (drop (?n + 1 + k) F) \<subseteq> set (drop (Suc ?n) F)" by (rule set_drop_subset_set_drop) simp
  have "?f \<notin> set (drop (Suc ?n) F)" using dr d by (metis distinct.simps(2) distinct_drop)
  then have fs: "distinct (?f # fs)" "set (?f # fs) \<subseteq> set (drop ?n F)" using ih(3,4) sub dr by auto
  have "map_pages map_to (allocate_frame containing) (page # pages) m fa = Ret (Inr m', fa\<lparr>next_frame := k'\<rparr>)"
    using al m1(1) ih(1) by (simp add: map_page_def)
  moreover have "\<forall>i<length (page # pages). lookup m' ((page # pages) ! i) = Some ((?f # fs) ! i)"
    using ih(5,6) m1(3) Cons.prems(3) by (auto simp: nth_Cons split: nat.split)
  moreover have "\<forall>p. p \<notin> set (page # pages) \<longrightarrow> lookup m' p = lookup m p" using ih(6) m1(4) by auto
  ultimately show ?case using fs ih(2) by (intro exI [of _ m'] exI [of _ k'] exI [of _ "?f # fs"]) simp
qed

lemma heap_pages:
  assumes "page_range pages"
  shows "pages HEAP_START (HEAP_START + HEAP_SIZE - 1) = map (\<lambda>i. HEAP_START + 4096 * i) [0..<2048]"
proof -
  have "4096 dvd HEAP_START" "HEAP_START \<le> HEAP_START + HEAP_SIZE - 1"
    "(HEAP_START + HEAP_SIZE - 1 - HEAP_START) div 4096 + 1 = 2048"
    by (simp_all add: HEAP_START_def HEAP_SIZE_def)
  then show ?thesis using assms by (simp add: page_range_def del: upt_Suc)
qed

section \<open>Properties\<close>



text \<open>
  C24: with at least 8192 usable frames and a mapper as documented, the heap is set up: it starts where and is
  as large as the constants say, its 2048 pages are mapped to distinct usable frames, and the mapping of
  every other page is as it was.
\<close>

theorem heap_is_mapped:
  assumes "regions_ok mm" and "aligns_down containing" and "mapper_ok containing map_to lookup" and "page_range pages"
    and "8192 \<le> length (usable_frames containing (frame_allocator_init mm))"
    and "length (usable_frames containing (frame_allocator_init mm)) < 2 ^ 64"
    and "\<forall>i<2048. lookup m (HEAP_START + 4096 * i) = None"
  shows "\<exists>m' fa fs. init_heap map_to pages (allocate_frame containing) m (frame_allocator_init mm)
        = Ret (Inr (m', HEAP_START, HEAP_SIZE), fa)
    \<and> length fs = 2048 \<and> distinct fs \<and> set fs \<subseteq> set (usable_frames containing (frame_allocator_init mm))
    \<and> (\<forall>i<2048. lookup m' (HEAP_START + 4096 * i) = Some (fs ! i))
    \<and> (\<forall>p. (\<forall>i<2048. p \<noteq> HEAP_START + 4096 * i) \<longrightarrow> lookup m' p = lookup m p)"
proof -
  let ?fa = "frame_allocator_init mm" and ?ps = "map (\<lambda>i. HEAP_START + 4096 * i) [0..<2048]"
  have d: "distinct (usable_frames containing ?fa)"
    using assms(1,2) by (intro usable_frames_distinct) (simp add: frame_allocator_init_def)
  have n: "next_frame ?fa + 4 * length ?ps \<le> length (usable_frames containing ?fa)"
    using assms(5) by (simp add: frame_allocator_init_def del: upt_Suc)
  have "distinct ?ps" "\<forall>p\<in>set ?ps. lookup m p = None" using assms(7) by (auto simp: distinct_map inj_on_def)
  from map_pages_ok [OF assms(3) d assms(6) refl n this] obtain m' k fs where
    r: "map_pages map_to (allocate_frame containing) ?ps m ?fa = Ret (Inr m', ?fa\<lparr>next_frame := k\<rparr>)"
      "length fs = length ?ps" "distinct fs" "set fs \<subseteq> set (drop (next_frame ?fa) (usable_frames containing ?fa))"
      "\<forall>i<length ?ps. lookup m' (?ps ! i) = Some (fs ! i)" "\<forall>p. p \<notin> set ?ps \<longrightarrow> lookup m' p = lookup m p"
    by blast
  have l: "length ?ps = 2048" by simp
  have "\<forall>i<2048. lookup m' (HEAP_START + 4096 * i) = Some (fs ! i)" using r(5) unfolding l by simp
  moreover have "init_heap map_to pages (allocate_frame containing) m ?fa
      = Ret (Inr (m', HEAP_START, HEAP_SIZE), ?fa\<lparr>next_frame := k\<rparr>)"
    unfolding init_heap_def heap_pages [OF assms(4)] r(1) by simp
  moreover have "set fs \<subseteq> set (usable_frames containing ?fa)" using r(4) set_drop_subset by fastforce
  moreover have "p \<notin> set ?ps" if "\<forall>i<2048. p \<noteq> HEAP_START + 4096 * i" for p using that by auto
  then have "\<forall>p. (\<forall>i<2048. p \<noteq> HEAP_START + 4096 * i) \<longrightarrow> lookup m' p = lookup m p" using r(6) by blast
  ultimately show ?thesis using r(2,3) unfolding l by blast
qed

text \<open>A mapper without tables and a map with one usable region.\<close>

definition plain_map_to :: "(nat \<rightharpoonup> nat, frame_allocator, unit) mapper" where
  "plain_map_to allocate page f flags m fa = Ret (Inr (m(page \<mapsto> f)), fa)"

theorem heap_is_mapped_witness:
  "\<exists>m' fa (fs :: nat list). init_heap plain_map_to (\<lambda>s e. map (\<lambda>i. s + 4096 * i) [0..<(e - s) div 4096 + 1])
      (allocate_frame (\<lambda>a. a div 4096 * 4096)) Map.empty
      (frame_allocator_init [\<lparr>region_type = Usable, start_addr = 0x100000, end_addr = 0x2100000\<rparr>])
    = Ret (Inr (m', HEAP_START, HEAP_SIZE), fa) \<and> length fs = 2048 \<and> distinct fs"
proof -
  let ?mm = "[\<lparr>region_type = Usable, start_addr = 0x100000, end_addr = 0x2100000\<rparr>]"
    and ?c = "\<lambda>a. a div 4096 * 4096 :: nat" and ?ps = "\<lambda>s e. map (\<lambda>i. s + 4096 * i) [0..<(e - s) div 4096 + 1] :: nat list"
  have h: "regions_ok ?mm" "aligns_down ?c" "page_range ?ps" by (simp_all add: regions_ok_def aligns_down_def page_range_def)
  have mp: "mapper_ok ?c plain_map_to (\<lambda>m. m)"
    unfolding mapper_ok_def plain_map_to_def by (auto intro!: exI [of _ "0 :: nat"])
  have l: "length (usable_frames ?c (frame_allocator_init ?mm)) = 8192"
    by (simp add: usable_frames_def frame_allocator_init_def length_frame_addresses)
  have "8192 \<le> (8192 :: nat)" "(8192 :: nat) < 2 ^ 64" "\<forall>i<2048. Map.empty (HEAP_START + 4096 * i) = (None :: nat option)"
    by simp_all
  from heap_is_mapped [OF h(1,2) mp h(3), unfolded l, OF this] show ?thesis by blast
qed


definition one_frame :: paging where
  "one_frame = \<lparr>va_index = (\<lambda>k a. a div 2 ^ (12 + 9 * (k - 1)) mod 512), va_offset = (\<lambda>a. a mod 4096),
     va_add = (\<lambda>a b. Ret (a + b)), pa_add = (\<lambda>a b. Ret (a + b)), entry_frame = (\<lambda>_ _. Frame 0x5000)\<rparr>"


end
