(* ===== verification/Kernel.thy ===== *)
theory Kernel
  imports Commands Executor Memory
begin

text \<open>
  The kernel's entry point (\<^verbatim>\<open>main.rs\<close>): \<^verbatim>\<open>kernel_main\<close> up to the executor's loop, on the memory, the heap, the disk
  and the screen.
\<close>

section \<open>Boot\<close>

text \<open>The futures of the two tasks: as spawned, or suspended with the decoder they keep.\<close>

datatype ('d, 'k) kernel_task = Keyboard_Task | Shell_Task | Keyboard_Waiting 'd | Shell_Waiting 'k

type_synonym ('d, 'k, 'q) kernel_executor = "(('d, 'k) kernel_task, 'q) executor"

text \<open>The \<^verbatim>\<open>Debug\<close> text of the result of \<^verbatim>\<open>write_new_file\<close>.\<close>

definition show_result :: "string + unit \<Rightarrow> string" where
  "show_result r = (case r of Inr _ \<Rightarrow> ''Ok(())'' | Inl e \<Rightarrow> ''Err('' @ [CHR 0x22] @ e @ [CHR 0x22] @ '')'')"

text \<open>From \<^verbatim>\<open>fat16::init\<close> to the line printed for the test file.\<close>

definition boot_files :: "unit kernel" where
  "boot_files = pbind get_world (\<lambda>w. case fat16_init (w_disk w) (w_fs w) of (fs, line) \<Rightarrow>
     pbind (modify (\<lambda>w. w\<lparr>w_fs := fs\<rparr>)) (\<lambda>_.
     pbind (w_println line) (\<lambda>_.
     pbind (modify (\<lambda>w. w\<lparr>w_commands := init_cmds (w_commands w)\<rparr>)) (\<lambda>_.
     pbind get_world (\<lambda>w. case w_fs w of
       None \<Rightarrow> (\<lambda>_. Crash (Panic_Msg ''called `Option::unwrap()` on a `None` value''))
     | Some b \<Rightarrow> pbind (lift_outcome (write_new_file b (as_bytes ''test    '') (as_bytes ''txt'') [12, 12, 15] (w_disk w))) (\<lambda>(res, dk).
         pbind (modify (\<lambda>w. w\<lparr>w_disk := dk\<rparr>)) (\<lambda>_. w_println (show_result res))))))))"

definition boot_heap :: "paging \<Rightarrow> nat \<Rightarrow> nat \<Rightarrow> ('m, frame_allocator, 'x) mapper \<Rightarrow> (nat \<Rightarrow> nat \<Rightarrow> nat list) \<Rightarrow> (nat \<Rightarrow> nat)
    \<Rightarrow> 'm \<Rightarrow> region list \<Rightarrow> ('m \<times> nat \<times> nat) outcome" where
  "boot_heap P cr3 physical_memory_offset map_to pages containing m mm =
    obind (memory_init P cr3 physical_memory_offset) (\<lambda>_.
    obind (init_heap map_to pages (allocate_frame containing) m (frame_allocator_init mm)) (\<lambda>(r, _).
      case r of Inr heap \<Rightarrow> Ret heap | Inl _ \<Rightarrow> Panic (Panic_Msg ''heap initialization failed'')))"

text \<open>\<^verbatim>\<open>kernel_main\<close> up to \<^verbatim>\<open>executor.run()\<close>: the executor it starts.\<close>

definition kernel_main :: "gdt_selectors \<Rightarrow> (task_id, 'q) queue_ops \<Rightarrow> ('m \<times> nat \<times> nat) outcome
    \<Rightarrow> ('d, 'k, 'q) kernel_executor kernel" where
  "kernel_main sel Q heap =
    pbind (modify (\<lambda>w. w\<lparr>w_machine := w_machine w @ machine_init sel\<rparr>)) (\<lambda>_.
    pbind (lift_outcome heap) (\<lambda>_.
    pbind boot_files (\<lambda>_.
    pbind (lift_outcome (for_each (spawn_new Q) [Keyboard_Task, Shell_Task] (executor_new Q, 0))) (\<lambda>(e, _). ret e))))"

text \<open>The panic handler: what it prints, before it halts for good.\<close>

definition kernel_panic :: "string \<Rightarrow> writer \<Rightarrow> (writer \<times> machine_event list) outcome" where
  "kernel_panic info w = obind (println info w) (\<lambda>w'. Ret (w', hlt_loop))"

end
