(* ===== verification/Boot.thy ===== *)
theory Boot
  imports Kernel Sessions
begin

text \<open>
  From power-on to the first task: \<^verbatim>\<open>kernel_main\<close> on the components' laws.
\<close>

section \<open>The files\<close>

lemma formatted_bpb: "read_bpb (sector_read (formatted dk) 0) = format_bpb"
  using fat16_init_formatted [of dk None] by (simp add: fat16_init_def Let_def split: if_splits)

lemma boot_println:
  assumes "world_ok w"
  shows "\<exists>w'. w_println s w = Done () w' \<and> world_ok w' \<and> w_disk w' = w_disk w \<and> w_fs w' = w_fs w \<and> w_commands w' = w_commands w"
  using println_world [OF assms, of s] assms by (auto simp: world_ok_def)

text \<open>The binding of the file that every boot writes, and what it makes of the files.\<close>

abbreviation boot_name :: "u8 list \<times> u8 list" where
  "boot_name \<equiv> (as_bytes ''test    '', as_bytes ''txt'')"

definition boot_keeps :: "bpb \<Rightarrow> disk \<Rightarrow> disk \<Rightarrow> bool" where
  "boot_keeps b dk dk' \<longleftrightarrow> fs_inv b dk' \<and> same_boot b dk dk'
     \<and> files b dk' \<in> {files b dk, (files b dk)(boot_name \<mapsto> [12, 12, 15])}
     \<and> (find_file b dk (fst boot_name) (snd boot_name) = Ret None \<longrightarrow> room_for b dk (fst boot_name) (snd boot_name) 3
          \<longrightarrow> files b dk' = (files b dk)(boot_name \<mapsto> [12, 12, 15]))"

lemma boot_file_written:
  assumes inv: "fs_inv b dk"
  obtains r dk' where "write_new_file b (as_bytes ''test    '') (as_bytes ''txt'') [12, 12, 15] dk = Ret (r, dk')" "boot_keeps b dk dk'"
proof -
  have n: "name_ok (as_bytes ''test    '') (as_bytes ''txt'')" by code_simp
  obtain r dk' where w: "write_new_file b (as_bytes ''test    '') (as_bytes ''txt'') [12, 12, 15] dk = Ret (r, dk')" "fs_inv b dk'"
      "files b dk' \<in> {files b dk, (files b dk)(boot_name \<mapsto> [12, 12, 15])}"
  proof (rule write_new_file_cases [OF inv, of "as_bytes ''test    ''" "as_bytes ''txt''" "[12, 12, 15]"])
    fix r dk'
    assume "write_new_file b (as_bytes ''test    '') (as_bytes ''txt'') [12, 12, 15] dk = Ret (r, dk')" "fs_inv b dk'"
      "r = Inr () \<Longrightarrow> files b dk' = (if shadowed b dk (as_bytes ''test    '') (as_bytes ''txt'') then files b dk
         else (files b dk)(boot_name \<mapsto> [12, 12, 15]))"
      "\<And>e. r = Inl e \<Longrightarrow> files b dk' = files b dk"
    then show thesis using that [of r dk'] by (cases r) (auto split: if_splits)
  qed (use n in \<open>simp_all add: name_ok_def\<close>)
  have "files b dk' = (files b dk)(boot_name \<mapsto> [12, 12, 15])"
    if f: "find_file b dk (as_bytes ''test    '') (as_bytes ''txt'') = Ret None" and r: "room_for b dk (as_bytes ''test    '') (as_bytes ''txt'') 3"
  proof -
    have "room_for b dk (as_bytes ''test    '') (as_bytes ''txt'') (length [12, 12, 15 :: u8])" using r by (simp add: numeral_3_eq_3)
    from vol.create_new [OF inv f n this] w(1) show ?thesis by fastforce
  qed
  then show ?thesis using that w write_new_file_boot [OF inv w(1)] by (simp add: boot_keeps_def)
qed

lemma boot_files_mounts:
  assumes "world_ok w" "read_bpb (sector_read (w_disk w) 0) = b" "fs_inv b (w_disk w)"
  shows "\<exists>w'. boot_files w = Done () w' \<and> world_ok w' \<and> w_fs w' = Some b \<and> boot_keeps b (w_disk w) (w_disk w')
    \<and> w_commands w' = init_cmds (w_commands w)"
proof -
  have g: "bytes_per_sector b = 512" using assms(3) by (simp add: fs_inv_def geom_ok_def)
  obtain line where i: "fat16_init (w_disk w) (w_fs w) = (Some b, line)" using assms(2) g by (simp add: fat16_init_def)
  obtain r dk where dk: "write_new_file b (as_bytes ''test    '') (as_bytes ''txt'') [12, 12, 15] (w_disk w) = Ret (r, dk)"
    "boot_keeps b (w_disk w) dk" by (rule boot_file_written [OF assms(3)])
  have "world_ok (w\<lparr>w_fs := Some b\<rparr>)" using assms(1) by (simp add: world_ok_def)
  then obtain w1 where w1: "w_println line (w\<lparr>w_fs := Some b\<rparr>) = Done () w1" "world_ok w1" "w_disk w1 = w_disk w"
    "w_fs w1 = Some b" "w_commands w1 = w_commands w" using boot_println [of "w\<lparr>w_fs := Some b\<rparr>" line] by auto
  let ?w2 = "w1\<lparr>w_commands := init_cmds (w_commands w1), w_disk := dk\<rparr>"
  have "world_ok ?w2" using w1(2) dk(2) init_cmds_ok by (simp add: world_ok_def fs_inv_def boot_keeps_def)
  then obtain w3 where "w_println (show_result r) ?w2 = Done () w3" "world_ok w3" "w_disk w3 = dk"
    "w_fs w3 = Some b" "w_commands w3 = init_cmds (w_commands w)" using boot_println [of ?w2 "show_result r"] w1(4,5) by auto
  then show ?thesis using w1 dk by (simp add: boot_files_def get_world_def modify_def pbind_def i)
qed

lemma boot_files_unmounted:
  assumes "world_ok w" "bytes_per_sector (read_bpb (sector_read (w_disk w) 0)) \<noteq> 512" "w_fs w = None"
  shows "boot_files w = Crash (Panic_Msg ''called `Option::unwrap()` on a `None` value'')"
proof -
  let ?w = "w\<lparr>w_fs := None\<rparr>"
  obtain line where i: "fat16_init (w_disk w) None = (None, line)" using assms(2) by (simp add: fat16_init_def Let_def)
  have "world_ok ?w" using assms(1) by (simp add: world_ok_def)
  then obtain w1 where "w_println line ?w = Done () w1" "w_fs w1 = None" using boot_println [of ?w line] by auto
  then show ?thesis using i assms(3) by (simp add: boot_files_def modify_def get_world_def pbind_def)
qed

lemma kernel_main_boots:
  assumes "world_ok w" "read_bpb (sector_read (w_disk w) 0) = b" "fs_inv b (w_disk w)" "bounded_fifo Q items capacity"
  shows "\<exists>(e :: ('d, 'k, 'q) kernel_executor) w'. kernel_main sel Q (Ret h) w = Done e w' \<and> world_ok w' \<and> w_fs w' = Some b \<and> boot_keeps b (w_disk w) (w_disk w')
    \<and> w_commands w' = init_cmds (w_commands w)
    \<and> items (task_queue e) = [0, 1] \<and> bt_get 0 (tasks e) = Some Keyboard_Task \<and> bt_get 1 (tasks e) = Some Shell_Task
    \<and> exec_inv e \<and> capacity (task_queue e) = 100"
proof -
  let ?w = "w\<lparr>w_machine := w_machine w @ machine_init sel\<rparr>"
  have "world_ok ?w" using assms(1) by (simp add: world_ok_def)
  then obtain w' where w': "boot_files ?w = Done () w'" "world_ok w'" "w_fs w' = Some b" "boot_keeps b (w_disk w) (w_disk w')"
    "w_commands w' = init_cmds (w_commands w)"
    using boot_files_mounts [of ?w b] assms(2,3) by auto
  obtain e :: "('d, 'k, 'q) kernel_executor" and k where e: "for_each (spawn_new Q) [Keyboard_Task, Shell_Task] (executor_new Q, 0) = Ret (e, k)"
    "spawned items capacity [Keyboard_Task, Shell_Task] (e, k)"
    using spawn_order [OF assms(4), of "[Keyboard_Task, Shell_Task]"] by auto
  have "kernel_main sel Q (Ret h) w = Done e w'"
    using w'(1) e(1) by (simp add: kernel_main_def modify_def pbind_def del: for_each.simps)
  moreover have "items (task_queue e) = [0, 1]" "bt_get 0 (tasks e) = Some Keyboard_Task" "bt_get 1 (tasks e) = Some Shell_Task"
      "exec_inv e" "capacity (task_queue e) = 100"
    using e(2) by (simp_all add: spawned_def)
  ultimately show ?thesis using w'(2-5) by blast
qed

section \<open>From one boot to the next\<close>

lemma same_boot_bpb:
  assumes "same_boot b dk dk'" "0 < reserved_sectors b"
  shows "read_bpb (sector_read dk' 0) = read_bpb (sector_read dk 0)"
proof -
  have "0 < unat (reserved_sectors b)" using assms(2) by (simp add: word_less_nat_alt)
  then show ?thesis using assms(1) by (simp add: same_boot_def sector_read_def lba_index_def)
qed

text \<open>The names the commands use are in upper case: none of them is the name of the boot's file.\<close>

lemma pad_upper_not_boot: "pad_upper 8 name \<noteq> as_bytes ''test    ''"
proof
  assume eq: "pad_upper 8 name = as_bytes ''test    ''"
  have "pad_upper 8 name ! 0 = 0x20 \<or> (\<exists>x. pad_upper 8 name ! 0 = to_ascii_uppercase x)"
    by (cases name) (auto simp: pad_upper_def Let_def nth_copy_at as_bytes_def)
  moreover have "pad_upper 8 name ! 0 = 116" unfolding eq by code_simp
  ultimately obtain x where x: "to_ascii_uppercase x = 116" by auto
  then have "97 \<le> x" "x \<le> 122" "x - 32 = 116 \<or> x = 116" by (auto simp: to_ascii_uppercase_def split: if_splits)
  then show False using x by (auto simp: to_ascii_uppercase_def diff_eq_eq)
qed

section \<open>Properties\<close>

text \<open>
  C10: the boot completes on every well-formed volume, full or not: when the heap is set up and sector 0 describes the
  volume, \<^verbatim>\<open>kernel_main\<close> reaches the executor in a consistent state. The volume is mounted, still well-formed, and no file
  but the boot's own is touched; that one is written where it is new and fits. The commands are registered, and the
  keyboard's task is queued before the shell's.
\<close>

theorem boot_completes:
  assumes "world_ok w" and "read_bpb (sector_read (w_disk w) 0) = b" and "fs_inv b (w_disk w)"
    and "bounded_fifo Q items capacity"
  shows "\<exists>(e :: ('d, 'k, 'q) kernel_executor) w'. kernel_main sel Q (Ret h) w = Done e w' \<and> world_ok w' \<and> w_fs w' = Some b \<and> fs_inv b (w_disk w')
    \<and> (\<forall>key. key \<noteq> boot_name \<longrightarrow> files b (w_disk w') key = files b (w_disk w) key)
    \<and> (find_file b (w_disk w) (as_bytes ''test    '') (as_bytes ''txt'') = Ret None
         \<and> room_for b (w_disk w) (as_bytes ''test    '') (as_bytes ''txt'') 3
       \<longrightarrow> files b (w_disk w') boot_name = Some [12, 12, 15])
    \<and> w_commands w' = init_cmds (w_commands w)
    \<and> items (task_queue e) = [0, 1] \<and> bt_get 0 (tasks e) = Some Keyboard_Task \<and> bt_get 1 (tasks e) = Some Shell_Task"
proof -
  obtain e :: "('d, 'k, 'q) kernel_executor" and w' where *: "kernel_main sel Q (Ret h) w = Done e w'" "world_ok w'" "w_fs w' = Some b" "w_commands w' = init_cmds (w_commands w)"
    "items (task_queue e) = [0, 1]" "bt_get 0 (tasks e) = Some Keyboard_Task" "bt_get 1 (tasks e) = Some Shell_Task"
    and k: "boot_keeps b (w_disk w) (w_disk w')"
    using kernel_main_boots [OF assms] by blast
  show ?thesis using * k by (intro exI [of _ e] exI [of _ w']) (auto simp: boot_keeps_def)
qed

theorem boot_completes_witness:
  "\<exists>(e :: (unit, unit, _) kernel_executor) w'. kernel_main \<lparr>code_selector = 8, tss_selector = 16\<rparr> list_queue (Ret (Map.empty, HEAP_START, HEAP_SIZE)) (start_world\<lparr>w_disk := formatted blank\<rparr>) = Done e w'
    \<and> files format_bpb (w_disk w') boot_name = Some [12, 12, 15] \<and> snd (task_queue e) = [0, 1]"
proof -
  let ?w = "start_world\<lparr>w_disk := formatted blank\<rparr>"
  have d: "w_disk ?w = formatted blank" by simp
  have w: "world_ok ?w" using start_world_ok formatted_inv [OF disk_ok_blank] by (simp add: world_ok_def fs_inv_def)
  from boot_completes [of ?w format_bpb list_queue snd fst, unfolded d, OF w formatted_bpb formatted_inv [OF disk_ok_blank] list_queue_fifo]
    formatted_find_file formatted_room [of 3] show ?thesis by fastforce
qed

text \<open>
  C11: what is saved survives a restart. \<^verbatim>\<open>mkdir NAME.EXT\<close> with words, \<^verbatim>\<open>quit\<close>, and a cold start of the kernel on the disk that
  is left, from any fresh memory: the boot reaches the executor, and \<^verbatim>\<open>cat NAME.EXT\<close> prints the name, the words and a rule.
\<close>

theorem file_survives_restart:
  assumes "world_ok w" and "w_fs w = Some b" and "fs_inv b (w_disk w)"
    and "read_bpb (sector_read (w_disk w) 0) = b" and "0 < reserved_sectors b"
    and "bt_get ''mkdir'' (w_commands w) = Some Cmd_Mkdir" and "bt_get ''quit'' (w_commands w) = Some Cmd_Quit"
    and "split_dot tok = Some (name, ext)" and "name_ok (pad_upper 8 name) (pad_upper 3 ext)"
    and "find_file b (w_disk w) (pad_upper 8 name) (pad_upper 3 ext) = Ret None"
    and "words \<noteq> []" and "utf8 (join '' '' words)"
    and "room_for b (w_disk w) (pad_upper 8 name) (pad_upper 3 ext) (length (join '' '' words))"
    and "world_ok fresh" and "w_commands fresh = []" and "bounded_fifo Q items capacity"
  shows "\<exists>s w1 w2 (e :: ('d, 'k, 'q) kernel_executor) w3 t. run_cmd (Suc n) d (''mkdir'' # tok # words) w = Done (Call_Done s) w1
    \<and> run_cmd (Suc n) d [''quit''] w1 = Powered_Off w2
    \<and> kernel_main sel Q (Ret h) (fresh\<lparr>w_disk := w_disk w2\<rparr>) = Done e w3
    \<and> obind (println (''--- '' @ name @ '' ---'') (term_writer (w_term w3))) (\<lambda>t1.
        obind (println (join '' '' words) t1) (println ''------------'')) = Ret t
    \<and> run_cmd (Suc n) d [''cat'', tok] w3
        = Done (Call_Done \<lparr>success_code = ''File read successfully'', print_code = False\<rparr>)
            (w3\<lparr>w_term := (w_term w3)\<lparr>term_writer := t\<rparr>\<rparr>)"
proof -
  let ?key = "(pad_upper 8 name, pad_upper 3 ext)" and ?bytes = "as_bytes (join '' '' words)"
  obtain s dk where dk: "run_cmd (Suc n) d (''mkdir'' # tok # words) w = Done (Call_Done s) (w\<lparr>w_disk := dk\<rparr>)" "fs_inv b dk"
      "same_boot b (w_disk w) dk" "files b dk = (files b (w_disk w))(?key \<mapsto> ?bytes)"
    by (rule mkdir_makes [OF assms(2,3,6,8-11,13)])
  let ?w1 = "w\<lparr>w_disk := dk\<rparr>" and ?f = "fresh\<lparr>w_disk := dk\<rparr>"
  have ok: "world_ok ?w1" "world_ok ?f" using dk(2) assms(1,14) by (simp_all add: world_ok_def fs_inv_def)
  obtain w2 where w2: "run_cmd (Suc n) d [''quit''] ?w1 = Powered_Off w2" "w_disk w2 = dk"
    using quit_powers_off [OF ok(1), of n d "[]"] assms(7) by auto
  obtain e :: "('d, 'k, 'q) kernel_executor" and w3 where w3: "kernel_main sel Q (Ret h) ?f = Done e w3" "world_ok w3" "w_fs w3 = Some b"
      "boot_keeps b dk (w_disk w3)" "w_commands w3 = init_cmds []"
    using kernel_main_boots [OF ok(2) _ _ assms(16), of b sel h] dk(2) same_boot_bpb [OF dk(3) assms(5)] assms(4,15) by auto
  have "fs_inv b (w_disk w3)" "files b (w_disk w3) ?key = Some ?bytes"
    using w3(4) dk(4) pad_upper_not_boot [of name] by (auto simp: boot_keeps_def)
  moreover have "bt_get ''cat'' (w_commands w3) = Some Cmd_Cat" unfolding w3(5) by (simp add: init_cmds_get)
  ultimately show ?thesis using cat_runs [OF w3(2,3) _ _ assms(8,12), of n d] dk(1) w2 w3(1) by blast
qed

theorem file_survives_restart_witness:
  "\<exists>s w1 w2 (e :: (unit, unit, _) kernel_executor) w3 w4. run_cmd 1 deaf_decoder [''mkdir'', ''note.txt'', ''buy'', ''milk''] mounted_world = Done (Call_Done s) w1
    \<and> run_cmd 1 deaf_decoder [''quit''] w1 = Powered_Off w2
    \<and> kernel_main \<lparr>code_selector = 8, tss_selector = 16\<rparr> list_queue (Ret (Map.empty, HEAP_START, HEAP_SIZE))
        (start_world\<lparr>w_commands := [], w_disk := w_disk w2\<rparr>) = Done e w3
    \<and> run_cmd 1 deaf_decoder [''cat'', ''note.txt''] w3
        = Done (Call_Done \<lparr>success_code = ''File read successfully'', print_code = False\<rparr>) w4"
proof -
  have n: "name_ok (pad_upper 8 ''note'') (pad_upper 3 ''txt'')"
    by (simp add: name_ok_def length_pad_upper) code_simp
  have d: "split_dot ''note.txt'' = Some (''note'', ''txt'')" by code_simp
  have c: "bt_get ''mkdir'' (init_cmds []) = Some Cmd_Mkdir" "bt_get ''quit'' (init_cmds []) = Some Cmd_Quit"
    by (simp_all add: init_cmds_get)
  have u: "utf8 (join '' '' [''buy'', ''milk''])" by (simp add: utf8_ascii)
  have r: "0 < reserved_sectors format_bpb" by simp
  have f: "world_ok (start_world\<lparr>w_commands := []\<rparr>)" "w_commands (start_world\<lparr>w_commands := []\<rparr>) = []"
    using start_world_ok by (simp_all add: world_ok_def)
  note t = file_survives_restart [of mounted_world format_bpb "''note.txt''" "''note''" "''txt''" "[''buy'', ''milk'']"
      "start_world\<lparr>w_commands := []\<rparr>" list_queue snd fst 0 deaf_decoder, unfolded mounted_fields,
      OF mounted_world_ok refl formatted_inv [OF disk_ok_blank] formatted_bpb r c d n formatted_find_file _ u formatted_room f list_queue_fifo]
  show ?thesis using t by (simp del: run_cmd.simps) blast
qed

text \<open>
  C26: the boot does not survive a disk without a volume: when sector 0 does not say 512 bytes per sector and nothing was
  mounted, \<^verbatim>\<open>kernel_main\<close> panics on the missing file system; a heap that cannot be set up stops it before that.
\<close>

theorem boot_needs_volume:
  assumes "world_ok w" and "bytes_per_sector (read_bpb (sector_read (w_disk w) 0)) \<noteq> 512" and "w_fs w = None"
  shows "kernel_main sel Q (Ret h) w = Crash (Panic_Msg ''called `Option::unwrap()` on a `None` value'')
    \<and> kernel_main sel Q (Panic p) w = Crash p"
proof -
  let ?w = "w\<lparr>w_machine := w_machine w @ machine_init sel\<rparr>"
  have "boot_files ?w = Crash (Panic_Msg ''called `Option::unwrap()` on a `None` value'')"
    using assms by (intro boot_files_unmounted) (simp_all add: world_ok_def)
  then show ?thesis by (simp add: kernel_main_def modify_def pbind_def lift_outcome_def)
qed

theorem boot_needs_volume_witness:
  "kernel_main \<lparr>code_selector = 8, tss_selector = 16\<rparr> list_queue (Ret (Map.empty, HEAP_START, HEAP_SIZE)) start_world
    = Crash (Panic_Msg ''called `Option::unwrap()` on a `None` value'')"
proof -
  have "bytes_per_sector (read_bpb (sector_read (w_disk start_world) 0)) \<noteq> 512" "w_fs start_world = None"
    by (simp_all add: start_world_def sector_read_def blank_def) code_simp
  from boot_needs_volume [OF start_world_ok this] show ?thesis by blast
qed

end
