(* ===== verification/Scheduling.thy ===== *)
theory Scheduling
  imports Boot Keystrokes
begin

text \<open>
  The two tasks under the executor: the keyboard's interrupts wake the keyboard task, its poll fills the key event queue,
  and the next poll of the shell runs the line (\<^verbatim>\<open>main.rs\<close>, \<^verbatim>\<open>interrupts.rs\<close>, \<^verbatim>\<open>task\<close>, \<^verbatim>\<open>commands.rs\<close>). From power-on, lines typed
  one after another run as commands one after another.
\<close>

section \<open>A shell that waits\<close>

text \<open>Nothing is typed, nothing is pending, and no key is still to come while a command runs.\<close>

definition quiet :: "world \<Rightarrow> bool" where
  "quiet w \<longleftrightarrow> w_keys w = [] \<and> w_arrivals w = [] \<and> \<not> w_pending w \<and> current_cmd (w_shell w) = ''''"

lemma quiet_screen: "keeps_inv quiet (on_screen f)" "keeps_inv quiet (w_print s)" "keeps_inv quiet (w_println s)"
proof -
  have *: "keeps_inv quiet (on_screen f)" for f
    unfolding on_screen_def by (intro agree_laws keeps_modify) (simp add: quiet_def)
  then show "keeps_inv quiet (on_screen f)" "keeps_inv quiet (w_print s)" "keeps_inv quiet (w_println s)"
    by (simp_all add: w_print_def w_println_def)
qed

lemma quiet_commands:
  "keeps_inv quiet cmd_clear" "keeps_inv quiet cmd_history" "keeps_inv quiet (cmd_echo args)" "keeps_inv quiet (cmd_read args)"
  "keeps_inv quiet (cmd_show args)" "keeps_inv quiet (cat_file args)" "keeps_inv quiet (cmd_bind args)"
  "keeps_inv quiet (cmd_write args)" "keeps_inv quiet (format_disk args)" "keeps_inv quiet (make_file args)" "keeps_inv quiet (edit_file args)"
  unfolding cmd_clear_def cmd_history_def cmd_echo_def cmd_read_def cmd_show_def cat_file_def fetch_file_def cmd_bind_def
    cmd_write_def format_disk_def make_file_def edit_file_def Let_def
  by (intro agree_laws quiet_screen keeps_modify; simp add: quiet_def)+

lemma quiet_quit: "keeps_inv quiet cmd_quit"
proof -
  have "keeps_inv quiet (\<lambda>w. Powered_Off (w\<lparr>w_term := (w_term w)\<lparr>term_writer := t\<rparr>, w_machine := w_machine w @ events\<rparr>) :: (command_result, world) run)"
    for t events by (simp add: agrees_def quiet_def)
  then show ?thesis unfolding cmd_quit_def by (intro agree_laws quiet_screen) (auto split: prod.split)
qed

lemma pong_no_keys: "pong_run [[]] g buf = Ret (res, left, g', b) \<Longrightarrow> left = []"
  by (auto simp: pong_frame_def elim!: obind_RetE split: if_splits prod.splits)

lemma quiet_pong: "keeps_inv quiet cmd_pong"
proof -
  have m: "keeps_inv quiet (modify (\<lambda>w. w\<lparr>w_launch_pong := True\<rparr>))" by (rule keeps_modify) (simp add: quiet_def)
  have p: "keeps_inv quiet (modify (\<lambda>w. put_batches []
      (w\<lparr>w_term := (w_term w)\<lparr>term_writer := (term_writer (w_term w))\<lparr>buffer := buf\<rparr>\<rparr>, w_launch_pong := False\<rparr>)))" for buf
    by (rule keeps_modify) (simp add: quiet_def put_batches_def)
  show ?thesis unfolding cmd_pong_def
  proof (intro agrees_pbind [OF m] agrees_get agrees_outcome)
    fix w x assume "quiet w" "pong_run (w_keys w # w_arrivals w) pong_new (buffer (term_writer (w_term w))) = Ret x"
    then show "keeps_inv quiet (case x of (res, left, _, buf) \<Rightarrow> case res of None \<Rightarrow> unfinished | Some msg \<Rightarrow>
        pbind (modify (\<lambda>w. put_batches left (w\<lparr>w_term := (w_term w)\<lparr>term_writer := (term_writer (w_term w))\<lparr>buffer := buf\<rparr>\<rparr>, w_launch_pong := False\<rparr>)))
          (\<lambda>_. ret (succeeded msg True)))"
      by (cases x) (auto simp: quiet_def [of w] simp del: pong_run.simps dest!: pong_no_keys intro!: agree_laws p)
  qed
qed

lemma editor_no_keys: "editor_loop dec fs name ext [[]] kb e t dk = Ret r \<Longrightarrow> \<exists>x. r = Inr x"
  by (auto simp: editor_round_def)

lemma quiet_edit: "keeps_inv quiet (run_edit d args)"
  unfolding run_edit_def
proof (intro agrees_get agrees_outcome)
  fix w x assume "quiet w" "run_editor (dec_step d) (dec_new d) (w_fs w) args (w_keys w # w_arrivals w) (w_term w) (w_disk w) = Ret x"
  then have "\<exists>y. x = Inr y"
    by (auto simp: quiet_def run_editor_def Let_def simp del: editor_loop.simps elim!: obind_RetE dest!: editor_no_keys split: prod.splits)
  then show "keeps_inv quiet (case x of Inr _ \<Rightarrow> unfinished | Inl (left, t, dk) \<Rightarrow>
      pbind (modify (\<lambda>w. put_batches left (w\<lparr>w_term := t, w_disk := dk\<rparr>))) (\<lambda>_. ret (succeeded ''Worked'' False)))"
    by (auto intro: agree_laws)
qed

interpretation quiet_state: command_contract quiet d
proof
  fix c :: command and interp args
  show "\<not> calls_interp c \<Longrightarrow> keeps_inv quiet (exec_command d interp c args)"
    by (cases c) (simp_all add: calls_interp_def quiet_commands quiet_quit quiet_pong quiet_edit)
qed (simp_all add: quiet_screen)

section \<open>The tasks under the executor\<close>

text \<open>
  What the tasks and the interrupt handler share: the kernel's state, the scancode queue, and the waker with the task
  it wakes.
\<close>

record ('q, 'v) system =
  sys_world :: world
  sys_scancodes :: "'q option"
  sys_waker :: 'v
  sys_woken :: task_id

text \<open>
  A poll can also end the run. A command that waits for keys which do not come stays inside its poll; a command that
  yields is resumed at once, since nothing else is ready meanwhile, so its polls are one here.
\<close>

datatype ('q, 'v) status = Running "('q, 'v) system" | Panicked panic | Switched_Off world | Waiting_Within

definition keyboard_resume :: "(u8, 'q) queue_ops \<Rightarrow> 'v waker_ops \<Rightarrow> ('d \<Rightarrow> u8 \<Rightarrow> (unit + key_event option) \<times> 'd) \<Rightarrow> task_id \<Rightarrow> 'd
    \<Rightarrow> ('q, 'v) system \<Rightarrow> bool \<times> ('d, 'k) kernel_task \<times> ('q, 'v) status \<times> task_id list" where
  "keyboard_resume Q A add_byte waker keyboard s =
    (case keyboard_poll 101 Q A add_byte (sys_scancodes s) (sys_waker s) keyboard (w_keys (sys_world s)) of
       Ret (queue, v, keyboard', events) \<Rightarrow> (False, Keyboard_Waiting keyboard',
         Running (s\<lparr>sys_world := (sys_world s)\<lparr>w_keys := events\<rparr>, sys_scancodes := queue, sys_waker := v, sys_woken := waker\<rparr>), [])
     | Panic p \<Rightarrow> (False, Keyboard_Waiting keyboard, Panicked p, [])
     | Hang \<Rightarrow> (False, Keyboard_Waiting keyboard, Waiting_Within, []))"

definition shell_resume :: "nat \<Rightarrow> 'k decoder \<Rightarrow> task_id \<Rightarrow> 'k \<Rightarrow> ('q, 'v) system
    \<Rightarrow> bool \<times> ('d, 'k) kernel_task \<times> ('q, 'v) status \<times> task_id list" where
  "shell_resume n d waker kb s = (case shell_round n d kb (sys_world s) of
      Done kb' w \<Rightarrow> (False, Shell_Waiting kb', Running (s\<lparr>sys_world := w\<rparr>), [waker])
    | Crash p \<Rightarrow> (False, Shell_Waiting kb, Panicked p, [])
    | Powered_Off w \<Rightarrow> (False, Shell_Waiting kb, Switched_Off w, [])
    | Unfinished \<Rightarrow> (False, Shell_Waiting kb, Waiting_Within, []))"

definition task_poll :: "nat \<Rightarrow> (u8, 'q) queue_ops \<Rightarrow> 'v waker_ops \<Rightarrow> ('d \<Rightarrow> u8 \<Rightarrow> (unit + key_event option) \<times> 'd) \<Rightarrow> 'd \<Rightarrow> 'k decoder
    \<Rightarrow> (('d, 'k) kernel_task, ('q, 'v) status) poll_fn" where
  "task_poll n Q A add_byte new_keyboard d waker f st = (case st of
      Running s \<Rightarrow> (case f of
          Keyboard_Task \<Rightarrow> (case scancode_stream_new Q (sys_scancodes s) of
              Ret queue \<Rightarrow> keyboard_resume Q A add_byte waker new_keyboard (s\<lparr>sys_scancodes := queue\<rparr>)
            | Panic p \<Rightarrow> (False, f, Panicked p, [])
            | Hang \<Rightarrow> (False, f, Waiting_Within, []))
        | Keyboard_Waiting keyboard \<Rightarrow> keyboard_resume Q A add_byte waker keyboard s
        | Shell_Task \<Rightarrow> shell_resume n d waker (dec_new d) s
        | Shell_Waiting kb \<Rightarrow> shell_resume n d waker kb s)
    | _ \<Rightarrow> (False, f, st, []))"

text \<open>A keyboard interrupt between two polls: the waker pushes the task it belongs to.\<close>

definition key_arrives :: "(task_id, 't) queue_ops \<Rightarrow> (u8, 'q) queue_ops \<Rightarrow> 'v waker_ops \<Rightarrow> u8 \<Rightarrow> 't \<times> ('q, 'v) system
    \<Rightarrow> ('t \<times> ('q, 'v) system) outcome" where
  "key_arrives T Q A scancode ts = (case ts of (ready, s) \<Rightarrow>
     let t = w_term (sys_world s) in
     obind (case add_scancode Q A scancode (sys_scancodes s) (sys_waker s) of
         (Queued True, _, _) \<Rightarrow> wake_task T (sys_woken s) ready | _ \<Rightarrow> Ret ready) (\<lambda>ready'.
     obind (keyboard_interrupt_handler Q A scancode (sys_scancodes s) (sys_waker s) (term_writer t)) (\<lambda>(queue, v, screen, events).
     Ret (ready', s\<lparr>sys_world := (sys_world s)\<lparr>w_term := t\<lparr>term_writer := screen\<rparr>, w_machine := w_machine (sys_world s) @ events\<rparr>,
                    sys_scancodes := queue, sys_waker := v\<rparr>))))"

text \<open>Lines typed one after another: the interrupts of a line, then three turns of the executor.\<close>

fun type_lines :: "(task_id, 't) queue_ops \<Rightarrow> (u8, 'q) queue_ops \<Rightarrow> 'v waker_ops \<Rightarrow> ('f, ('q, 'v) status) poll_fn
    \<Rightarrow> u8 list list \<Rightarrow> ('f, 't) executor \<Rightarrow> ('q, 'v) status \<Rightarrow> (('f, 't) executor \<times> ('q, 'v) status) outcome" where
  "type_lines T Q A poll (scancodes # later) e (Running s) =
    obind (for_each (key_arrives T Q A) scancodes (task_queue e, s)) (\<lambda>(ready, s1).
    obind (turns 3 T poll (e\<lparr>task_queue := ready\<rparr>) (Running s1)) (\<lambda>r. case r of
        Some (e', st) \<Rightarrow> type_lines T Q A poll later e' st
      | None \<Rightarrow> Ret (e\<lparr>task_queue := ready\<rparr>, Running s1)))"
| "type_lines T Q A poll lines e st = Ret (e, st)"

section \<open>What lines do\<close>

text \<open>One line, and a session of them, as programs on the kernel's state.\<close>

definition typed_line :: "nat \<Rightarrow> 'k decoder \<Rightarrow> u8 list \<times> string list \<Rightarrow> unit kernel" where
  "typed_line n d line =
    pbind (modify (\<lambda>w. w\<lparr>w_machine := w_machine w @ replicate (length (fst line)) (End_Of_Interrupt 33)\<rparr>)) (\<lambda>_.
    pbind (w_print (join '' '' (snd line) @ [newline])) (\<lambda>_.
    pbind (modify (\<lambda>w. w\<lparr>w_shell := \<lparr>current_cmd = '''', past_cmd = past_cmd (w_shell w) @ [snd line]\<rparr>\<rparr>)) (\<lambda>_.
    pbind (run_cmd n d (snd line)) (\<lambda>r. pbind (report r) (\<lambda>_. w_print ''> '')))))"

primrec commands_in_turn :: "nat \<Rightarrow> 'k decoder \<Rightarrow> (u8 list \<times> string list) list \<Rightarrow> unit kernel" where
  "commands_in_turn n d [] = ret ()"
| "commands_in_turn n d (line # later) = pbind (typed_line n d line) (\<lambda>_. commands_in_turn n d later)"

text \<open>The scancodes of each line decode to its words with single spaces and Enter.\<close>

primrec lines_decode :: "('d \<Rightarrow> u8 \<Rightarrow> (unit + key_event option) \<times> 'd) \<Rightarrow> 'k decoder \<Rightarrow> 'd \<Rightarrow> 'k \<Rightarrow> (u8 list \<times> string list) list \<Rightarrow> bool" where
  "lines_decode add_byte d keyboard kb [] \<longleftrightarrow> True"
| "lines_decode add_byte d keyboard kb (line # later) \<longleftrightarrow>
    (case decode_all add_byte (fst line) keyboard [] of (keyboard', events) \<Rightarrow>
     case decoded_keys d kb events of (keys, kb') \<Rightarrow>
       keys = map (\<lambda>c. Unicode (of_char c)) (join '' '' (snd line)) @ [Unicode 10]
       \<and> fst line \<noteq> [] \<and> length (fst line) \<le> 100 \<and> snd line \<noteq> [] \<and> (\<forall>x\<in>set (snd line). plain_word x)
       \<and> lines_decode add_byte d keyboard' kb' later)"

text \<open>How a run of such a program shows in the machine.\<close>

definition seen :: "('q, 'v) status \<Rightarrow> (unit, world) run" where
  "seen st = (case st of Running s \<Rightarrow> Done () (sys_world s) | Panicked p \<Rightarrow> Crash p | Switched_Off w \<Rightarrow> Powered_Off w | Waiting_Within \<Rightarrow> Unfinished)"

text \<open>The documented behaviour of \<^verbatim>\<open>AtomicWaker\<close>: a waker that was registered is woken once.\<close>

definition wakes_once :: "'v waker_ops \<Rightarrow> ('v \<Rightarrow> bool) \<Rightarrow> bool" where
  "wakes_once A armed \<longleftrightarrow> (\<forall>v. armed (aw_register A v) \<and> fst (aw_wake A v) = armed v \<and> \<not> armed (snd (aw_wake A v)))"

section \<open>One line\<close>

lemma idle_round: "quiet w \<Longrightarrow> shell_round n d kb w = Done kb w"
proof -
  assume q: "quiet w"
  then have "w\<lparr>w_keys := []\<rparr> = w" by (simp add: quiet_def)
  then show ?thesis using q
    by (simp add: shell_round_def drain_keys_def get_world_def modify_def pbind_def yield_now_def quiet_def ret_def)
qed

lemma typed_line_keeps: "keeps_inv quiet (typed_line n d line)"
  unfolding typed_line_def
  by (intro agree_laws quiet_screen quiet_state.run_cmd_agrees [OF order_refl] quiet_state.report_keeps keeps_modify) (simp_all add: quiet_def)

lemma typed_line_world: "snd line \<noteq> [] \<Longrightarrow> \<forall>x\<in>set (snd line). plain_word x \<Longrightarrow> keeps_inv world_ok (typed_line n d line)"
  unfolding typed_line_def
proof (intro agree_laws always_keeps [OF screen_always(1)] kernel_state.run_cmd_agrees [OF order_refl] kernel_state.report_keeps keeps_modify)
  fix w assume "snd line \<noteq> []" "\<forall>x\<in>set (snd line). plain_word x" "world_ok w"
  then show "world_ok (w\<lparr>w_shell := \<lparr>current_cmd = '''', past_cmd = past_cmd (w_shell w) @ [snd line]\<rparr>\<rparr>)"
    using wf_shell_init by (auto simp: world_ok_def wf_shell_def shell_init_def plain_word_def)
qed (simp add: world_ok_def)

text \<open>The round of the shell that finds the keys of a line.\<close>

lemma line_round:
  assumes "world_ok w" "quiet w" "decoded_keys d kb events = (map (\<lambda>c. Unicode (of_char c)) (join '' '' words) @ [Unicode 10], kb')"
    "words \<noteq> []" "\<forall>x\<in>set words. plain_word x"
  shows "shell_round n d kb (w\<lparr>w_machine := w_machine w @ replicate (length scs) (End_Of_Interrupt 33), w_keys := events\<rparr>)
    = pbind (typed_line n d (scs, words)) (\<lambda>_. ret kb') w"
proof -
  let ?m = "w\<lparr>w_machine := w_machine w @ replicate (length scs) (End_Of_Interrupt 33)\<rparr>"
  have ok: "world_ok (?m\<lparr>w_keys := events\<rparr>)" "wf_writer (term_writer (w_term ?m))" using assms(1) by (simp_all add: world_ok_def)
  have c: "current_cmd (w_shell (?m\<lparr>w_keys := events\<rparr>)) = ''''" using assms(2) by (simp add: quiet_def)
  have k: "decoded_keys d kb (w_keys (?m\<lparr>w_keys := events\<rparr>)) = (map (\<lambda>c. Unicode (of_char c)) (join '' '' words) @ [Unicode 10], kb')"
    using assms(3) by simp
  obtain t where t: "write_string (join '' '' words @ [newline]) (term_writer (w_term w)) = Ret t"
    and r: "shell_round n d kb (?m\<lparr>w_keys := events\<rparr>)
      = pbind (run_cmd n d words) (\<lambda>r. pbind (report r) (\<lambda>_. pbind (w_print ''> '') (\<lambda>_. pbind yield_now (\<lambda>_. ret kb'))))
        (?m\<lparr>w_keys := events, w_term := (w_term w)\<lparr>term_writer := t\<rparr>,
           w_shell := \<lparr>current_cmd = '''', past_cmd = past_cmd (w_shell w) @ [words]\<rparr>, w_keys := [], w_pending := False\<rparr>)"
    using typed_line_runs [OF ok(1) c k assms(4,5), of n] by auto
  let ?u = "?m\<lparr>w_term := (w_term w)\<lparr>term_writer := t\<rparr>, w_shell := \<lparr>current_cmd = '''', past_cmd = past_cmd (w_shell w) @ [words]\<rparr>\<rparr>"
  have u: "?m\<lparr>w_keys := events, w_term := (w_term w)\<lparr>term_writer := t\<rparr>,
           w_shell := \<lparr>current_cmd = '''', past_cmd = past_cmd (w_shell w) @ [words]\<rparr>, w_keys := [], w_pending := False\<rparr> = ?u"
    using assms(2) by (intro world.equality) (simp_all add: quiet_def)
  have p: "w_print (join '' '' words @ [newline]) ?m = Done () (?m\<lparr>w_term := (w_term w)\<lparr>term_writer := t\<rparr>\<rparr>)"
    using print_world [OF ok(2), of "join '' '' words @ [newline]"] t by auto
  let ?body = "pbind (run_cmd n d words) (\<lambda>r. pbind (report r) (\<lambda>_. w_print ''> ''))"
  have l: "typed_line n d (scs, words) w = ?body ?u"
    using p by (simp add: typed_line_def modify_def pbind_def)
  have "quiet ?u" using assms(2) by (simp add: quiet_def)
  moreover have "keeps_inv quiet ?body"
    by (intro agree_laws quiet_screen quiet_state.run_cmd_agrees [OF order_refl] quiet_state.report_keeps)
  ultimately have y: "pbind ?body (\<lambda>_. pbind yield_now (\<lambda>_. ret kb')) ?u = pbind ?body (\<lambda>_. ret kb') ?u"
    using agreesD(2) [of quiet ?body ?body ?u] by (auto simp: pbind_def yield_now_def modify_def quiet_def split: run.split)
  have e: "pbind (run_cmd n d words) (\<lambda>r. pbind (report r) (\<lambda>_. pbind (w_print ''> '') (\<lambda>_. K))) = pbind ?body (\<lambda>_. K)"
    for K :: "'a kernel" by (simp add: pbind_assoc)
  have "pbind (typed_line n d (scs, words)) (\<lambda>_. ret kb') w = pbind ?body (\<lambda>_. ret kb') ?u"
    unfolding pbind_def [of "typed_line n d (scs, words)"] pbind_def [of ?body] l ..
  then show ?thesis unfolding r u e y by (rule sym)
qed

section \<open>Turns\<close>

lemma task_poll_modest: "modest (task_poll n Q A add_byte k0 d)"
  unfolding modest_def task_poll_def keyboard_resume_def shell_resume_def
  by (auto split: status.split kernel_task.split outcome.split run.split prod.split)

lemma one_turn:
  assumes T: "bounded_fifo T titems tcap" and m: "modest poll" and inv: "exec_inv e"
    and q: "titems (task_queue e) = tid # rest" "length (titems (task_queue e)) \<le> tcap (task_queue e)"
    and f: "bt_get tid (tasks e) = Some f" and p: "poll tid f w = (False, f', w', new)"
  shows "\<exists>e'. run_next T poll e w = Ret (Some (e', w')) \<and> exec_inv e' \<and> titems (task_queue e') = rest @ new
    \<and> tcap (task_queue e') = tcap (task_queue e) \<and> bt_get tid (tasks e') = Some f'
    \<and> (\<forall>j. j \<noteq> tid \<longrightarrow> bt_get j (tasks e') = bt_get j (tasks e))"
proof -
  have "fst (cached_waker tid (waker_cache e)) = tid"
    using cached_waker_inv(1) [OF inv, of tid] f by (metis option.distinct(1) prod.collapse)
  moreover have ok: "bt_ok (tasks e)" using inv by (simp add: exec_inv_def)
  ultimately obtain e' where e': "run_next T poll e w = Ret (Some (e', w'))" "titems (task_queue e') = rest @ new"
      "tcap (task_queue e') = tcap (task_queue e)" "bt_get tid (tasks e') = Some f'"
      "\<forall>j. j \<noteq> tid \<longrightarrow> bt_get j (tasks e') = bt_get j (tasks e)"
    using run_next_modest [OF T m q, of w] f p by auto
  then show ?thesis using run_next_inv [OF inv e'(1)] by blast
qed

text \<open>The interrupts of a line: the waker, if it is armed, queues the keyboard task once.\<close>

lemma keys_arrive:
  assumes Q: "bounded_fifo Q items capacity" and T: "bounded_fifo T titems tcap" and A: "wakes_once A armed"
  shows "sys_scancodes s = Some q \<Longrightarrow> length (items q) + length scs \<le> capacity q \<Longrightarrow> length (titems ready) < tcap ready \<or> \<not> armed (sys_waker s)
    \<Longrightarrow> \<exists>ready' v q'. for_each (key_arrives T Q A) scs (ready, s)
        = Ret (ready', s\<lparr>sys_world := (sys_world s)\<lparr>w_machine := w_machine (sys_world s) @ replicate (length scs) (End_Of_Interrupt 33)\<rparr>,
            sys_scancodes := Some q', sys_waker := v\<rparr>)
      \<and> titems ready' = titems ready @ (if armed (sys_waker s) \<and> scs \<noteq> [] then [sys_woken s] else []) \<and> tcap ready' = tcap ready
      \<and> items q' = items q @ scs \<and> capacity q' = capacity q"
proof (induction scs arbitrary: s q ready)
  case Nil
  then show ?case by (intro exI [of _ ready] exI [of _ "sys_waker s"] exI [of _ q]) simp
next
  case (Cons sc scs)
  obtain q1 where q1: "q_push Q sc q = Some q1" "items q1 = items q @ [sc]" "capacity q1 = capacity q"
    using fifo_push [OF Q, of q sc] Cons.prems(2) by auto
  obtain v1 where v1: "aw_wake A (sys_waker s) = (armed (sys_waker s), v1)" "\<not> armed v1"
    using A that [of "snd (aw_wake A (sys_waker s))"] by (simp add: wakes_once_def prod_eq_iff)
  obtain r1 where r1: "(if armed (sys_waker s) then wake_task T (sys_woken s) ready else Ret ready) = Ret r1"
      "titems r1 = titems ready @ (if armed (sys_waker s) then [sys_woken s] else [])" "tcap r1 = tcap ready"
  proof (cases "armed (sys_waker s)")
    case True
    then obtain r where "q_push T (sys_woken s) ready = Some r" "titems r = titems ready @ [sys_woken s]" "tcap r = tcap ready"
      using fifo_push [OF T, of ready "sys_woken s"] Cons.prems(3) by auto
    then show ?thesis using that [of r] True by (simp add: wake_task_def)
  qed (use that in simp)
  let ?s = "s\<lparr>sys_world := (sys_world s)\<lparr>w_machine := w_machine (sys_world s) @ [End_Of_Interrupt 33]\<rparr>, sys_scancodes := Some q1, sys_waker := v1\<rparr>"
  have "(case (Queued (armed (sys_waker s)), Some q1, v1) of (Queued True, _, _) \<Rightarrow> wake_task T (sys_woken s) ready | _ \<Rightarrow> Ret ready) = Ret r1"
    using r1(1) by (cases "armed (sys_waker s)") simp_all
  then have a: "key_arrives T Q A sc (ready, s) = Ret (r1, ?s)"
    using q1(1) v1(1) Cons.prems(1)
    by (simp add: key_arrives_def keyboard_interrupt_handler_def add_scancode_def scancode_warning_def PIC_1_OFFSET_def)
  have "\<exists>ready' v q'. for_each (key_arrives T Q A) scs (r1, ?s)
        = Ret (ready', ?s\<lparr>sys_world := (sys_world ?s)\<lparr>w_machine := w_machine (sys_world ?s) @ replicate (length scs) (End_Of_Interrupt 33)\<rparr>,
            sys_scancodes := Some q', sys_waker := v\<rparr>)
      \<and> titems ready' = titems r1 @ (if armed (sys_waker ?s) \<and> scs \<noteq> [] then [sys_woken ?s] else []) \<and> tcap ready' = tcap r1
      \<and> items q' = items q1 @ scs \<and> capacity q' = capacity q1"
    using Cons.prems(2) q1(2,3) v1(2) by (intro Cons.IH) simp_all
  then show ?case using a q1(2,3) r1(2,3) v1(2) by auto
qed

text \<open>
  The machine between two lines: the shell is ready, the keyboard task waits with its waker registered, and no scancode
  is queued.
\<close>

definition at_prompt :: "('q \<Rightarrow> u8 list) \<Rightarrow> ('q \<Rightarrow> nat) \<Rightarrow> ('t \<Rightarrow> task_id list) \<Rightarrow> ('t \<Rightarrow> nat) \<Rightarrow> ('v \<Rightarrow> bool) \<Rightarrow> 'd \<Rightarrow> 'k
    \<Rightarrow> ('d, 'k, 't) kernel_executor \<Rightarrow> ('q, 'v) system \<Rightarrow> bool" where
  "at_prompt items capacity titems tcap armed keyboard kb e s \<longleftrightarrow> exec_inv e \<and> titems (task_queue e) = [1] \<and> tcap (task_queue e) = 100
     \<and> bt_get 0 (tasks e) = Some (Keyboard_Waiting keyboard) \<and> bt_get 1 (tasks e) = Some (Shell_Waiting kb)
     \<and> (\<exists>q. sys_scancodes s = Some q \<and> items q = [] \<and> capacity q = 100) \<and> armed (sys_waker s) \<and> sys_woken s = 0
     \<and> world_ok (sys_world s) \<and> quiet (sys_world s)"

lemma shell_polls_idle:
  "quiet (sys_world s) \<Longrightarrow> task_poll n Q A add_byte k0 d 1 (Shell_Waiting kb) (Running s) = (False, Shell_Waiting kb, Running s, [1])"
  using idle_round [of "sys_world s" n d kb] by (simp add: task_poll_def shell_resume_def)

lemma keyboard_polls:
  assumes Q: "bounded_fifo Q items capacity" and s: "sys_scancodes s = Some q" "length (items q) \<le> 100" "w_keys (sys_world s) = []"
    and k: "decode_all add_byte (items q) k [] = (k', events)"
  shows "\<exists>q'. task_poll n Q A add_byte k0 d 0 (Keyboard_Waiting k) (Running s) = (False, Keyboard_Waiting k',
      Running (s\<lparr>sys_world := (sys_world s)\<lparr>w_keys := events\<rparr>, sys_scancodes := Some q', sys_waker := aw_register A (sys_waker s), sys_woken := 0\<rparr>), [])
    \<and> items q' = [] \<and> capacity q' = capacity q"
  using keyboard_poll_drains [OF Q, of q 101 add_byte k "[]" k' events A "sys_waker s"] s k
  by (auto simp: task_poll_def keyboard_resume_def)

lemma shell_polls_line:
  assumes "world_ok w" "quiet w" "decoded_keys d kb events = (map (\<lambda>c. Unicode (of_char c)) (join '' '' words) @ [Unicode 10], kb')"
    "words \<noteq> []" "\<forall>x\<in>set words. plain_word x"
    and s: "sys_world s = w\<lparr>w_machine := w_machine w @ replicate (length scs) (End_Of_Interrupt 33), w_keys := events\<rparr>"
  shows "\<exists>f st new. task_poll n Q A add_byte k0 d 1 (Shell_Waiting kb) (Running s) = (False, f, st, new)
    \<and> seen st = typed_line n d (scs, words) w
    \<and> (\<forall>s'. st = Running s' \<longrightarrow> f = Shell_Waiting kb' \<and> new = [1] \<and> world_ok (sys_world s') \<and> quiet (sys_world s')
        \<and> sys_scancodes s' = sys_scancodes s \<and> sys_waker s' = sys_waker s \<and> sys_woken s' = sys_woken s)"
proof (cases "typed_line n d (scs, words) w")
  case (Done u w')
  have "quiet w'" "world_ok w'"
    using agreesD(2) [OF typed_line_keeps assms(2) Done] agreesD(2) [OF typed_line_world assms(1) Done] assms(4,5) by simp_all
  then show ?thesis using line_round [OF assms(1-5), of n scs] s Done
    by (simp add: task_poll_def shell_resume_def pbind_def ret_def seen_def)
qed (use line_round [OF assms(1-5), of n scs] s in \<open>simp_all add: task_poll_def shell_resume_def pbind_def seen_def\<close>)

text \<open>Three turns: the shell finds nothing, the keyboard task delivers the events, and the shell runs the line.\<close>

lemma line_turns:
  assumes Q: "bounded_fifo Q items capacity" and T: "bounded_fifo T titems tcap" and A: "wakes_once A armed"
    and e: "exec_inv e" "titems (task_queue e) = [1, 0]" "tcap (task_queue e) = 100"
      "bt_get 0 (tasks e) = Some (Keyboard_Waiting k)" "bt_get 1 (tasks e) = Some (Shell_Waiting kb)"
    and s: "sys_scancodes s = Some q" "items q = scs" "capacity q = 100" "length scs \<le> 100"
      "sys_world s = w\<lparr>w_machine := w_machine w @ replicate (length scs) (End_Of_Interrupt 33)\<rparr>" "world_ok w" "quiet w"
    and k: "decode_all add_byte scs k [] = (k', events)"
    and kb: "decoded_keys d kb events = (map (\<lambda>c. Unicode (of_char c)) (join '' '' words) @ [Unicode 10], kb')"
    and l: "words \<noteq> []" "\<forall>x\<in>set words. plain_word x"
  shows "\<exists>e' st. turns 3 T (task_poll n Q A add_byte k0 d) e (Running s) = Ret (Some (e', st))
    \<and> seen st = typed_line n d (scs, words) w
    \<and> (\<forall>s'. st = Running s' \<longrightarrow> at_prompt items capacity titems tcap armed k' kb' e' s')"
proof -
  let ?poll = "task_poll n Q A add_byte k0 d"
  note turn = one_turn [OF T task_poll_modest [of n Q A add_byte k0 d]]
  have qs: "quiet (sys_world s)" "w_keys (sys_world s) = []" using s(5,7) by (simp_all add: quiet_def)
  from turn [OF e(1,2) _ e(5) shell_polls_idle [OF qs(1), of n Q A add_byte k0 d kb]] e obtain e1 where
    e1: "run_next T ?poll e (Running s) = Ret (Some (e1, Running s))" "exec_inv e1" "titems (task_queue e1) = [0, 1]"
      "tcap (task_queue e1) = 100" "bt_get 1 (tasks e1) = Some (Shell_Waiting kb)" "bt_get 0 (tasks e1) = Some (Keyboard_Waiting k)" by auto
  let ?s2 = "\<lambda>q. s\<lparr>sys_world := (sys_world s)\<lparr>w_keys := events\<rparr>, sys_scancodes := Some q, sys_waker := aw_register A (sys_waker s), sys_woken := 0\<rparr>"
  obtain q2 where q2: "?poll 0 (Keyboard_Waiting k) (Running s) = (False, Keyboard_Waiting k', Running (?s2 q2), [])" "items q2 = []" "capacity q2 = 100"
    using keyboard_polls [OF Q s(1) _ qs(2), of add_byte k k' events n A k0 d] s(2-4) k by auto
  from turn [OF e1(2,3) _ e1(6) q2(1)] e1 obtain e2 where
    e2: "run_next T ?poll e1 (Running s) = Ret (Some (e2, Running (?s2 q2)))" "exec_inv e2" "titems (task_queue e2) = [1]"
      "tcap (task_queue e2) = 100" "bt_get 0 (tasks e2) = Some (Keyboard_Waiting k')" "bt_get 1 (tasks e2) = Some (Shell_Waiting kb)" by auto
  have "sys_world (?s2 q2) = w\<lparr>w_machine := w_machine w @ replicate (length scs) (End_Of_Interrupt 33), w_keys := events\<rparr>" using s(5) by simp
  from shell_polls_line [OF s(6,7) kb l this, of n Q A add_byte k0] obtain f st new where
    f: "?poll 1 (Shell_Waiting kb) (Running (?s2 q2)) = (False, f, st, new)" "seen st = typed_line n d (scs, words) w"
      "\<forall>s'. st = Running s' \<longrightarrow> f = Shell_Waiting kb' \<and> new = [1] \<and> world_ok (sys_world s') \<and> quiet (sys_world s')
        \<and> sys_scancodes s' = Some q2 \<and> sys_waker s' = aw_register A (sys_waker s) \<and> sys_woken s' = 0" by auto
  from turn [OF e2(2,3) _ e2(6) f(1)] e2 obtain e3 where
    e3: "run_next T ?poll e2 (Running (?s2 q2)) = Ret (Some (e3, st))" "exec_inv e3" "titems (task_queue e3) = new"
      "tcap (task_queue e3) = 100" "bt_get 1 (tasks e3) = Some f" "bt_get 0 (tasks e3) = Some (Keyboard_Waiting k')" by auto
  have "turns 3 T ?poll e (Running s) = Ret (Some (e3, st))" using e1(1) e2(1) e3(1) by (simp add: numeral_3_eq_3)
  then show ?thesis using e3(2-6) f(2,3) q2(2,3) A by (auto simp: at_prompt_def wakes_once_def)
qed

lemma line_runs:
  assumes Q: "bounded_fifo Q items capacity" and T: "bounded_fifo T titems tcap" and A: "wakes_once A armed"
    and P: "at_prompt items capacity titems tcap armed k kb e s"
    and k: "decode_all add_byte scs k [] = (k', events)"
    and kb: "decoded_keys d kb events = (map (\<lambda>c. Unicode (of_char c)) (join '' '' words) @ [Unicode 10], kb')"
    and l: "scs \<noteq> []" "length scs \<le> 100" "words \<noteq> []" "\<forall>x\<in>set words. plain_word x"
  shows "\<exists>ready s1 e' st. for_each (key_arrives T Q A) scs (task_queue e, s) = Ret (ready, s1)
    \<and> turns 3 T (task_poll n Q A add_byte k0 d) (e\<lparr>task_queue := ready\<rparr>) (Running s1) = Ret (Some (e', st))
    \<and> seen st = typed_line n d (scs, words) (sys_world s)
    \<and> (\<forall>s'. st = Running s' \<longrightarrow> at_prompt items capacity titems tcap armed k' kb' e' s')"
proof -
  obtain q where p: "exec_inv e" "titems (task_queue e) = [1]" "tcap (task_queue e) = 100" "bt_get 0 (tasks e) = Some (Keyboard_Waiting k)"
      "bt_get 1 (tasks e) = Some (Shell_Waiting kb)" "sys_scancodes s = Some q" "items q = []" "capacity q = 100"
      "armed (sys_waker s)" "sys_woken s = 0" "world_ok (sys_world s)" "quiet (sys_world s)"
    using P by (auto simp: at_prompt_def)
  let ?w = "(sys_world s)\<lparr>w_machine := w_machine (sys_world s) @ replicate (length scs) (End_Of_Interrupt 33)\<rparr>"
  obtain ready v q1 where a: "for_each (key_arrives T Q A) scs (task_queue e, s) = Ret (ready, s\<lparr>sys_world := ?w, sys_scancodes := Some q1, sys_waker := v\<rparr>)"
      "titems ready = [1, 0]" "tcap ready = 100" "items q1 = scs" "capacity q1 = 100"
    using keys_arrive [OF Q T A p(6), of scs "task_queue e"] p l(1,2) by auto
  have "exec_inv (e\<lparr>task_queue := ready\<rparr>)" using p(1) by (simp add: exec_inv_def)
  from line_turns [OF Q T A this _ _ _ _ _ a(4,5) l(2) _ p(11,12) k kb l(3,4), of "s\<lparr>sys_world := ?w, sys_scancodes := Some q1, sys_waker := v\<rparr>"]
  show ?thesis using a(1-3) p(4,5) by auto
qed

section \<open>Sessions\<close>

lemma session_runs:
  assumes "bounded_fifo Q items capacity" "bounded_fifo T titems tcap" "wakes_once A armed"
  shows "at_prompt items capacity titems tcap armed k kb e s \<Longrightarrow> lines_decode add_byte d k kb lines
    \<Longrightarrow> \<exists>e' st. type_lines T Q A (task_poll n Q A add_byte k0 d) (map fst lines) e (Running s) = Ret (e', st)
      \<and> seen st = commands_in_turn n d lines (sys_world s)"
proof (induction lines arbitrary: k kb e s)
  case Nil
  then show ?case by (simp add: seen_def ret_def)
next
  case (Cons line lines)
  obtain scs words where line: "line = (scs, words)" by fastforce
  obtain k' events kb' where d: "decode_all add_byte scs k [] = (k', events)" "decoded_keys d kb events = (map (\<lambda>c. Unicode (of_char c)) (join '' '' words) @ [Unicode 10], kb')"
      "scs \<noteq> []" "length scs \<le> 100" "words \<noteq> []" "\<forall>x\<in>set words. plain_word x" "lines_decode add_byte d k' kb' lines"
    using Cons.prems(2) line by (auto split: prod.splits)
  from line_runs [OF assms Cons.prems(1) d(1-6), of n k0] obtain ready s1 e' st where
    r: "for_each (key_arrives T Q A) scs (task_queue e, s) = Ret (ready, s1)"
      "turns 3 T (task_poll n Q A add_byte k0 d) (e\<lparr>task_queue := ready\<rparr>) (Running s1) = Ret (Some (e', st))"
      "seen st = typed_line n d line (sys_world s)" "\<forall>s'. st = Running s' \<longrightarrow> at_prompt items capacity titems tcap armed k' kb' e' s'"
    unfolding line by blast
  have t: "type_lines T Q A (task_poll n Q A add_byte k0 d) (map fst (line # lines)) e (Running s)
      = type_lines T Q A (task_poll n Q A add_byte k0 d) (map fst lines) e' st"
    using r(1,2) line by simp
  show ?case
  proof (cases st)
    case (Running s')
    then have "typed_line n d line (sys_world s) = Done () (sys_world s')" using r(3) by (simp add: seen_def)
    then show ?thesis unfolding t using Cons.IH [OF _ d(7)] r(4) Running by (simp add: pbind_def)
  qed (unfold t, auto simp: seen_def pbind_def r(3) [symmetric])
qed

lemma boot_quiet: "keeps_inv quiet (kernel_main sel T heap)"
  unfolding kernel_main_def boot_files_def
  by (intro agree_laws quiet_screen keeps_modify) (simp_all add: quiet_def)

text \<open>The first turn of each task.\<close>

lemma tasks_start:
  assumes Q: "bounded_fifo Q items capacity" and T: "bounded_fifo T titems tcap" and A: "wakes_once A armed"
    and e: "exec_inv e" "titems (task_queue e) = [0, 1]" "tcap (task_queue e) = 100" "bt_get 0 (tasks e) = Some Keyboard_Task" "bt_get 1 (tasks e) = Some Shell_Task"
    and w: "world_ok w" "quiet w"
  shows "\<exists>e' s'. turns 2 T (task_poll n Q A add_byte k0 d) e (Running \<lparr>sys_world = w, sys_scancodes = None, sys_waker = v, sys_woken = t\<rparr>) = Ret (Some (e', Running s'))
    \<and> sys_world s' = w \<and> at_prompt items capacity titems tcap armed k0 (dec_new d) e' s'"
proof -
  let ?poll = "task_poll n Q A add_byte k0 d" and ?s = "\<lparr>sys_world = w, sys_scancodes = None, sys_waker = v, sys_woken = t\<rparr>"
  note turn = one_turn [OF T task_poll_modest [of n Q A add_byte k0 d]]
  obtain q where q: "keyboard_poll 101 Q A add_byte (Some (q_new Q 100)) v k0 [] = Ret (Some q, aw_register A v, k0, [])" "items q = []" "capacity q = 100"
    using keyboard_poll_drains [OF Q, of "q_new Q 100" 101 add_byte k0 "[]" k0 "[]" A v] fifo_new [OF Q, of 100] by auto
  let ?s1 = "\<lparr>sys_world = w, sys_scancodes = Some q, sys_waker = aw_register A v, sys_woken = 0\<rparr>"
  have w0: "w\<lparr>w_keys := []\<rparr> = w" "w_keys w = []" using w(2) by (simp_all add: quiet_def)
  have "?poll 0 Keyboard_Task (Running ?s) = (False, Keyboard_Waiting k0, Running ?s1, [])"
    using q(1) w0 by (simp add: task_poll_def keyboard_resume_def scancode_stream_new_def)
  from turn [OF e(1,2) _ e(4) this] e obtain e1 where
    e1: "run_next T ?poll e (Running ?s) = Ret (Some (e1, Running ?s1))" "exec_inv e1" "titems (task_queue e1) = [1]" "tcap (task_queue e1) = 100"
      "bt_get 0 (tasks e1) = Some (Keyboard_Waiting k0)" "bt_get 1 (tasks e1) = Some Shell_Task" by auto
  have "?poll 1 Shell_Task (Running ?s1) = (False, Shell_Waiting (dec_new d), Running ?s1, [1])"
    using idle_round [OF w(2), of n d "dec_new d"] by (simp add: task_poll_def shell_resume_def)
  from turn [OF e1(2,3) _ e1(6) this] e1 obtain e2 where
    e2: "run_next T ?poll e1 (Running ?s1) = Ret (Some (e2, Running ?s1))" "exec_inv e2" "titems (task_queue e2) = [1]" "tcap (task_queue e2) = 100"
      "bt_get 1 (tasks e2) = Some (Shell_Waiting (dec_new d))" "bt_get 0 (tasks e2) = Some (Keyboard_Waiting k0)" by auto
  have "at_prompt items capacity titems tcap armed k0 (dec_new d) e2 ?s1" using e2(2-6) q(2,3) w A by (simp add: at_prompt_def wakes_once_def)
  then show ?thesis using e1(1) e2(1) by (simp add: numeral_2_eq_2)
qed

text \<open>
  C5: from power-on to commands. The kernel boots on a disk with a well-formed volume, each of its two tasks is polled once,
  and the machine waits for keys. Then let lines be typed one after another, each of at most 100 scancodes that decode to
  words with single spaces and Enter, and let the executor take three turns after each. The interrupts of each line queue
  the keyboard task exactly once, its poll hands the key events over, and the shell runs the words: screen, disk,
  history and everything else the kernel keeps are those of running these commands in this order, up to the line
  that panics, switches the machine off or waits for further keys, if there is one.
\<close>

theorem typed_lines_run:
  fixes d :: "'k decoder" and k0 :: 'd and T :: "(task_id, 't) queue_ops"
  assumes "world_ok w" and "quiet w" and "read_bpb (sector_read (w_disk w) 0) = b" and "fs_inv b (w_disk w)"
    and "bounded_fifo Q items capacity" and "bounded_fifo T titems tcap" and "wakes_once A armed"
    and "lines_decode add_byte d k0 (dec_new d) lines"
  shows "\<exists>e w1 e1 s1 e2 st. kernel_main sel T (Ret h) w = Done e w1 \<and> world_ok w1 \<and> w_fs w1 = Some b
    \<and> w_commands w1 = init_cmds (w_commands w)
    \<and> turns 2 T (task_poll n Q A add_byte k0 d) e (Running \<lparr>sys_world = w1, sys_scancodes = None, sys_waker = v, sys_woken = t\<rparr>)
        = Ret (Some (e1, Running s1))
    \<and> type_lines T Q A (task_poll n Q A add_byte k0 d) (map fst lines) e1 (Running s1) = Ret (e2, st)
    \<and> seen st = commands_in_turn n d lines w1"
proof -
  obtain e :: "('d, 'k, 't) kernel_executor" and w1 where c: "w_commands w1 = init_cmds (w_commands w)"
    and b: "kernel_main sel T (Ret h) w = Done e w1" "world_ok w1" "w_fs w1 = Some b" "exec_inv e" "titems (task_queue e) = [0, 1]"
      "tcap (task_queue e) = 100" "bt_get 0 (tasks e) = Some Keyboard_Task" "bt_get 1 (tasks e) = Some Shell_Task"
    using kernel_main_boots [OF assms(1,3,4,6), of sel h] by blast
  have "quiet w1" using agreesD(2) [OF boot_quiet assms(2) b(1)] .
  from tasks_start [OF assms(5-7) b(4-8,2) this, of n add_byte k0 d v t] obtain e1 s1 where
    1: "turns 2 T (task_poll n Q A add_byte k0 d) e (Running \<lparr>sys_world = w1, sys_scancodes = None, sys_waker = v, sys_woken = t\<rparr>) = Ret (Some (e1, Running s1))"
      "sys_world s1 = w1" "at_prompt items capacity titems tcap armed k0 (dec_new d) e1 s1" by blast
  from session_runs [OF assms(5-7) 1(3) assms(8), of n k0] show ?thesis using b(1-3) c 1(1,2) by auto
qed

lemma flag_waker_once: "wakes_once flag_waker (\<lambda>v. v)"
  by (simp add: wakes_once_def flag_waker_def)

lemma quit_line:
  assumes "world_ok w" "bt_get ''quit'' (w_commands w) = Some Cmd_Quit"
  shows "\<exists>w'. typed_line (Suc n) d (scs, [''quit'']) w = Powered_Off w'"
proof -
  let ?m = "w\<lparr>w_machine := w_machine w @ replicate (length scs) (End_Of_Interrupt 33)\<rparr>"
  have "wf_writer (term_writer (w_term ?m))" using assms(1) by (simp add: world_ok_def)
  from print_world [OF this, of "''quit'' @ [newline]"] obtain t where
    t: "wf_writer t" "w_print (''quit'' @ [newline]) ?m = Done () (?m\<lparr>w_term := (w_term ?m)\<lparr>term_writer := t\<rparr>\<rparr>)" by blast
  let ?u = "?m\<lparr>w_term := (w_term w)\<lparr>term_writer := t\<rparr>, w_shell := \<lparr>current_cmd = '''', past_cmd = past_cmd (w_shell w) @ [[''quit'']]\<rparr>\<rparr>"
  have "world_ok ?u" using assms(1) t(1) wf_shell_init by (auto simp: world_ok_def wf_shell_def shell_init_def)
  then obtain w' where "run_cmd (Suc n) d [''quit''] ?u = Powered_Off w'"
    using quit_powers_off [of ?u n d "[]"] assms(2) by auto
  then show ?thesis using t(2) by (auto simp: typed_line_def modify_def pbind_def simp del: run_cmd.simps)
qed

theorem typed_lines_run_witness:
  "\<exists>(e :: (unit, unit, _) kernel_executor) w1 e1 s1 e2 st w2.
     kernel_main \<lparr>code_selector = 8, tss_selector = 16\<rparr> list_queue (Ret ((), HEAP_START, HEAP_SIZE)) (start_world\<lparr>w_commands := [], w_disk := formatted blank\<rparr>) = Done e w1
   \<and> turns 2 list_queue (task_poll 7 list_queue flag_waker plain_scancodes () typist) e
       (Running \<lparr>sys_world = w1, sys_scancodes = None, sys_waker = False, sys_woken = 0\<rparr>) = Ret (Some (e1, Running s1))
   \<and> type_lines list_queue list_queue flag_waker (task_poll 7 list_queue flag_waker plain_scancodes () typist)
       [map of_char ''quit'' @ [10]] e1 (Running s1) = Ret (e2, st)
   \<and> seen st = Powered_Off w2"
proof -
  let ?w = "start_world\<lparr>w_commands := [], w_disk := formatted blank\<rparr>"
  let ?scs = "map of_char ''quit'' @ [10] :: u8 list" and ?lines = "[(map of_char ''quit'' @ [10] :: u8 list, [''quit''])]"
  have w: "world_ok ?w" using start_world_ok formatted_inv [OF disk_ok_blank] by (simp add: world_ok_def fs_inv_def)
  have q: "quiet ?w" by (simp add: quiet_def start_world_def shell_init_def)
  have d: "read_bpb (sector_read (w_disk ?w) 0) = format_bpb" "fs_inv format_bpb (w_disk ?w)"
    using formatted_bpb formatted_inv [OF disk_ok_blank] by simp_all
  have "decode_all plain_scancodes ?scs () [] = ((), map (\<lambda>sc. \<lparr>key_code = Other_Key (unat sc), key_state = Down\<rparr>) ?scs)"
    by (simp add: plain_scancodes_def push_key_def)
  moreover have "decoded_keys typist () (map (\<lambda>sc. \<lparr>key_code = Other_Key (unat sc), key_state = Down\<rparr>) ?scs)
      = (map (\<lambda>c. Unicode (of_char c)) ''quit'' @ [Unicode 10], ())"
    by (simp add: typist_def)
  moreover have "join '' '' [''quit''] = ''quit''" "plain_word ''quit''" by (simp_all add: plain_word_def)
  ultimately have l: "lines_decode plain_scancodes typist () (dec_new typist) ?lines" by simp
  from typed_lines_run [OF w q d list_queue_fifo list_queue_fifo flag_waker_once l,
      of "\<lparr>code_selector = 8, tss_selector = 16\<rparr>" "((), HEAP_START, HEAP_SIZE)" 7 False 0]
  obtain e w1 e1 s1 e2 st where r: "kernel_main \<lparr>code_selector = 8, tss_selector = 16\<rparr> list_queue (Ret ((), HEAP_START, HEAP_SIZE)) ?w = Done e w1"
      "world_ok w1" "w_commands w1 = init_cmds []"
      "turns 2 list_queue (task_poll 7 list_queue flag_waker plain_scancodes () typist) e
         (Running \<lparr>sys_world = w1, sys_scancodes = None, sys_waker = False, sys_woken = 0\<rparr>) = Ret (Some (e1, Running s1))"
      "type_lines list_queue list_queue flag_waker (task_poll 7 list_queue flag_waker plain_scancodes () typist) [?scs] e1 (Running s1) = Ret (e2, st)"
      "seen st = commands_in_turn 7 typist ?lines w1" by auto
  have "bt_get ''quit'' (w_commands w1) = Some Cmd_Quit" unfolding r(3) by (simp add: init_cmds_get)
  from quit_line [OF r(2) this, of 6 typist ?scs] r(6) have "\<exists>w2. seen st = Powered_Off w2" by (auto simp: pbind_def)
  then show ?thesis using r(1,4,5) by blast
qed

end
