(* ===== verification/Self_Tests.thy ===== *)
theory Self_Tests
  imports Machine
begin

text \<open>
  The kernel's own tests (\<^verbatim>\<open>test_case\<close> in \<^verbatim>\<open>lib.rs\<close> and \<^verbatim>\<open>vga_buffer.rs\<close>) and the kernel that \<^verbatim>\<open>cargo test\<close> boots to run them.
  The list of tests, with the names \<^verbatim>\<open>type_name\<close> gives them, is made by the test framework and is an argument.
\<close>

section \<open>The tests\<close>

definition test_println_simple :: "writer \<Rightarrow> writer outcome" where
  "test_println_simple = println ''test_println_simple output''"

definition test_println_many :: "writer \<Rightarrow> writer outcome" where
  "test_println_many = for_each (\<lambda>_. println ''test_println_many output'') [0..<200]"

definition assert_shown :: "nat \<times> rchar \<Rightarrow> writer \<Rightarrow> writer outcome" where
  "assert_shown ic writer = obind (cell_read (BUFFER_HEIGHT - 2) (fst ic) (buffer writer)) (\<lambda>screen_char.
     if unat (ascii_character screen_char) = snd ic then Ret writer
     else Panic (Panic_Msg ''assertion `left == right` failed''))"

definition test_println_output :: "writer \<Rightarrow> writer outcome" where
  "test_println_output w =
    (let s = ''Some test string that fits on a single line''
     in obind (write_string ([newline] @ s @ [newline]) w) (for_each assert_shown (List.enumerate 0 (chars s))))"

text \<open>The breakpoint instruction: the processor calls the handler the table names, or faults twice.\<close>

definition int3 :: "string \<Rightarrow> writer \<Rightarrow> writer outcome" where
  "int3 stack_frame w = (case idt Slot_Breakpoint of
      Some (Breakpoint_Handler, _) \<Rightarrow> breakpoint_handler stack_frame w
    | _ \<Rightarrow> double_fault_handler stack_frame)"

definition test_breakpoint_exception :: "string \<Rightarrow> writer \<Rightarrow> writer outcome" where
  "test_breakpoint_exception stack_frame w = int3 stack_frame w"

definition test_kernel_main :: "'s uart \<Rightarrow> gdt_selectors \<Rightarrow> (string \<times> (writer \<Rightarrow> writer outcome)) list \<Rightarrow> 's option \<times> writer
    \<Rightarrow> (('s option \<times> writer) \<times> machine_event list) outcome" where
  "test_kernel_main U sel tests st = obind (test_runner U tests st) (\<lambda>(st', events). Ret (st', machine_init sel @ events @ hlt_loop))"

section \<open>They pass\<close>

definition passes :: "(writer \<Rightarrow> writer outcome) \<Rightarrow> bool" where
  "passes test \<longleftrightarrow> (\<forall>w. wf_writer w \<longrightarrow> (\<exists>w'. test w = Ret w' \<and> wf_writer w'))"

lemma println_passes: "passes (println s)"
  by (simp add: passes_def println_def wf_write_string)

lemma many_passes: "passes test_println_many"
  unfolding passes_def test_println_many_def
  by (intro allI impI for_each_inv) (use println_passes in \<open>auto simp: passes_def\<close>)

lemma assertions_hold:
  assumes "wf_writer w" "\<forall>ic\<in>set ps. fst ic < 80 \<and> unat (ascii_character (buffer w ! 23 ! fst ic)) = snd ic"
  shows "for_each assert_shown ps w = Ret w"
  using assms(2,1) by (induction ps) (auto simp: assert_shown_def cell_read_def wf_writer_def dims)

lemma shown_line_passes:
  assumes "wf_writer w" "printable s" "length s \<le> 80"
  shows "\<exists>w'. obind (write_string ([newline] @ s @ [newline]) w) (for_each assert_shown (List.enumerate 0 (chars s))) = Ret w' \<and> wf_writer w'"
proof -
  have "ascii s" using assms(2) by (fastforce simp: printable_def ascii_def)
  then have c: "chars s = map of_char s" by (rule chars_ascii)
  obtain w' where w': "write_string ([newline] @ s @ [newline]) w = Ret w'" "wf_writer w'"
    "buffer w' ! 23 = cells (writer_color w) s @ replicate (80 - length s) (blank_char (writer_color w))"
    by (rule println_after_newline [OF assms])
  have "for_each assert_shown (List.enumerate 0 (chars s)) w' = Ret w'"
    using assms(3) by (intro assertions_hold [OF w'(2)])
      (auto simp: c w'(3) in_set_enumerate_eq nth_append cells_def unat_of_char)
  then show ?thesis using w'(1,2) by simp
qed

lemma output_passes: "passes test_println_output"
proof -
  have "printable ''Some test string that fits on a single line''" by code_simp
  moreover have "length ''Some test string that fits on a single line'' \<le> 80" by code_simp
  ultimately show ?thesis unfolding passes_def test_println_output_def Let_def using shown_line_passes by blast
qed

lemma breakpoint_passes: "passes (test_breakpoint_exception frame)"
  using println_passes
  by (simp add: passes_def test_breakpoint_exception_def int3_def idt_def breakpoint_handler_def)

definition passed_line :: "string \<times> 'a \<Rightarrow> string" where
  "passed_line t = fst t @ ''...'' @ [CHR 0x09] @ ''[ok]'' @ [newline]"

lemma serial_text_append [simp]: "serial_text (s @ t) \<longleftrightarrow> serial_text s \<and> serial_text t"
  by (auto simp: serial_text_def)

lemma serial_text_literals: "serial_text ''...''" "serial_text [CHR 0x09]" "serial_text ''[ok]''" "serial_text [newline]"
    "serial_text ''Running ''" "serial_text '' tests''"
  by code_simp+

lemma serial_text_digits: "serial_text (nat_str n)"
  using nat_str_digits [of n] by (auto simp: serial_text_def list_all_iff is_digit_def)

lemma run_test:
  assumes U: "uart_sends U sent" and "wf_writer w" "passes (snd t)" "serial_text (fst t)"
  shows "\<exists>p' w'. testable_run U t (Some p, w) = Ret (Some p', w') \<and> wf_writer w' \<and> sent p' = sent p @ passed_line t"
proof -
  have "serial_text (fst t @ ''...'' @ [CHR 0x09])" using assms(4) serial_text_literals by (simp only: serial_text_append)
  then obtain p1 where p1: "serial_print U (fst t @ ''...'' @ [CHR 0x09]) (Some p) = Ret (Some p1)" "sent p1 = sent p @ fst t @ ''...'' @ [CHR 0x09]"
    using serial_print_sends [OF U] by fastforce
  have "serial_text (''[ok]'' @ [newline])" using serial_text_literals by (simp only: serial_text_append)
  then obtain p2 where p2: "serial_println U ''[ok]'' (Some p1) = Ret (Some p2)" "sent p2 = sent p1 @ ''[ok]'' @ [newline]"
    using serial_print_sends [OF U] unfolding serial_println_def by fastforce
  obtain w1 where "snd t w = Ret w1" "wf_writer w1" using assms(2,3) by (auto simp: passes_def)
  then show ?thesis using p1 p2 by (simp add: testable_run_def passed_line_def)
qed

lemma run_passing:
  assumes "uart_sends U sent" "wf_writer w" "\<forall>t\<in>set tests. passes (snd t) \<and> serial_text (fst t)"
  shows "\<exists>p' w'. for_each (testable_run U) tests (Some p, w) = Ret (Some p', w') \<and> wf_writer w'
    \<and> sent p' = sent p @ concat (map passed_line tests)"
  using assms(2,3)
proof (induction tests arbitrary: p w)
  case (Cons t tests)
  then obtain p1 w1 where 1: "testable_run U t (Some p, w) = Ret (Some p1, w1)" "wf_writer w1" "sent p1 = sent p @ passed_line t"
    using run_test [OF assms(1)] by (metis list.set_intros(1))
  then show ?case using Cons.IH [OF 1(2), of p1] Cons.prems(2) by auto
qed simp

section \<open>Properties\<close>

definition own_tests :: "string \<Rightarrow> (writer \<Rightarrow> writer outcome) list" where
  "own_tests stack_frame = [test_breakpoint_exception stack_frame, test_println_simple, test_println_many, test_println_output]"

lemma own_tests_passes: "test \<in> set (own_tests frame) \<Longrightarrow> passes test"
  using breakpoint_passes println_passes many_passes output_passes by (auto simp: own_tests_def test_println_simple_def)

text \<open>
  C37: the kernel's own tests pass, not only on the screen they happen to start with: in whatever order the framework
  lists them and however often, from every well-formed screen, the test kernel reports each of them as passed on
  the serial port, which it sets up on first use, and leaves with the exit code of success.
\<close>

theorem own_tests_pass:
  assumes "uart_sends U sent" and "wf_writer w"
    and "\<forall>t\<in>set tests. snd t \<in> set (own_tests stack_frame) \<and> serial_text (fst t)"
  shows "\<exists>p' w'. test_kernel_main U sel tests (port, w) = Ret ((Some p', w'), machine_init sel @ [Out32 0xf4 0x10, Halt_Forever])
    \<and> sent p' = sent (SERIAL1 U port) @ ''Running '' @ nat_str (length tests) @ '' tests'' @ [newline]
        @ concat (map (\<lambda>t. fst t @ ''...'' @ [CHR 0x09] @ ''[ok]'' @ [newline]) tests)
    \<and> wf_writer w'"
proof -
  let ?head = "(''Running '' @ nat_str (length tests) @ '' tests'') @ [newline]"
  have "serial_text ?head" using serial_text_literals serial_text_digits by (simp only: serial_text_append)
  then obtain p1 where p1: "serial_println U (''Running '' @ nat_str (length tests) @ '' tests'') port = Ret (Some p1)" "sent p1 = sent (SERIAL1 U port) @ ?head"
    using serial_print_sends [OF assms(1), of ?head port] unfolding serial_println_def by blast
  have "\<forall>t\<in>set tests. passes (snd t) \<and> serial_text (fst t)" using assms(3) own_tests_passes by blast
  from run_passing [OF assms(1,2) this, of p1] p1 show ?thesis
    by (auto simp: test_kernel_main_def test_runner_def exit_qemu_def hlt_loop_def passed_line_def [abs_def])
qed

text \<open>A port that keeps what it is given.\<close>

definition log_port :: "string uart" where
  "log_port = \<lparr>uart_new = (\<lambda>_. ''''), uart_init = (\<lambda>p. p), uart_write_fmt = (\<lambda>s p. (True, p @ s))\<rparr>"

theorem own_tests_pass_witness:
  "\<exists>w'. test_kernel_main log_port \<lparr>code_selector = 8, tss_selector = 16\<rparr> [(''output'', test_println_output), (''int3'', test_breakpoint_exception ''frame'')]
      (None, blank_writer)
    = Ret ((Some (''Running '' @ nat_str 2 @ '' tests'' @ [newline] @ ''output...'' @ [CHR 0x09] @ ''[ok]'' @ [newline]
             @ ''int3...'' @ [CHR 0x09] @ ''[ok]'' @ [newline]), w'),
           machine_init \<lparr>code_selector = 8, tss_selector = 16\<rparr> @ [Out32 0xf4 0x10, Halt_Forever])"
proof -
  have "uart_sends log_port (\<lambda>p. p)" by (simp add: uart_sends_def log_port_def)
  moreover have "serial_text ''output''" "serial_text ''int3''" by code_simp+
  ultimately show ?thesis
    using own_tests_pass [of log_port "\<lambda>p. p" blank_writer "[(''output'', test_println_output), (''int3'', test_breakpoint_exception ''frame'')]"
      "''frame''" "\<lparr>code_selector = 8, tss_selector = 16\<rparr>" None] wf_blank_writer
    by (auto simp: own_tests_def numeral_2_eq_2 SERIAL1_def log_port_def)
qed

end
