(* ===== verification/Spec2Isabelle.thy ===== *)
theory Spec2Isabelle
  imports Drive_Laws Editor_Use Hashmap Lisp_Programs Scheduling Self_Tests
begin

text \<open>
  \<^bold>\<open>SilOS\<close>, a hobby x86_64 kernel in Rust: one address space, one core, cooperative tasks, a shell on the text screen, a
  FAT16 volume on an ATA disk, a text editor, a Lisp whose programs call shell commands, and a game. File names below
  are relative to \<^verbatim>\<open>src/src\<close>.

  \<^bold>\<open>How the parts work together.\<close> \<^verbatim>\<open>kernel_main\<close> (\<^verbatim>\<open>main.rs\<close>) sets up descriptor tables, interrupts, paging and the heap, mounts the
  volume, registers the commands and starts the executor with two tasks. The keyboard interrupt queues scancodes and
  wakes the keyboard task, which decodes them into key events; the shell task turns key events into a line, the line
  into words, and runs the command the first word names. Commands read and write files through FAT16 and the ATA
  driver, print through the screen's writer, open the editor or the game, or start the interpreter, which in turn
  runs commands.

  \<^bold>\<open>Vocabulary.\<close>
  \<^item> \<open>Prelude\<close>: Rust's integers as words, \<open>outcome\<close> (a value, a panic, or a loop that does not end), overflow-checked
    arithmetic as in the \<^verbatim>\<open>dev\<close> profile, little-endian fields, slice copies, and the shared lemmas.
  \<^item> \<open>Rust_String\<close>: \<^verbatim>\<open>str\<close> and \<^verbatim>\<open>String\<close> as UTF-8 bytes, \<^verbatim>\<open>char\<close> as scalar values. \<open>BTree_Map\<close>: \<^verbatim>\<open>BTreeMap\<close> as a sorted list
    of entries, with its contract \<open>ordered_map\<close>. \<open>F64\<close>, \<open>F64_Laws\<close>: \<^verbatim>\<open>f64\<close> as IEEE binary64, reading and printing included.
  \<^item> \<open>Bounded_Queue\<close>: the documented behaviour of \<^verbatim>\<open>ArrayQueue\<close>, as a hypothesis that lists show can be met.
  \<^item> \<open>Exec\<close>: programs on a state that end, panic, switch the machine off, or do not end within the rounds granted, and
    \<open>agrees\<close>, the relation that carries an invariant through a run and compares two runs.

  \<^bold>\<open>Devices and storage.\<close>
  \<^item> \<open>Vga_Buffer\<close> (\<^verbatim>\<open>vga_buffer.rs\<close>, \<^verbatim>\<open>canvas.rs\<close>): 25 rows of 80 cells, the writer, direct cell writes, the cursor ports. No
    operation leaves the screen; printing refines writing on an endless roll of paper.
  \<^item> \<open>Ide\<close> (\<^verbatim>\<open>ide.rs\<close>): every port access of the driver over an arbitrary device. On a device that follows the register
    protocol (\<open>ata_conforms\<close>) it implements a store of 512-byte sectors.
  \<^item> \<open>Fat16\<close> (\<^verbatim>\<open>fat16.rs\<close>): every function, on the sector store. \<open>Fat16_Table\<close> treats the allocation table as an array with
    chains (contract \<open>fat_table\<close>), \<open>Fat16_Data\<close> the contents of chains, \<open>Fat16_Dir\<close> the root directory as slots;
    \<open>Fat16_Files\<close> and \<open>Fat16_Ops\<close> show that the disk implements a map from names to contents which \<^verbatim>\<open>write_new_file\<close> and
    \<^verbatim>\<open>overwrite_file\<close> change at one name, or report the true reason why not; \<open>Fat16_Format\<close> that a formatted disk mounts.
    Neither writer touches the reserved sectors, so the volume mounts again. A name that is already there is not
    replaced by \<^verbatim>\<open>write_new_file\<close>: which of the two entries is seen is part of the refinement (\<open>shadowed\<close>).
    \<open>File_Store\<close> is the contract the editor and the commands use, which the volume meets.
  \<^item> \<open>Fat16_Drive\<close>: the same functions as programs that ask the driver sector by sector and take and release \<^verbatim>\<open>IDE\<close> and \<^verbatim>\<open>FS\<close> where
    the source does; taking a lock twice is waiting for ever. \<open>Drive_Laws\<close>: on every conforming device they do, port access by
    port access, what \<open>Fat16\<close> does on the store, and they never wait for themselves; so what the commands and the
    editor are shown to do on the store holds of the hardware.
  \<^item> \<open>Memory\<close> (\<^verbatim>\<open>memory.rs\<close>, \<^verbatim>\<open>allocator.rs\<close>): address translation, the frame allocator, the heap's pages.
  \<^item> \<open>Machine\<close> (\<^verbatim>\<open>gdt.rs\<close>, \<^verbatim>\<open>interrupts.rs\<close>, \<^verbatim>\<open>lib.rs\<close>, \<^verbatim>\<open>serial.rs\<close>) and \<open>Power_Off\<close> (\<^verbatim>\<open>power.rs\<close>): effects on processor and
    devices as events in program order; the serial port, set up by its first use. \<open>Self_Tests\<close>: the kernel's own tests
    pass from every screen and are reported on the port.

  \<^bold>\<open>Tasks and input.\<close>
  \<^item> \<open>Input\<close> (\<^verbatim>\<open>input.rs\<close>); \<open>Keyboard\<close> (\<^verbatim>\<open>task/keyboard.rs\<close>): the interrupt handler interleaved with every step of the stream, as
    a step relation. No scancode is lost, repeated or reordered, and no wake-up is missed.
  \<^item> \<open>Executor\<close> (\<^verbatim>\<open>task/mod.rs\<close>, \<^verbatim>\<open>task/executor.rs\<close>): spawning, polling, the ready loop, sleeping. A queued task is polled
    after those before it, and the processor is not halted while a task is queued.

  \<^bold>\<open>Programs.\<close>
  \<^item> \<open>Editor\<close>, \<open>Editor_Session\<close> (\<^verbatim>\<open>editor/mod.rs\<close>): editing refines a text with a gap, what is saved is what is opened again,
    the screen shows the text (contract \<open>terminal_laws\<close> of the device).
  \<^item> \<open>Pong\<close> (\<^verbatim>\<open>pong.rs\<close>): no overflow and no access outside the screen, and a game nobody plays ends.
  \<^item> \<open>Lisp\<close>, \<open>Lisp_Eval\<close> (\<^verbatim>\<open>parser.rs\<close>): reader, printer, built-in functions, every special form, \<^verbatim>\<open>interpret\<close>. \<open>Lisp_Read\<close>: what is
    printed reads back, and which text the reader fails on. \<open>Lisp_Types\<close>: values stay well formed. \<open>Lisp_Laws\<close>: evaluation
    keeps what the commands keep. \<open>Lisp_Programs\<close>: arithmetic, scope, and a loop that ends.
  \<^item> \<open>Hashmap\<close> (\<^verbatim>\<open>hashmap.rs\<close>): refines an association list as long as hashes are below the number of buckets.

  \<^bold>\<open>The shell and the whole.\<close>
  \<^item> \<open>Shell\<close> (\<^verbatim>\<open>shell.rs\<close>), \<open>Commands\<close> (\<^verbatim>\<open>commands.rs\<close>, \<^verbatim>\<open>programReturn.rs\<close>): the line and its history, every command, \<^verbatim>\<open>run_cmd\<close> and
    the rounds of \<^verbatim>\<open>shell_task\<close>, on the record \<open>world\<close> of the statics the kernel keeps behind locks.
  \<^item> \<open>Command_Laws\<close>: the contracts \<open>command_contract\<close> of commands and \<open>kernel_contract\<close>, which adds the shell's steps, and what
    follows for any number of rounds; \<open>World_Inv\<close>: the invariant \<open>world_ok\<close> meets them. \<open>Typing\<close> and \<open>Keystrokes\<close>: from the keyboard's
    interrupts through both tasks, what is typed is what runs. \<open>Sessions\<close>: commands one after another, switching off,
    and a line that crashes the kernel. \<open>Editor_Use\<close>: \<^verbatim>\<open>eden\<close> from opening to saving, over the rounds its keys arrive in.
  \<^item> \<open>Kernel\<close>, \<open>Boot\<close> (\<^verbatim>\<open>main.rs\<close>): the boot completes on every well-formed volume and keeps its files, so that what a command
    saves is there after a restart; without a volume it panics.
  \<^item> \<open>Scheduling\<close>: boot, executor, interrupts, keyboard task and shell together. Lines typed after power-on run as commands, one
    after another, and the invariant \<open>quiet\<close> of the commands (nothing half typed is left behind) carries from line to line.

  \<^bold>\<open>Bounds.\<close> Loops over data recurse on the data. Where a loop has no bound of its own, the model has one as an argument, and
  running out of it is a result of its own (\<open>Hang\<close>, \<open>Unfinished\<close>), never a value:
  \<^item> waiting for the disk: a conforming device answers within a number of reads that \<open>ata_conforms\<close> names;
  \<^item> cluster chains: each round of reading copies a sector or follows one of 65536 links, each round of writing takes one of
    at most 65536 free entries; on a well-formed volume no chain repeats a cluster, so the rounds granted (65538 plus
    the sectors of the file, and 65537) are enough, and the file operations are shown to return;
  \<^item> evaluation: one number bounds the depth of calls and the rounds of each loop. A run that ends with one bound is the
    same with every larger one (\<open>World_Inv\<close>), and for the counting loop a sufficient bound is given (\<open>Lisp_Programs\<close>);
  \<^item> rounds of the shell, the executor, the editor and the game: as many as the argument or the batches of keys say; the
    loops themselves have no end.

  \<^bold>\<open>Arguments.\<close> Code of other crates is an argument with its documented behaviour as a named hypothesis: the ports of
  \<^verbatim>\<open>x86_64\<close> (\<open>ata_conforms\<close>), its page tables (\<open>four_level\<close>, \<open>mapper_ok\<close>, \<open>page_range\<close>, \<open>aligns_down\<close>), the memory map of the
  bootloader (\<open>regions_ok\<close>), \<^verbatim>\<open>ArrayQueue\<close> (\<open>bounded_fifo\<close>), \<^verbatim>\<open>AtomicWaker\<close> (\<open>takes_waker\<close>, \<open>wakes_once\<close>), the port driver of \<^verbatim>\<open>uart_16550\<close>
  (\<open>uart_sends\<close>), and the decoder of \<^verbatim>\<open>pc_keyboard\<close>, of which nothing is assumed. While a task yields, the others run; for
  the shell this means that the keyboard task may add key events, and \<open>yield_now\<close> takes them from a list that is part
  of the state.

  \<^bold>\<open>Not modelled.\<close> The contents of the heap and of stacks, and running out of either; the spin locks other than \<^verbatim>\<open>IDE\<close> and \<^verbatim>\<open>FS\<close>,
  and contention for any of them, since one task runs at a time and no lock is held across an await (the interrupt
  handler that prints while the screen is locked is the exception, and would not return); time, so that the delay
  loop of the game is a no-op; a drive that is still busy when it is given a flush, which \<open>ata_conforms\<close> takes to accept
  it; the statics themselves (\<^verbatim>\<open>lazy_static\<close>), which are fields of the state; \<^verbatim>\<open>Debug\<close> texts of processor structures, which
  are arguments; the integration tests under \<^verbatim>\<open>tests\<close>.
\<close>

end
